(* ===== verification/Prelude.thy ===== *)
theory Prelude
  imports Main "HOL-Library.Word" "HOL-Library.Multiset" "HOL-Library.List_Lexorder"
    "HOL-Library.Char_ord" "HOL-Library.AList"
begin

text \<open>
  Shared vocabulary of the development: Go's int64 arithmetic with its wrap-around written out,
  the iteration order of a Go map as an explicit list of keys, a fold that stops at the first
  panic, and the number of map entries that fall into a class (what a gauge is meant to count),
  with the lemmas every component needs about them.
\<close>

named_theorems go_defs \<open>the arithmetic of the model, unfolded together\<close>

subsection \<open>int64\<close>

text \<open>
  A Go int64 is an int in the range of \<open>in_int64\<close>; addition and subtraction wrap around.
\<close>

definition wrap64 :: "int \<Rightarrow> int" where
  "wrap64 x = (x + 2 ^ 63) mod 2 ^ 64 - 2 ^ 63"

definition in_int64 :: "int \<Rightarrow> bool" where
  "in_int64 x \<longleftrightarrow> - (2 ^ 63) \<le> x \<and> x < 2 ^ 63"

definition add64 :: "int \<Rightarrow> int \<Rightarrow> int" where
  "add64 a b = wrap64 (a + b)"

definition sub64 :: "int \<Rightarrow> int \<Rightarrow> int" where
  "sub64 a b = wrap64 (a - b)"

lemma in_int64_wrap64 [simp, intro]: "in_int64 (wrap64 x)"
proof -
  have "0 \<le> (x + 2 ^ 63) mod 2 ^ 64" and "(x + 2 ^ 63) mod 2 ^ 64 < (2 ^ 64 :: int)"
    by simp_all
  then show ?thesis by (simp add: in_int64_def wrap64_def)
qed

lemma wrap64_id [simp]: "in_int64 x \<Longrightarrow> wrap64 x = x"
  by (simp add: in_int64_def wrap64_def)

lemma add64_exact: "in_int64 (a + b) \<Longrightarrow> add64 a b = a + b"
  by (simp add: add64_def)

lemma sub64_exact: "in_int64 (a - b) \<Longrightarrow> sub64 a b = a - b"
  by (simp add: sub64_def)

lemmas int64_exact = add64_exact sub64_exact

declare add64_def [go_defs] sub64_def [go_defs] wrap64_def [go_defs]

subsection \<open>Iteration order of a map\<close>

text \<open>
  Go visits the keys of a map in an unspecified order. An operation that ranges over a map takes
  the order as a list of keys, and its theorems hold for every list that \<open>iter_order\<close> allows.
\<close>

definition iter_order :: "'k list \<Rightarrow> ('k \<rightharpoonup> 'v) \<Rightarrow> bool" where
  "iter_order ks m \<longleftrightarrow> distinct ks \<and> set ks = dom m"

lemma iter_order_distinct [dest]: "iter_order ks m \<Longrightarrow> distinct ks"
  by (simp add: iter_order_def)

lemma iter_order_set: "iter_order ks m \<Longrightarrow> set ks = dom m"
  by (simp add: iter_order_def)

lemma iter_order_mem: "iter_order ks m \<Longrightarrow> k \<in> set ks \<longleftrightarrow> (\<exists>v. m k = Some v)"
  by (auto simp: iter_order_def)

lemma iter_order_finite: "iter_order ks m \<Longrightarrow> finite (dom m)"
proof -
  assume "iter_order ks m"
  then have "dom m = set ks" by (simp only: iter_order_set)
  then show ?thesis by simp
qed

lemma iter_order_exists: "finite (dom m) \<Longrightarrow> \<exists>ks. iter_order ks m"
  by (drule finite_distinct_list) (auto simp: iter_order_def)

lemma set_map_filter: "set (List.map_filter f xs) = {y. \<exists>x \<in> set xs. f x = Some y}"
  by (induction xs) (auto split: option.splits)

lemma map_filter_distinct_key:
  assumes "distinct xs" and "\<And>x y. x \<in> set xs \<Longrightarrow> f x = Some y \<Longrightarrow> key y = x"
  shows "distinct (map key (List.map_filter f xs))"
  using assms
proof (induction xs)
  case Nil
  then show ?case by simp
next
  case (Cons x xs)
  then have IH: "distinct (map key (List.map_filter f xs))" by simp
  show ?case
  proof (cases "f x")
    case None
    with IH show ?thesis by simp
  next
    case (Some y)
    have "key y = x" using Cons.prems(2) Some by simp
    moreover have "x \<notin> key ` set (List.map_filter f xs)"
      using Cons.prems by (auto simp: set_map_filter)
    ultimately show ?thesis using Some IH by simp
  qed
qed

lemma set_map_loop:
  assumes "iter_order ms m"
  shows "u \<in> set (List.map_filter (\<lambda>i. case m i of None \<Rightarrow> None | Some x \<Rightarrow> F i x) ms) \<longleftrightarrow>
    (\<exists>i x. m i = Some x \<and> F i x = Some u)"
  using iter_order_mem [OF assms] by (force simp: set_map_filter split: option.splits)

subsection \<open>Folding an operation that can panic\<close>

fun foldM :: "('a \<Rightarrow> 's \<Rightarrow> 's option) \<Rightarrow> 'a list \<Rightarrow> 's \<Rightarrow> 's option" where
  "foldM f [] s = Some s"
| "foldM f (x # xs) s = (case f x s of None \<Rightarrow> None | Some s' \<Rightarrow> foldM f xs s')"

lemma foldM_append: "foldM f (xs @ ys) s = (case foldM f xs s of None \<Rightarrow> None | Some t \<Rightarrow> foldM f ys t)"
  by (induction xs arbitrary: s) (auto split: option.splits)

lemma foldM_total:
  assumes "\<And>x s. x \<in> set xs \<Longrightarrow> P s \<Longrightarrow> \<exists>s'. f x s = Some s' \<and> P s'" and "P s"
  shows "\<exists>s'. foldM f xs s = Some s' \<and> P s'"
  using assms
proof (induction xs arbitrary: s)
  case Nil
  then show ?case by simp
next
  case (Cons x xs)
  from Cons.prems obtain s' where "f x s = Some s'" "P s'" by force
  with Cons.IH [of s'] Cons.prems show ?case by auto
qed

lemma foldM_invariant:
  assumes "\<And>x s s'. f x s = Some s' \<Longrightarrow> P s \<Longrightarrow> P s'"
  shows "foldM f xs s = Some s' \<Longrightarrow> P s \<Longrightarrow> P s'"
  by (induction xs arbitrary: s) (auto split: option.splits dest: assms)

lemma fold_invariant_set:
  assumes "\<And>x s. x \<in> set xs \<Longrightarrow> P s \<Longrightarrow> P (f x s)" and "P s"
  shows "P (fold f xs s)"
  using assms by (induction xs arbitrary: s) auto

lemma map_pair_injective:
  assumes "map f xs = map f ys" and "map g xs = map g ys"
    and "\<And>x y. f x = f y \<Longrightarrow> g x = g y \<Longrightarrow> x = y"
  shows "xs = ys"
  using assms(1,2)
proof (induction xs arbitrary: ys)
  case Nil
  then show ?case by simp
next
  case (Cons x xs)
  then show ?case by (cases ys) (auto intro: assms(3))
qed

subsection \<open>Counting the entries of a map\<close>

text \<open>
  \<open>population m P f k\<close> is the number of entries of \<open>m\<close> whose value satisfies
  \<open>P\<close> and is put into class \<open>k\<close> by \<open>f\<close>.
\<close>

definition population :: "('i \<rightharpoonup> 'v) \<Rightarrow> ('v \<Rightarrow> bool) \<Rightarrow> ('v \<Rightarrow> 'k) \<Rightarrow> 'k \<Rightarrow> nat" where
  "population m P f k = card {i. \<exists>v. m i = Some v \<and> P v \<and> f v = k}"

lemma population_empty [simp]: "population Map.empty P f k = 0"
  by (simp add: population_def)

lemma population_finite: "finite (dom m) \<Longrightarrow> finite {i. \<exists>v. m i = Some v \<and> P v \<and> f v = k}"
  by (rule finite_subset [of _ "dom m"]) auto

lemma population_insert:
  assumes "finite (dom m)" and "m i = None"
  shows "population (m(i \<mapsto> v)) P f k = population m P f k + (if P v \<and> f v = k then 1 else 0)"
proof -
  let ?A = "{j. \<exists>v. m j = Some v \<and> P v \<and> f v = k}"
  have "{j. \<exists>w. (m(i \<mapsto> v)) j = Some w \<and> P w \<and> f w = k} =
      (if P v \<and> f v = k then insert i ?A else ?A)"
    using assms(2) by auto
  moreover have "i \<notin> ?A" using assms(2) by simp
  ultimately show ?thesis
    using population_finite [OF assms(1), of P f k] by (simp add: population_def)
qed

lemma population_delete:
  assumes "finite (dom m)" and "m i = Some v"
  shows "population m P f k = population (m(i := None)) P f k + (if P v \<and> f v = k then 1 else 0)"
proof -
  have "population ((m(i := None))(i \<mapsto> v)) P f k =
      population (m(i := None)) P f k + (if P v \<and> f v = k then 1 else 0)"
    by (rule population_insert) (use assms in auto)
  moreover have "(m(i := None))(i \<mapsto> v) = m" using assms(2) by auto
  ultimately show ?thesis by simp
qed

end
