(* ===== verification/Messages.thy ===== *)
theory Messages
  imports Prelude
begin

text \<open>
  The messages of the fuddle-rpc package that the source reads and writes, with the fields it
  uses. The package is not part of the repository: nothing is assumed about it except the shape
  of its message types. A protobuf enum is an open int32, so \<open>liveness\<close> and
  \<open>client_update_type\<close> have a constructor for every other number; how an enum prints is a
  parameter of the definitions that print one. Nested messages that the source dereferences
  without a nil check (State, Version, Timestamp) are plain fields, as every sender in the repository
  sets them; Locality, which a node leaves unset, is an option, and so is the member of a client's
  message, which comes from outside.
\<close>

datatype liveness = Liveness_UP | Liveness_DOWN | Liveness_LEFT | Liveness_other int

record locality =
  Region :: string
  AvailabilityZone :: string

record member_state =
  MemberId :: string
  Status :: string
  Service :: string
  Locality :: "locality option"
  Started :: int
  Revision :: string
  Metadata :: "string \<rightharpoonup> string"

text \<open>A message with only the id set: every other field has Go's zero value.\<close>

definition zero_state :: "string \<Rightarrow> member_state" where
  "zero_state i = \<lparr>MemberId = i, Status = '''', Service = '''', Locality = None,
     Started = 0, Revision = '''', Metadata = Map.empty\<rparr>"

lemma MemberId_zero_state [simp]: "MemberId (zero_state i) = i"
  by (simp add: zero_state_def)

datatype monotonic_timestamp = MonotonicTimestamp (Timestamp: int) (Counter: "64 word")

record version2 =
  OwnerId :: string
  VTimestamp :: monotonic_timestamp

record member2 =
  State :: member_state
  Liveness :: liveness
  Version :: version2
  Expiry :: int

record subscribe_request =
  KnownMembers :: "string \<rightharpoonup> version2"
  OwnerOnly :: bool

datatype client_update_type =
  CLIENT_REGISTER | CLIENT_UNREGISTER | CLIENT_HEARTBEAT | CLIENT_other int

record client_update =
  UpdateType :: client_update_type
  Member :: "member_state option"

text \<open>
  Timestamps are ordered by time, then by counter. The library's order classes apply to them.
\<close>

instantiation monotonic_timestamp :: linorder
begin

definition less_eq_monotonic_timestamp :: "monotonic_timestamp \<Rightarrow> monotonic_timestamp \<Rightarrow> bool" where
  "less_eq_monotonic_timestamp a b \<longleftrightarrow>
     Timestamp a < Timestamp b \<or> (Timestamp a = Timestamp b \<and> Counter a \<le> Counter b)"

definition less_monotonic_timestamp :: "monotonic_timestamp \<Rightarrow> monotonic_timestamp \<Rightarrow> bool" where
  "less_monotonic_timestamp a b \<longleftrightarrow>
     Timestamp a < Timestamp b \<or> (Timestamp a = Timestamp b \<and> Counter a < Counter b)"

instance
proof
  fix a b c :: monotonic_timestamp
  show "a < b \<longleftrightarrow> a \<le> b \<and> \<not> b \<le> a"
    by (auto simp: less_monotonic_timestamp_def less_eq_monotonic_timestamp_def)
  show "a \<le> a" by (simp add: less_eq_monotonic_timestamp_def)
  show "a \<le> b \<Longrightarrow> b \<le> c \<Longrightarrow> a \<le> c"
    by (auto simp: less_eq_monotonic_timestamp_def)
  show "a \<le> b \<Longrightarrow> b \<le> a \<Longrightarrow> a = b"
    by (auto simp: less_eq_monotonic_timestamp_def intro: monotonic_timestamp.expand)
  show "a \<le> b \<or> b \<le> a" by (auto simp: less_eq_monotonic_timestamp_def)
qed

end

lemmas timestamp_order = less_monotonic_timestamp_def less_eq_monotonic_timestamp_def

end
