(* ===== verification/Metrics.thy ===== *)
theory Metrics
  imports Messages
begin

text \<open>
  pkg/metrics: counters and gauges keyed by a set of labels. A label set (a Go
  \<^verbatim>\<open>map[string]string\<close>) is a list of pairs with distinct names, in the order the
  runtime happens to yield it; \<open>labelsToString_perm\<close> shows that the order does not matter.
  The float64 values are integers here: the program only adds, subtracts and stores integers,
  which float64 does exactly up to 2 ^ 53. The Prometheus collectors, which are written and never
  read back, are not modelled.
\<close>

type_synonym labels = "(string \<times> string) list"

record labelledValue =
  Label :: string
  LValue :: string

definition labelledValue_String :: "labelledValue \<Rightarrow> string" where
  "labelledValue_String lv = Label lv @ ''='' @ LValue lv"

text \<open>Go's strings.ToLower and strings.Join, the former on ASCII letters.\<close>

definition lower_char :: "char \<Rightarrow> char" where
  "lower_char c = (let n = (of_char c :: nat) in if 65 \<le> n \<and> n \<le> 90 then char_of (n + 32) else c)"

definition ToLower :: "string \<Rightarrow> string" where
  "ToLower s = map lower_char s"

fun Join :: "string list \<Rightarrow> string \<Rightarrow> string" where
  "Join [] sep = ''''"
| "Join [s] sep = s"
| "Join (s # t # ss) sep = s @ sep @ Join (t # ss) sep"

definition labelsToString :: "labels \<Rightarrow> string" where
  "labelsToString ls =
     (let labelledValues = map (\<lambda>(l, v). \<lparr>Label = l, LValue = v\<rparr>) ls;
          sorted_values = sort_key Label labelledValues;
          strs = map labelledValue_String sorted_values
      in Join strs '','')"

definition labelsToLowercase :: "labels \<Rightarrow> labels" where
  "labelsToLowercase ls = map (\<lambda>(k, v). (k, ToLower v)) ls"

text \<open>Reading a missing key of a Go map yields the zero value.\<close>

definition value_at :: "(string \<rightharpoonup> int) \<Rightarrow> string \<Rightarrow> int" where
  "value_at vs k = (case vs k of None \<Rightarrow> 0 | Some v \<Rightarrow> v)"

lemma value_at_empty [simp]: "value_at Map.empty k = 0"
  by (simp add: value_at_def)

lemma value_at_upd [simp]: "value_at (vs(k \<mapsto> v)) k' = (if k' = k then v else value_at vs k')"
  by (simp add: value_at_def)

subsection \<open>Counter\<close>

record counter =
  counter_values :: "string \<rightharpoonup> int"

definition NewCounter :: counter where
  "NewCounter = \<lparr>counter_values = Map.empty\<rparr>"

definition Counter_Inc :: "labels \<Rightarrow> counter \<Rightarrow> counter" where
  "Counter_Inc labels c =
     (let k = labelsToString (labelsToLowercase labels)
      in c\<lparr>counter_values := (counter_values c)(k \<mapsto> value_at (counter_values c) k + 1)\<rparr>)"

definition Counter_Add :: "int \<Rightarrow> labels \<Rightarrow> counter \<Rightarrow> counter" where
  "Counter_Add n labels c =
     (let k = labelsToString (labelsToLowercase labels)
      in c\<lparr>counter_values := (counter_values c)(k \<mapsto> value_at (counter_values c) k + n)\<rparr>)"

definition Counter_Value :: "labels \<Rightarrow> counter \<Rightarrow> int" where
  "Counter_Value labels c = value_at (counter_values c) (labelsToString labels)"

subsection \<open>Gauge\<close>

record gauge =
  gauge_values :: "string \<rightharpoonup> int"

definition NewGauge :: gauge where
  "NewGauge = \<lparr>gauge_values = Map.empty\<rparr>"

definition Gauge_Inc :: "labels \<Rightarrow> gauge \<Rightarrow> gauge" where
  "Gauge_Inc labels g =
     (let k = labelsToString (labelsToLowercase labels)
      in g\<lparr>gauge_values := (gauge_values g)(k \<mapsto> value_at (gauge_values g) k + 1)\<rparr>)"

definition Gauge_Dec :: "labels \<Rightarrow> gauge \<Rightarrow> gauge" where
  "Gauge_Dec labels g =
     (let k = labelsToString (labelsToLowercase labels)
      in g\<lparr>gauge_values := (gauge_values g)(k \<mapsto> value_at (gauge_values g) k - 1)\<rparr>)"

definition Gauge_Set :: "int \<Rightarrow> labels \<Rightarrow> gauge \<Rightarrow> gauge" where
  "Gauge_Set v labels g =
     (let k = labelsToString (labelsToLowercase labels)
      in g\<lparr>gauge_values := (gauge_values g)(k \<mapsto> v)\<rparr>)"

definition Gauge_Value :: "labels \<Rightarrow> gauge \<Rightarrow> int" where
  "Gauge_Value labels g = value_at (gauge_values g) (labelsToString labels)"

subsection \<open>Label strings\<close>

lemma ToLower_idem [simp]: "ToLower (ToLower s) = ToLower s"
proof -
  have "lower_char (lower_char c) = lower_char c" for c
    by (cases "of_char c < (224 :: nat)") (auto simp: lower_char_def Let_def)
  then show ?thesis by (simp add: ToLower_def)
qed

lemma labelsToLowercase_idem [simp]:
  "labelsToLowercase (labelsToLowercase ls) = labelsToLowercase ls"
  by (simp add: labelsToLowercase_def case_prod_beta)

lemma fst_labelsToLowercase [simp]: "map fst (labelsToLowercase ls) = map fst ls"
  by (simp add: labelsToLowercase_def case_prod_beta)

lemma labels_perm:
  assumes "mset ls = mset ls'" and "distinct (map fst ls)"
  shows "labelsToString ls = labelsToString ls'"
proof -
  let ?mk = "\<lambda>(l, v). \<lparr>Label = l, LValue = v\<rparr> :: labelledValue"
  have inj: "inj_on Label (set (map ?mk ls))"
  proof (rule inj_onI)
    fix x y :: labelledValue
    assume "x \<in> set (map ?mk ls)" "y \<in> set (map ?mk ls)" "Label x = Label y"
    then show "x = y" using assms(2) by (auto dest: eq_key_imp_eq_value)
  qed
  have "mset (map ?mk ls) = mset (sort_key Label (map ?mk ls'))"
    using assms(1) by simp
  from sort_key_inj_key_eq [OF this inj]
  have "sort_key Label (map ?mk ls) = sort_key Label (map ?mk ls')" by simp
  then show ?thesis by (simp add: labelsToString_def Let_def)
qed

text \<open>
  The key under which a metric is stored is a function of the label map, not of the order
  in which the Go runtime iterates over it: every permutation of the labels gives the same key.
\<close>
theorem labelsToString_perm:
  assumes "mset ls = mset ls'" and "distinct (map fst ls)"
  shows "labelsToString ls = labelsToString ls'"
  using assms by (rule labels_perm)

theorem labelsToString_perm_witness:
  "labelsToString [(''status'', ''up''), (''owner'', ''n1'')] =
   labelsToString [(''owner'', ''n1''), (''status'', ''up'')]"
  by (rule labelsToString_perm) simp_all

text \<open>
  The same label names and comma-free values give the same key only for the same values.
\<close>

lemma Join_inj:
  assumes "length xs = length ys" and "\<forall>s \<in> set xs \<union> set ys. c \<notin> set s"
    and "Join xs [c] = Join ys [c]"
  shows "xs = ys"
  using assms
proof (induction xs "[c]" arbitrary: ys rule: Join.induct)
  case 1
  then show ?case by simp
next
  case (2 s)
  then show ?case by (cases ys rule: list.exhaust) (auto simp: length_Suc_conv)
next
  case (3 s t ss)
  then obtain s' t' ss' where ys: "ys = s' # t' # ss'"
    by (cases ys; cases "tl ys") auto
  from 3(4) ys have eq: "s @ [c] @ Join (t # ss) [c] = s' @ [c] @ Join (t' # ss') [c]"
    by simp
  have "s = s' \<and> Join (t # ss) [c] = Join (t' # ss') [c]"
    using eq 3(3) ys by (auto simp: append_eq_append_conv2 Cons_eq_append_conv append_eq_Cons_conv)
  moreover from this have "t # ss = t' # ss'"
    using 3(2,3) ys by (intro 3(1)) auto
  ultimately show ?case using ys by simp
qed

lemma labelledValue_String_inj:
  "labelledValue_String x = labelledValue_String y \<Longrightarrow> Label x = Label y \<Longrightarrow> x = y"
  by (cases x; cases y) (simp add: labelledValue_String_def)

text \<open>
  Label maps with the same names whose names and values hold no comma are told apart by
  their key: two such label lists with equal keys are the same map, so two series of one metric
  never share a cell.
\<close>
theorem labelsToString_injective:
  assumes names: "map fst ls = map fst ls'" and dist: "distinct (map fst ls)"
    and nocomma: "\<forall>(l, v) \<in> set ls \<union> set ls'. CHR '','' \<notin> set l \<union> set v"
    and eq: "labelsToString ls = labelsToString ls'"
  shows "map_of ls = map_of ls'"
proof -
  let ?mk = "\<lambda>(l, v). \<lparr>Label = l, LValue = v\<rparr> :: labelledValue"
  let ?xs = "sort_key Label (map ?mk ls)" and ?ys = "sort_key Label (map ?mk ls')"
  have labels: "map Label ?xs = map Label ?ys"
  proof -
    have "sort (map fst ls) = map Label (sort_key Label (map ?mk ls))" for ls :: labels
    proof (rule properties_for_sort)
      have "map Label (map ?mk ls) = map fst ls" by (auto simp: case_prod_beta)
      then show "mset (map Label (sort_key Label (map ?mk ls))) = mset (map fst ls)"
        by (metis mset_map mset_sort)
    qed simp
    from this [of ls] this [of ls'] show ?thesis using names by metis
  qed
  have "length ?xs = length ?ys" using labels by (rule map_eq_imp_length_eq)
  moreover have "\<forall>s \<in> set (map labelledValue_String ?xs) \<union> set (map labelledValue_String ?ys).
      CHR '','' \<notin> set s"
    using nocomma by (fastforce simp: labelledValue_String_def)
  ultimately have strs: "map labelledValue_String ?xs = map labelledValue_String ?ys"
    using eq by (intro Join_inj) (simp_all add: labelsToString_def Let_def)
  from strs labels have "?xs = ?ys"
    by (rule map_pair_injective) (rule labelledValue_String_inj)
  then have "mset (map ?mk ls) = mset (map ?mk ls')"
    by (metis mset_sort)
  then have "mset (map (\<lambda>x. (Label x, LValue x)) (map ?mk ls)) =
      mset (map (\<lambda>x. (Label x, LValue x)) (map ?mk ls'))"
    by (metis mset_map)
  moreover have "map (\<lambda>x. (Label x, LValue x)) (map ?mk ls) = ls" for ls
    by (simp add: comp_def case_prod_beta)
  ultimately have "mset ls = mset ls'" by (simp only:)
  then have "set ls = set ls'" by (rule mset_eq_setD)
  moreover have "distinct (map fst ls')" using names dist by simp
  ultimately show ?thesis using dist by (simp add: map_of_inject_set)
qed

theorem labelsToString_injective_witness:
  "map_of [(''status'', ''up''), (''owner'', ''n1'')] = map_of [(''status'', ''up''), (''owner'', ''n1'')]"
  by (rule labelsToString_injective [OF refl _ _ refl]) auto

subsection \<open>What a client of a gauge relies on\<close>

text \<open>
  Every operation on a metric changes the cell of its labels by the given amount and no other.
  The registries only add and remove one member at a time; that their gauges always show the
  number of members with the labels follows from these two laws alone.
\<close>

definition metric_key :: "labels \<Rightarrow> string" where
  "metric_key labels = labelsToString (labelsToLowercase labels)"

locale gauge_laws =
  fixes inc dec :: "'l \<Rightarrow> 'g \<Rightarrow> 'g" and key :: "'l \<Rightarrow> 'k" and val :: "'g \<Rightarrow> 'k \<Rightarrow> int"
  assumes val_inc: "val (inc l g) k = val g k + (if key l = k then 1 else 0)"
    and val_dec: "val (dec l g) k = val g k - (if key l = k then 1 else 0)"
begin

lemma counts_insert:
  assumes "finite (dom m)" and "m i = None"
    and "\<And>k. val g k = int (population m P (\<lambda>v. key (lab v)) k)"
  shows "val (if P v then inc (lab v) g else g) k =
    int (population (m(i \<mapsto> v)) P (\<lambda>v. key (lab v)) k)"
  using assms by (simp add: population_insert val_inc)

lemma counts_delete:
  assumes "finite (dom m)" and "m i = Some v"
    and "\<And>k. val g k = int (population m P (\<lambda>v. key (lab v)) k)"
  shows "val (if P v then dec (lab v) g else g) k =
    int (population (m(i := None)) P (\<lambda>v. key (lab v)) k)"
  using assms population_delete [OF assms(1,2), of P "\<lambda>v. key (lab v)" k]
  by (simp add: val_dec)

lemma counts_replace:
  assumes fin: "finite (dom m)" and m: "m i = Some old"
    and g: "\<And>k. val g k = int (population m P (\<lambda>v. key (lab v)) k)"
  shows "val (if P v then inc (lab v) (if P old then dec (lab old) g else g)
      else (if P old then dec (lab old) g else g)) k =
    int (population (m(i \<mapsto> v)) P (\<lambda>v. key (lab v)) k)"
proof -
  have "val (if P v then inc (lab v) (if P old then dec (lab old) g else g)
      else (if P old then dec (lab old) g else g)) k =
    int (population ((m(i := None))(i \<mapsto> v)) P (\<lambda>v. key (lab v)) k)"
    by (rule counts_insert [where m = "m(i := None)"]) (use fin counts_delete [OF fin m g] in simp_all)
  then show ?thesis by simp
qed

end

definition gauge_cell :: "gauge \<Rightarrow> string \<Rightarrow> int" where
  "gauge_cell g k = value_at (gauge_values g) k"

lemma Gauge_Value_cell: "Gauge_Value labels g = gauge_cell g (labelsToString labels)"
  by (simp add: Gauge_Value_def gauge_cell_def)

interpretation gauge: gauge_laws Gauge_Inc Gauge_Dec metric_key gauge_cell
  by unfold_locales
    (simp_all add: Gauge_Inc_def Gauge_Dec_def gauge_cell_def metric_key_def Let_def)

lemma gauge_cell_new [simp]: "gauge_cell NewGauge k = 0"
  by (simp add: gauge_cell_def NewGauge_def)

lemma gauge_cell_set [simp]:
  "gauge_cell (Gauge_Set v labels g) k = (if k = metric_key labels then v else gauge_cell g k)"
  by (simp add: gauge_cell_def Gauge_Set_def metric_key_def Let_def)

lemma counter_cell_inc: "value_at (counter_values (Counter_Inc labels c)) k =
    value_at (counter_values c) k + (if metric_key labels = k then 1 else 0)"
  by (simp add: Counter_Inc_def metric_key_def Let_def)

lemma counter_cell_add: "value_at (counter_values (Counter_Add n labels c)) k =
    value_at (counter_values c) k + (if metric_key labels = k then n else 0)"
  by (simp add: Counter_Add_def metric_key_def Let_def)

text \<open>
  What a test or a dashboard reads back from a metric. Writing with lower-case labels and
  reading with the same labels in any order returns the updated value; Value does not lower-case
  its argument, so a value written under a label with a capital letter is stored under the
  lower-case key only.
\<close>
theorem gauge_read_back:
  assumes "mset labels' = mset (labelsToLowercase labels)" and "distinct (map fst labels)"
  shows "Gauge_Value labels' (Gauge_Inc labels g) = Gauge_Value labels' g + 1 \<and>
    Gauge_Value labels' (Gauge_Dec labels g) = Gauge_Value labels' g - 1 \<and>
    Gauge_Value labels' (Gauge_Set v labels g) = v \<and>
    Counter_Value labels' (Counter_Inc labels c) = Counter_Value labels' c + 1 \<and>
    Counter_Value labels' (Counter_Add n labels c) = Counter_Value labels' c + n"
proof -
  have "labelsToString (labelsToLowercase labels) = labelsToString labels'"
    by (rule labels_perm) (use assms in simp_all)
  then have k: "labelsToString labels' = metric_key labels" by (simp add: metric_key_def)
  show ?thesis
    by (simp add: Gauge_Value_cell gauge.val_inc gauge.val_dec k Counter_Value_def
        counter_cell_inc counter_cell_add)
qed

theorem gauge_read_back_witness:
  "Gauge_Value [(''owner'', ''n1''), (''status'', ''up'')]
     (Gauge_Inc [(''status'', ''UP''), (''owner'', ''n1'')] NewGauge) = 1"
proof -
  let ?ls = "[(''status'', ''UP''), (''owner'', ''n1'')]"
  have "mset [(''owner'', ''n1''), (''status'', ''up'')] = mset (labelsToLowercase ?ls)"
    by code_simp
  moreover have "distinct (map fst ?ls)" by simp
  ultimately show ?thesis
    using gauge_read_back [of "[(''owner'', ''n1''), (''status'', ''up'')]" ?ls NewGauge]
    by (simp add: Gauge_Value_cell)
qed

end
