(* ===== verification/Versions.thy ===== *)
theory Versions
  imports Messages
begin

text \<open>
  The comparison of member versions (compareVersions of pkg/registry/registry/registry.go) and
  of bare timestamps (compareTimestamps of replicarepair.go): 1 when the right argument is newer,
  -1 when the left one is to be kept, 0 when they are equal. What the rest of the program relies
  on, that "is newer than" is a strict order on versions, is the locale \<open>freshness\<close>.
\<close>

definition compareVersions :: "version2 \<Rightarrow> version2 \<Rightarrow> int" where
  "compareVersions lhs rhs =
     (if OwnerId lhs \<noteq> OwnerId rhs then
        if Timestamp (VTimestamp lhs) < Timestamp (VTimestamp rhs) then 1
        else if Timestamp (VTimestamp lhs) > Timestamp (VTimestamp rhs) then - 1
        else - 1
      else if Timestamp (VTimestamp lhs) < Timestamp (VTimestamp rhs) then 1
      else if Timestamp (VTimestamp lhs) > Timestamp (VTimestamp rhs) then - 1
      else if Counter (VTimestamp lhs) < Counter (VTimestamp rhs) then 1
      else if Counter (VTimestamp lhs) > Counter (VTimestamp rhs) then - 1
      else 0)"

definition compareTimestamps :: "monotonic_timestamp \<Rightarrow> monotonic_timestamp \<Rightarrow> int" where
  "compareTimestamps lhs rhs =
     (if Timestamp lhs < Timestamp rhs then 1
      else if Timestamp lhs > Timestamp rhs then - 1
      else if Counter lhs < Counter rhs then 1
      else if Counter lhs > Counter rhs then - 1
      else 0)"

definition copyVersion :: "version2 \<Rightarrow> version2" where
  "copyVersion m = \<lparr>OwnerId = OwnerId m,
     VTimestamp = MonotonicTimestamp (Timestamp (VTimestamp m)) (Counter (VTimestamp m))\<rparr>"

lemma copyVersion_id [simp]: "copyVersion v = v"
  by (cases v) (simp add: copyVersion_def)

subsection \<open>The order on versions\<close>

abbreviation newer :: "version2 \<Rightarrow> version2 \<Rightarrow> bool" where
  "newer old new \<equiv> 0 < compareVersions old new"

lemma newer_iff:
  "newer a b \<longleftrightarrow> Timestamp (VTimestamp a) < Timestamp (VTimestamp b) \<or>
     (OwnerId a = OwnerId b \<and> Timestamp (VTimestamp a) = Timestamp (VTimestamp b) \<and>
      Counter (VTimestamp a) < Counter (VTimestamp b))"
  by (auto simp: compareVersions_def)

lemma newer_iff_timestamp:
  "newer a b \<longleftrightarrow> VTimestamp a < VTimestamp b \<and>
     (OwnerId a = OwnerId b \<or> Timestamp (VTimestamp a) \<noteq> Timestamp (VTimestamp b))"
  by (auto simp: newer_iff timestamp_order)

lemma compareTimestamps_iff:
  "0 < compareTimestamps a b \<longleftrightarrow> a < b" "compareTimestamps a b = 0 \<longleftrightarrow> a = b"
  by (auto simp: compareTimestamps_def timestamp_order intro: monotonic_timestamp.expand)

lemma compareVersions_zero: "compareVersions a b = 0 \<longleftrightarrow> a = b"
  by (cases a; cases b) (auto simp: compareVersions_def intro: monotonic_timestamp.expand)

text \<open>A relation "is newer than" by which a replica decides what to keep.\<close>

locale freshness =
  fixes fresher :: "'v \<Rightarrow> 'v \<Rightarrow> bool"
  assumes fresher_irrefl: "\<not> fresher a a"
    and fresher_trans: "fresher a b \<Longrightarrow> fresher b c \<Longrightarrow> fresher a c"
begin

lemma fresher_asym: "fresher a b \<Longrightarrow> \<not> fresher b a"
  using fresher_irrefl fresher_trans by blast

text \<open>What is kept of two candidates: the old one unless the new one is fresher.\<close>

lemma keep_fresher_commute:
  assumes "fresher u v \<or> fresher v u \<or> u = v"
  shows "(if fresher (if fresher e u then u else e) v then v else if fresher e u then u else e) =
         (if fresher (if fresher e v then v else e) u then u else if fresher e v then v else e)"
  using assms fresher_irrefl
  by (cases "fresher e u"; cases "fresher e v"; auto dest: fresher_asym intro: fresher_trans)

end

interpretation versions: freshness newer
proof
  show "\<not> newer a a" for a by (simp add: newer_iff)
  show "newer a c" if "newer a b" and "newer b c" for a b c
    using that by (auto simp: newer_iff)
qed

interpretation timestamps: freshness "\<lambda>a b. 0 < compareTimestamps a b"
  by unfold_locales (auto simp: compareTimestamps_iff)

text \<open>
  C25: compareVersions decides a strict partial order (no version is newer than itself, and newer
  is transitive); two versions that it calls equal are equal; and two different versions are
  ordered unless different owners assigned them in the same millisecond: then, whatever the counters,
  each is preferred to the other by whoever already holds it, and only then. The later millisecond is
  always newer; the counter decides within one owner and one millisecond only.
\<close>
theorem compareVersions_order:
  "\<not> newer a a \<and> (newer a b \<and> newer b c \<longrightarrow> newer a c) \<and> (compareVersions a b = 0 \<longleftrightarrow> a = b) \<and>
   (OwnerId a \<noteq> OwnerId b \<and> Timestamp (VTimestamp a) = Timestamp (VTimestamp b) \<longleftrightarrow>
     compareVersions a b = - 1 \<and> compareVersions b a = - 1) \<and>
   (a = b \<or> newer a b \<or> newer b a \<or> (compareVersions a b = - 1 \<and> compareVersions b a = - 1)) \<and>
   (Timestamp (VTimestamp a) < Timestamp (VTimestamp b) \<longrightarrow> newer a b) \<and>
   (OwnerId a = OwnerId b \<and> Timestamp (VTimestamp a) = Timestamp (VTimestamp b) \<longrightarrow>
     (newer a b \<longleftrightarrow> Counter (VTimestamp a) < Counter (VTimestamp b)))"
  (is "?irrefl \<and> ?trans \<and> ?eq \<and> ?tie \<and> ?total \<and> ?later \<and> ?counter")
proof (intro conjI)
  show ?irrefl by (rule versions.fresher_irrefl)
  show ?trans using versions.fresher_trans by blast
  show ?eq by (rule compareVersions_zero)
  show ?tie by (auto simp: compareVersions_def)
  show ?total
  proof (cases "OwnerId a = OwnerId b")
    case True
    have "a = b" if "\<not> newer a b" and "\<not> newer b a"
      using that True
      by (cases a; cases b) (auto simp: newer_iff intro: monotonic_timestamp.expand)
    then show ?thesis by blast
  next
    case False
    then show ?thesis by (auto simp: compareVersions_def)
  qed
  show ?later and ?counter by (simp_all add: newer_iff)
qed

theorem compareVersions_order_witness:
  "newer \<lparr>OwnerId = ''a'', VTimestamp = MonotonicTimestamp 100 0\<rparr>
         \<lparr>OwnerId = ''b'', VTimestamp = MonotonicTimestamp 300 0\<rparr> \<and>
   compareVersions \<lparr>OwnerId = ''a'', VTimestamp = MonotonicTimestamp 100 0\<rparr>
         \<lparr>OwnerId = ''b'', VTimestamp = MonotonicTimestamp 100 5\<rparr> = - 1"
proof -
  let ?v = "\<lambda>i t. \<lparr>OwnerId = i, VTimestamp = MonotonicTimestamp t 0\<rparr>"
  have "newer (?v ''a'' 100) (?v ''b'' 200)" and "newer (?v ''b'' 200) (?v ''b'' 300)"
    by (simp_all add: newer_iff)
  then have "newer (?v ''a'' 100) (?v ''b'' 300)"
    using compareVersions_order [of "?v ''a'' 100" "?v ''b'' 200" "?v ''b'' 300"] by blast
  moreover have "compareVersions (?v ''a'' 100) \<lparr>OwnerId = ''b'', VTimestamp = MonotonicTimestamp 100 5\<rparr> = - 1"
    using compareVersions_order [of "?v ''a'' 100" "\<lparr>OwnerId = ''b'', VTimestamp = MonotonicTimestamp 100 5\<rparr>"]
    by simp
  ultimately show ?thesis by blast
qed

text \<open>
  CompareTimestamps, which replica repair uses instead of compareVersions, is exactly the
  comparison of the linear order on (time, counter): its sign tells less, equal and greater
  apart. It agrees with compareVersions on versions of one owner.
\<close>
theorem compareTimestamps_linear:
  "compareTimestamps a b = (if a < b then 1 else if a = b then 0 else - 1) \<and>
   compareVersions \<lparr>OwnerId = i, VTimestamp = a\<rparr> \<lparr>OwnerId = i, VTimestamp = b\<rparr> =
     compareTimestamps a b"
  by (auto simp: compareTimestamps_def compareVersions_def timestamp_order
      intro: monotonic_timestamp.expand)

end
