(* ===== verification/RegistryLog.thy ===== *)
theory RegistryLog
  imports Metrics Versions
begin

text \<open>
  pkg/registry/registry/logger.go: the zap encoders of members, member states and versions. An
  object encoder is the list of the calls made on it; \<open>None\<close> is the nil-pointer panic of
  reading a field of a missing Locality.
\<close>

datatype log_call =
    AddString string string
  | AddInt64 string int
  | AddUint64 string "64 word"

definition memberLogger_MarshalLogObject :: "(liveness \<Rightarrow> string) \<Rightarrow> member2 \<Rightarrow> log_call list option"
where
  "memberLogger_MarshalLogObject ls m = Some (
     [AddString ''state.id'' (MemberId (State m)),
      AddString ''state.status'' (Status (State m)),
      AddString ''state.service'' (Service (State m))] @
     (case Locality (State m) of
        None \<Rightarrow> []
      | Some l \<Rightarrow> [AddString ''state.locality.region'' (Region l),
          AddString ''state.locality.az'' (AvailabilityZone l)]) @
     [AddString ''state.started'' (Service (State m)),
      AddString ''state.revision'' (Revision (State m)),
      AddString ''liveness'' (ToLower (ls (Liveness m))),
      AddString ''version.owner'' (OwnerId (Version m)),
      AddInt64 ''version.timestamp'' (Timestamp (VTimestamp (Version m))),
      AddUint64 ''version.counter'' (Counter (VTimestamp (Version m))),
      AddInt64 ''expiry'' (Expiry m)])"

definition memberStateLogger_MarshalLogObject :: "member_state \<Rightarrow> log_call list option" where
  "memberStateLogger_MarshalLogObject s =
     (case Locality s of
        None \<Rightarrow> None
      | Some l \<Rightarrow> Some
          [AddString ''id'' (MemberId s),
           AddString ''status'' (Status s),
           AddString ''service'' (Service s),
           AddString ''locality.region'' (Region l),
           AddString ''locality.az'' (AvailabilityZone l),
           AddString ''started'' (Service s),
           AddString ''revision'' (Revision s)])"

definition versionLogger_MarshalLogObject :: "version2 \<Rightarrow> log_call list option" where
  "versionLogger_MarshalLogObject v = Some
     [AddString ''owner'' (OwnerId v),
      AddInt64 ''timestamp'' (Timestamp (VTimestamp v)),
      AddUint64 ''counter'' (Counter (VTimestamp v))]"

text \<open>
  What the registry logs. A member and a version are always encoded, and the version encoding
  determines the version. A bare member state, which is what the error lines "attempted to update
  local member" and "discarding local member update" log, is encoded only if it has a locality:
  without one the encoder dereferences a nil pointer. In both encoders the field called started
  holds the service, so the start time is never logged.
\<close>
theorem log_encoders:
  "memberLogger_MarshalLogObject ls m \<noteq> None \<and>
   (versionLogger_MarshalLogObject v = versionLogger_MarshalLogObject v' \<longleftrightarrow> v = v') \<and>
   (memberStateLogger_MarshalLogObject s = None \<longleftrightarrow> Locality s = None) \<and>
   memberStateLogger_MarshalLogObject (s\<lparr>Started := t\<rparr>) = memberStateLogger_MarshalLogObject s \<and>
   memberLogger_MarshalLogObject ls (m\<lparr>State := (State m)\<lparr>Started := t\<rparr>\<rparr>) =
     memberLogger_MarshalLogObject ls m"
proof -
  have "v = v'" if "versionLogger_MarshalLogObject v = versionLogger_MarshalLogObject v'"
    using that by (cases v; cases v')
      (auto simp: versionLogger_MarshalLogObject_def intro: monotonic_timestamp.expand)
  then show ?thesis
    by (auto simp: memberLogger_MarshalLogObject_def memberStateLogger_MarshalLogObject_def
        split: option.split)
qed

end
