(* ===== verification/Config.thy ===== *)
theory Config
  imports Prelude
begin

text \<open>
  pkg/config and the start command of the CLI: the configuration of a node, its defaults, how the
  command-line flags override them, and the host:port texts that nodes exchange. Go's decimal
  printing, strings.Split, strconv.Atoi and net.SplitHostPort are modelled as far as the source
  uses them. Durations are in nanoseconds, as in Go.
\<close>

subsection \<open>Numbers as text\<close>

definition digit_char :: "nat \<Rightarrow> char" where
  "digit_char d = char_of (48 + d)"

fun nat_to_string :: "nat \<Rightarrow> string" where
  "nat_to_string n = (if n < 10 then [digit_char n] else nat_to_string (n div 10) @ [digit_char (n mod 10)])"

declare nat_to_string.simps [simp del]

definition int_to_string :: "int \<Rightarrow> string" where
  "int_to_string i = (if i < 0 then CHR ''-'' # nat_to_string (nat (- i)) else nat_to_string (nat i))"

definition is_digit :: "char \<Rightarrow> bool" where
  "is_digit c \<longleftrightarrow> 48 \<le> (of_char c :: nat) \<and> (of_char c :: nat) \<le> 57"

definition digits_value :: "string \<Rightarrow> nat" where
  "digits_value s = foldl (\<lambda>v c. 10 * v + (of_char c - 48)) 0 s"

definition Atoi :: "string \<Rightarrow> int option" where
  "Atoi s =
     (let (neg, ds) = (case s of
          [] \<Rightarrow> (False, [])
        | c # rest \<Rightarrow> if c = CHR ''-'' then (True, rest) else if c = CHR ''+'' then (False, rest)
            else (False, s))
      in if ds = [] \<or> \<not> list_all is_digit ds then None
         else let v = (if neg then - int (digits_value ds) else int (digits_value ds))
              in if in_int64 v then Some v else None)"

subsection \<open>Addresses\<close>

fun index_of :: "char \<Rightarrow> string \<Rightarrow> nat option" where
  "index_of c [] = None"
| "index_of c (x # xs) = (if x = c then Some 0 else map_option Suc (index_of c xs))"

definition last_index_of :: "char \<Rightarrow> string \<Rightarrow> nat option" where
  "last_index_of c s = map_option (\<lambda>i. length s - 1 - i) (index_of c (rev s))"

definition SplitHostPort :: "string \<Rightarrow> (string \<times> string) option" where
  "SplitHostPort hp =
     (case last_index_of CHR '':'' hp of
        None \<Rightarrow> None
      | Some i \<Rightarrow>
          (case (if hd hp = CHR ''['' then
                   (case index_of CHR '']'' hp of
                      None \<Rightarrow> None
                    | Some e \<Rightarrow> if e + 1 = i then Some (take (e - 1) (drop 1 hp), 1, e + 1) else None)
                 else if CHR '':'' \<in> set (take i hp) then None
                 else Some (take i hp, 0, 0)) of
             None \<Rightarrow> None
           | Some (host, j, k) \<Rightarrow>
               if CHR ''['' \<in> set (drop j hp) \<or> CHR '']'' \<in> set (drop k hp) then None
               else Some (host, drop (i + 1) hp)))"

definition parseAddrPort :: "string \<Rightarrow> int option" where
  "parseAddrPort addr =
     (case SplitHostPort addr of
        None \<Rightarrow> None
      | Some (_, portStr) \<Rightarrow> (case Atoi portStr of None \<Rightarrow> None | Some port \<Rightarrow> Some port))"

definition host_port :: "string \<Rightarrow> int \<Rightarrow> string" where
  "host_port host port = host @ '':'' @ int_to_string port"

subsection \<open>The configuration\<close>

record rpc_config =
  rpc_BindAddr :: string
  rpc_BindPort :: int
  rpc_AdvAddr :: string
  rpc_AdvPort :: int

record gossip_config =
  gossip_BindAddr :: string
  gossip_BindPort :: int
  gossip_AdvAddr :: string
  gossip_AdvPort :: int
  gossip_Seeds :: "string list"

record admin_config =
  admin_BindAddr :: string
  admin_BindPort :: int
  admin_AdvAddr :: string
  admin_AdvPort :: int

record registry_config =
  HeartbeatTimeout :: int
  ReconnectTimeout :: int
  TombstoneTimeout :: int

record config =
  NodeID :: string
  RPC :: rpc_config
  Gossip :: gossip_config
  Admin :: admin_config
  RegistryConf :: registry_config

definition DefaultRPCConfig :: rpc_config where
  "DefaultRPCConfig = \<lparr>rpc_BindAddr = ''0.0.0.0'', rpc_BindPort = 8110, rpc_AdvAddr = '''', rpc_AdvPort = 8110\<rparr>"

definition DefaultGossipConfig :: gossip_config where
  "DefaultGossipConfig = \<lparr>gossip_BindAddr = ''0.0.0.0'', gossip_BindPort = 8111, gossip_AdvAddr = '''',
     gossip_AdvPort = 8111, gossip_Seeds = []\<rparr>"

definition DefaultAdminConfig :: admin_config where
  "DefaultAdminConfig = \<lparr>admin_BindAddr = ''0.0.0.0'', admin_BindPort = 8112, admin_AdvAddr = '''',
     admin_AdvPort = 8112\<rparr>"

definition DefaultRegistryConfig :: registry_config where
  "DefaultRegistryConfig = \<lparr>HeartbeatTimeout = 1000000000 * 20, ReconnectTimeout = 60000000000 * 5,
     TombstoneTimeout = 60000000000 * 30\<rparr>"

text \<open>\<open>uuid\<close> is the text of a random uuid.\<close>

definition DefaultConfig :: "string \<Rightarrow> config" where
  "DefaultConfig uuid = \<lparr>NodeID = ''fuddle-'' @ take 8 uuid, RPC = DefaultRPCConfig,
     Gossip = DefaultGossipConfig, Admin = DefaultAdminConfig, RegistryConf = DefaultRegistryConfig\<rparr>"

definition rpc_JoinAdvAddr :: "rpc_config \<Rightarrow> string" where
  "rpc_JoinAdvAddr c = host_port (rpc_AdvAddr c) (rpc_AdvPort c)"

definition rpc_JoinBindAddr :: "rpc_config \<Rightarrow> string" where
  "rpc_JoinBindAddr c = host_port (rpc_BindAddr c) (rpc_BindPort c)"

definition admin_JoinAdvAddr :: "admin_config \<Rightarrow> string" where
  "admin_JoinAdvAddr c = host_port (admin_AdvAddr c) (admin_AdvPort c)"

definition admin_JoinBindAddr :: "admin_config \<Rightarrow> string" where
  "admin_JoinBindAddr c = host_port (admin_BindAddr c) (admin_BindPort c)"

subsection \<open>The start command\<close>

record start_flags =
  gossipBindAddr :: string
  gossipBindPort :: int
  gossipAdvAddr :: string
  gossipAdvPort :: int
  gossipSeeds :: string
  rpcBindAddr :: string
  rpcBindPort :: int
  rpcAdvAddr :: string
  rpcAdvPort :: int
  adminBindAddr :: string
  adminBindPort :: int
  adminAdvAddr :: string
  adminAdvPort :: int
  logLevel :: string

definition start_flag_defaults :: start_flags where
  "start_flag_defaults = \<lparr>gossipBindAddr = ''0.0.0.0'', gossipBindPort = 8111, gossipAdvAddr = '''',
     gossipAdvPort = 0, gossipSeeds = '''', rpcBindAddr = ''0.0.0.0'', rpcBindPort = 8110,
     rpcAdvAddr = '''', rpcAdvPort = 0, adminBindAddr = ''0.0.0.0'', adminBindPort = 8112,
     adminAdvAddr = '''', adminAdvPort = 0, logLevel = ''info''\<rparr>"

fun split_on :: "char \<Rightarrow> string \<Rightarrow> string list" where
  "split_on c [] = [[]]"
| "split_on c (x # xs) = (if x = c then [] # split_on c xs
     else (case split_on c xs of [] \<Rightarrow> [[x]] | s # ss \<Rightarrow> (x # s) # ss))"

definition start_config :: "string \<Rightarrow> start_flags \<Rightarrow> config" where
  "start_config uuid f =
     (let conf = DefaultConfig uuid;
          g = (Gossip conf)\<lparr>gossip_BindAddr := gossipBindAddr f, gossip_BindPort := gossipBindPort f,
            gossip_AdvAddr := if gossipAdvAddr f \<noteq> '''' then gossipAdvAddr f else gossipBindAddr f,
            gossip_AdvPort := if gossipAdvPort f \<noteq> 0 then gossipAdvPort f else gossipBindPort f\<rparr>;
          g' = (if gossipSeeds f \<noteq> '''' then g\<lparr>gossip_Seeds := split_on CHR '','' (gossipSeeds f)\<rparr> else g);
          r = (RPC conf)\<lparr>rpc_BindAddr := rpcBindAddr f, rpc_BindPort := rpcBindPort f,
            rpc_AdvAddr := if rpcAdvAddr f \<noteq> '''' then rpcAdvAddr f else rpcBindAddr f,
            rpc_AdvPort := if rpcAdvPort f \<noteq> 0 then rpcAdvPort f else rpcBindPort f\<rparr>;
          a = (Admin conf)\<lparr>admin_BindAddr := adminBindAddr f, admin_BindPort := adminBindPort f,
            admin_AdvAddr := if adminAdvAddr f \<noteq> '''' then adminAdvAddr f else adminBindAddr f,
            admin_AdvPort := if adminAdvPort f \<noteq> 0 then adminAdvPort f else adminBindPort f\<rparr>
      in conf\<lparr>Gossip := g', RPC := r, Admin := a\<rparr>)"

subsection \<open>Printed addresses parse back\<close>

lemma digit_char_value [simp]: "d < 10 \<Longrightarrow> of_char (digit_char d) = (48 + d :: nat)"
  by (simp add: digit_char_def)

lemma digits_value_snoc: "digits_value (s @ [c]) = 10 * digits_value s + (of_char c - 48)"
  by (simp add: digits_value_def)

lemma nat_to_string_digits:
  "list_all is_digit (nat_to_string n) \<and> nat_to_string n \<noteq> [] \<and> digits_value (nat_to_string n) = n"
proof (induction n rule: nat_to_string.induct)
  case (1 n)
  show ?case
  proof (cases "n < 10")
    case True
    then show ?thesis by (simp add: nat_to_string.simps is_digit_def digits_value_def)
  next
    case False
    then show ?thesis
      using 1 by (simp add: nat_to_string.simps [of n] is_digit_def digits_value_snoc)
  qed
qed

lemma is_digit_not_punct [simp]: "is_digit c \<Longrightarrow> c \<noteq> CHR ''-'' \<and> c \<noteq> CHR ''+'' \<and> c \<noteq> CHR '':'' \<and>
    c \<noteq> CHR ''['' \<and> c \<noteq> CHR '']''"
  by (auto simp: is_digit_def)

lemma Atoi_print:
  assumes "in_int64 i"
  shows "Atoi (int_to_string i) = Some i"
proof -
  have d: "list_all is_digit (nat_to_string n)" "nat_to_string n \<noteq> []"
    "digits_value (nat_to_string n) = n" for n
    using nat_to_string_digits [of n] by auto
  show ?thesis
  proof (cases "i < 0")
    case True
    then show ?thesis using d [of "nat (- i)"] assms by (simp add: Atoi_def int_to_string_def)
  next
    case False
    obtain c s where s: "nat_to_string (nat i) = c # s" using d(2) by (cases "nat_to_string (nat i)") auto
    then have "is_digit c" using d(1) [of "nat i"] by simp
    then show ?thesis using d [of "nat i"] assms False
      by (simp add: Atoi_def int_to_string_def s)
  qed
qed

lemma index_of_append: "c \<notin> set xs \<Longrightarrow> index_of c (xs @ c # ys) = Some (length xs)"
  by (induction xs) auto

lemma last_index_of_append: "c \<notin> set ys \<Longrightarrow> last_index_of c (xs @ c # ys) = Some (length xs)"
  using index_of_append [of c "rev ys" "rev xs"] by (simp add: last_index_of_def)

lemma SplitHostPort_host_port:
  assumes "set host \<inter> {CHR '':'', CHR ''['', CHR '']''} = {}" and "in_int64 port"
  shows "SplitHostPort (host_port host port) = Some (host, int_to_string port) \<and>
    parseAddrPort (host_port host port) = Some port"
proof -
  have ps: "\<forall>c \<in> set (int_to_string port). c \<noteq> CHR '':'' \<and> c \<noteq> CHR ''['' \<and> c \<noteq> CHR '']''"
    using nat_to_string_digits by (auto simp: int_to_string_def list_all_iff)
  let ?hp = "host_port host port"
  have hp: "?hp = host @ CHR '':'' # int_to_string port" by (simp add: host_port_def)
  have last: "last_index_of CHR '':'' ?hp = Some (length host)"
    unfolding hp using ps by (intro last_index_of_append) auto
  have "hd ?hp \<noteq> CHR ''[''" unfolding hp using assms(1) by (cases host) auto
  moreover have "take (length host) ?hp = host" "drop (length host + 1) ?hp = int_to_string port"
    by (simp_all add: hp)
  moreover have "CHR ''['' \<notin> set ?hp" "CHR '']'' \<notin> set ?hp" "CHR '':'' \<notin> set host"
    using assms(1) ps by (auto simp: hp)
  ultimately have "SplitHostPort ?hp = Some (host, int_to_string port)"
    by (simp add: SplitHostPort_def last)
  then show ?thesis using Atoi_print [OF assms(2)] by (simp add: parseAddrPort_def)
qed

text \<open>
  The addresses a node advertises are readable: the port parsed from host_port of any host
  without a colon or a bracket and any 64-bit port is that port.
\<close>
theorem host_port_roundtrip:
  assumes "set host \<inter> {CHR '':'', CHR ''['', CHR '']''} = {}" and "in_int64 port"
  shows "SplitHostPort (host_port host port) = Some (host, int_to_string port) \<and>
    parseAddrPort (host_port host port) = Some port"
  using assms by (rule SplitHostPort_host_port)

lemma Atoi_int64: "Atoi s = Some i \<Longrightarrow> in_int64 i"
  unfolding Atoi_def Let_def by (cases s) (auto split: if_splits)

lemma parseAddrPort_int64: "parseAddrPort a = Some p \<Longrightarrow> in_int64 p"
  by (auto simp: parseAddrPort_def dest: Atoi_int64 split: option.splits)

theorem host_port_roundtrip_witness:
  "parseAddrPort (rpc_JoinAdvAddr (DefaultRPCConfig\<lparr>rpc_AdvAddr := ''127.0.0.1''\<rparr>)) = Some 8110"
  using host_port_roundtrip [of "''127.0.0.1''" 8110]
  by (simp add: rpc_JoinAdvAddr_def DefaultRPCConfig_def in_int64_def)

text \<open>
  The start command. With no flags a node advertises what it binds; an advertised address or
  port given explicitly is used, and otherwise the bind address or port is, for all three
  endpoints; the timeouts are the default ones; and the seeds are the comma-separated parts of
  the join flag.
\<close>
theorem start_config_advertises:
  "(let c = start_config uuid f in
     (gossip_AdvAddr (Gossip c), gossip_AdvPort (Gossip c)) =
       (if gossipAdvAddr f = '''' then gossipBindAddr f else gossipAdvAddr f,
        if gossipAdvPort f = 0 then gossipBindPort f else gossipAdvPort f) \<and>
     (rpc_AdvAddr (RPC c), rpc_AdvPort (RPC c)) =
       (if rpcAdvAddr f = '''' then rpcBindAddr f else rpcAdvAddr f,
        if rpcAdvPort f = 0 then rpcBindPort f else rpcAdvPort f) \<and>
     (admin_AdvAddr (Admin c), admin_AdvPort (Admin c)) =
       (if adminAdvAddr f = '''' then adminBindAddr f else adminAdvAddr f,
        if adminAdvPort f = 0 then adminBindPort f else adminAdvPort f) \<and>
     RegistryConf c = DefaultRegistryConfig) \<and>
   gossip_Seeds (Gossip (start_config uuid (start_flag_defaults\<lparr>gossipSeeds := ''a:1,b:2''\<rparr>))) =
     [''a:1'', ''b:2''] \<and>
   gossip_Seeds (Gossip (start_config uuid start_flag_defaults)) = []"
  by (simp add: start_config_def start_flag_defaults_def DefaultConfig_def DefaultGossipConfig_def
      DefaultRPCConfig_def DefaultAdminConfig_def Let_def)

end
