(* ===== verification/Proxy.thy ===== *)
theory Proxy
  imports Prelude "HOL-Library.Sublist"
begin

text \<open>
  pkg/fcm/cluster/proxy.go: the TCP proxy the cluster manager puts in front of a node to drop or
  block its connections. A connection is two sockets and two forwarding goroutines; a goroutine
  is a small state machine (reading, holding a chunk that is not checked yet, writing a chunk,
  returned), so that a call from another goroutine can come between any two of its steps.
\<close>

type_synonym byte = "8 word"

datatype side = Upstream | Downstream

fun other :: "side \<Rightarrow> side" where
  "other Upstream = Downstream"
| "other Downstream = Upstream"

lemma other_other [simp]: "other (other s) = s" by (cases s) auto

lemma other_neq [simp]: "other s \<noteq> s" "s \<noteq> other s" by (cases s; simp)+

lemma other_eq_iff [simp]: "other a = other b \<longleftrightarrow> a = b" by (cases a; cases b) auto

subsection \<open>One connection\<close>

datatype forwarder = Reading | GotChunk "byte list" | Writing "byte list" | Stopped

text \<open>
  \<open>fwd c d\<close> is the goroutine that writes to the socket on side \<open>d\<close> and reads from the other one;
  \<open>inbound c s\<close> are the bytes that arrived on socket \<open>s\<close> and are not read; \<open>outbound c d\<close> all
  bytes written to socket \<open>d\<close>.
\<close>

record proxy_conn =
  closed :: "side \<Rightarrow> bool"
  blocked :: bool
  fwd :: "side \<Rightarrow> forwarder"
  inbound :: "side \<Rightarrow> byte list"
  outbound :: "side \<Rightarrow> byte list"

definition newProxyConn :: proxy_conn where
  "newProxyConn = \<lparr>closed = (\<lambda>_. False), blocked = False, fwd = (\<lambda>_. Reading),
     inbound = (\<lambda>_. []), outbound = (\<lambda>_. [])\<rparr>"

definition SetBlock :: "bool \<Rightarrow> proxy_conn \<Rightarrow> proxy_conn" where
  "SetBlock b c = c\<lparr>blocked := b\<rparr>"

definition conn_Close :: "proxy_conn \<Rightarrow> proxy_conn" where
  "conn_Close c = c\<lparr>closed := (\<lambda>_. True)\<rparr>"

text \<open>
  One step of the loop of forward: a read of up to 1024 bytes or an error, the check of the block
  flag, a write or an error after part of the chunk. A socket the proxy has closed neither reads
  nor writes.
\<close>

datatype fwd_event = ReadOk nat | ReadErr | CheckBlock | WriteOk | WriteErr nat

fun forward :: "side \<Rightarrow> fwd_event \<Rightarrow> proxy_conn \<Rightarrow> proxy_conn option" where
  "forward d (ReadOk n) c =
     (if fwd c d = Reading \<and> \<not> closed c (other d) \<and> 0 < n \<and> n \<le> 1024 \<and> n \<le> length (inbound c (other d))
      then Some (c\<lparr>fwd := (fwd c)(d := GotChunk (take n (inbound c (other d)))),
                   inbound := (inbound c)(other d := drop n (inbound c (other d)))\<rparr>)
      else None)"
| "forward d ReadErr c = (if fwd c d = Reading then Some (c\<lparr>fwd := (fwd c)(d := Stopped)\<rparr>) else None)"
| "forward d CheckBlock c =
     (case fwd c d of
        GotChunk bs \<Rightarrow> Some (c\<lparr>fwd := (fwd c)(d := if blocked c then Reading else Writing bs)\<rparr>)
      | _ \<Rightarrow> None)"
| "forward d WriteOk c =
     (case fwd c d of
        Writing bs \<Rightarrow>
          if closed c d then None
          else Some (c\<lparr>fwd := (fwd c)(d := Reading), outbound := (outbound c)(d := outbound c d @ bs)\<rparr>)
      | _ \<Rightarrow> None)"
| "forward d (WriteErr k) c =
     (case fwd c d of
        Writing bs \<Rightarrow> Some (c\<lparr>fwd := (fwd c)(d := Stopped),
          outbound := (outbound c)(d := outbound c d @ (if closed c d then [] else take k bs))\<rparr>)
      | _ \<Rightarrow> None)"

datatype conn_event = Arrive side "byte list" | Forward side fwd_event | Block bool | CloseConn

fun conn_step :: "conn_event \<Rightarrow> proxy_conn \<Rightarrow> proxy_conn option" where
  "conn_step (Arrive s bs) c =
     (if closed c s then None else Some (c\<lparr>inbound := (inbound c)(s := inbound c s @ bs)\<rparr>))"
| "conn_step (Forward d e) c = forward d e c"
| "conn_step (Block b) c = Some (SetBlock b c)"
| "conn_step CloseConn c = Some (conn_Close c)"

subsection \<open>The proxy\<close>

text \<open>
  \<open>conn_at\<close> holds every connection ever made, by address; \<open>conns\<close> are the ones the proxy still
  lists. \<open>accepting\<close> says that acceptLoop has not returned.
\<close>

record proxy =
  conn_at :: "nat \<Rightarrow> proxy_conn"
  conns :: "nat list"
  next_conn :: nat
  accepting :: bool
  listening :: bool
  target :: string

definition NewProxy :: "string \<Rightarrow> proxy" where
  "NewProxy t = \<lparr>conn_at = (\<lambda>_. newProxyConn), conns = [], next_conn = 0, accepting = True,
     listening = True, target = t\<rparr>"

definition update_conns :: "(proxy_conn \<Rightarrow> proxy_conn) \<Rightarrow> proxy \<Rightarrow> proxy" where
  "update_conns f p = p\<lparr>conn_at := fold (\<lambda>i m. m(i := f (m i))) (conns p) (conn_at p)\<rparr>"

definition Drop :: "proxy \<Rightarrow> proxy" where
  "Drop p = (update_conns conn_Close p)\<lparr>conns := []\<rparr>"

definition BlockActiveConns :: "proxy \<Rightarrow> proxy" where
  "BlockActiveConns p = update_conns (SetBlock True) p"

definition proxy_Close :: "proxy \<Rightarrow> proxy" where
  "proxy_Close p = (update_conns conn_Close p)\<lparr>listening := False\<rparr>"

text \<open>
  One turn of acceptLoop, for a client that connects: \<open>dial_ok\<close> says that the target accepts.
\<close>

definition accept_turn :: "bool \<Rightarrow> proxy \<Rightarrow> proxy" where
  "accept_turn dial_ok p =
     (if \<not> accepting p then p
      else if \<not> listening p then p\<lparr>accepting := False\<rparr>
      else if \<not> dial_ok then p\<lparr>accepting := False\<rparr>
      else p\<lparr>conn_at := (conn_at p)(next_conn p := newProxyConn), conns := conns p @ [next_conn p],
             next_conn := Suc (next_conn p)\<rparr>)"

datatype proxy_event = Accept bool | DropAll | BlockAll | CloseAll | OnConn nat conn_event

fun proxy_step :: "proxy_event \<Rightarrow> proxy \<Rightarrow> proxy option" where
  "proxy_step (Accept ok) p = Some (accept_turn ok p)"
| "proxy_step DropAll p = Some (Drop p)"
| "proxy_step BlockAll p = Some (BlockActiveConns p)"
| "proxy_step CloseAll p = Some (proxy_Close p)"
| "proxy_step (OnConn i e) p =
     (case e of
        Block _ \<Rightarrow> None
      | CloseConn \<Rightarrow> None
      | _ \<Rightarrow> if next_conn p \<le> i then None
            else map_option (\<lambda>c. p\<lparr>conn_at := (conn_at p)(i := c)\<rparr>) (conn_step e (conn_at p i)))"


subsection \<open>What a connection delivers\<close>

fun in_hand :: "forwarder \<Rightarrow> byte list" where
  "in_hand (GotChunk bs) = bs"
| "in_hand (Writing bs) = bs"
| "in_hand Reading = []"
| "in_hand Stopped = []"

text \<open>A chunk that has passed the check of the block flag, and the bytes on their way.\<close>

fun past_check :: "forwarder \<Rightarrow> byte list" where
  "past_check (Writing bs) = bs"
| "past_check _ = []"

definition flow :: "proxy_conn \<Rightarrow> side \<Rightarrow> byte list" where
  "flow c d = outbound c d @ in_hand (fwd c d) @ inbound c (other d)"

fun arrival :: "conn_event \<Rightarrow> side \<Rightarrow> byte list" where
  "arrival (Arrive s' bs) s = (if s' = s then bs else [])"
| "arrival _ s = []"

definition arrived :: "conn_event list \<Rightarrow> side \<Rightarrow> byte list" where
  "arrived evs s = concat (map (\<lambda>e. arrival e s) evs)"

lemma arrived_simps [simp]: "arrived [] s = []" "arrived (e # evs) s = arrival e s @ arrived evs s"
  by (simp_all add: arrived_def)

lemmas conn_op_defs = SetBlock_def conn_Close_def

lemma subseq_context: "subseq xs ys \<Longrightarrow> subseq (a @ xs @ b) (a @ ys @ b)"
  by (intro list_emb_append_mono) auto

lemmas subseq_shrink = subseq_context [where xs = "[]", simplified]
  subseq_context [OF prefix_imp_subseq [OF take_is_prefix]]

lemma conn_step_flow: "conn_step e c = Some c' \<Longrightarrow> subseq (flow c' d) (flow c d @ arrival e (other d))"
proof (cases e)
  case (Forward d' f)
  assume "conn_step e c = Some c'"
  then show ?thesis
    by (cases f; cases "d = d'")
      (auto simp: Forward flow_def split: if_splits forwarder.splits
        intro: subseq_shrink)
qed (auto simp: flow_def conn_op_defs split: if_splits)

lemma conn_run_flow:
  "foldM conn_step evs c = Some c' \<Longrightarrow> subseq (flow c' d) (flow c d @ arrived evs (other d))"
proof (induction evs arbitrary: c)
  case Nil
  then show ?case by simp
next
  case (Cons e evs)
  then obtain c1 where c1: "conn_step e c = Some c1" "foldM conn_step evs c1 = Some c'"
    by (auto split: option.splits)
  have "subseq (flow c' d) (flow c1 d @ arrived evs (other d))" by (rule Cons.IH) (rule c1(2))
  also have "subseq (flow c1 d @ arrived evs (other d))
      ((flow c d @ arrival e (other d)) @ arrived evs (other d))"
    by (rule list_emb_append_mono) (simp_all add: conn_step_flow [OF c1(1)])
  finally show ?case by simp
qed

text \<open>
  \<open>carried c d a\<close>: the connection has lost nothing of the bytes \<open>a\<close> that arrived for side \<open>d\<close>, and
  when its goroutine has returned it delivered a prefix of them.
\<close>

definition carried :: "proxy_conn \<Rightarrow> side \<Rightarrow> byte list \<Rightarrow> bool" where
  "carried c d a \<longleftrightarrow> (if fwd c d = Stopped then prefix (outbound c d) a else a = flow c d)"

lemma conn_step_carried:
  assumes "conn_step e c = Some c'" "\<not> blocked c" "e \<noteq> Block True" "carried c d a"
  shows "carried c' d (a @ arrival e (other d)) \<and> \<not> blocked c'"
proof (cases e)
  case (Forward d' f)
  then show ?thesis
    using assms
    by (cases f; cases "d = d'")
      (auto simp: carried_def flow_def take_is_prefix split: if_splits forwarder.splits)
qed (use assms in \<open>auto simp: carried_def flow_def conn_op_defs split: if_splits\<close>)

lemma conn_run_carried:
  "foldM conn_step evs c = Some c' \<Longrightarrow> \<not> blocked c \<Longrightarrow> Block True \<notin> set evs \<Longrightarrow> carried c d a \<Longrightarrow>
     carried c' d (a @ arrived evs (other d))"
proof (induction evs arbitrary: c a)
  case Nil
  then show ?case by simp
next
  case (Cons e evs)
  then obtain c1 where c1: "conn_step e c = Some c1" "foldM conn_step evs c1 = Some c'"
    by (auto split: option.splits)
  have e: "e \<noteq> Block True" using Cons.prems(3) by auto
  note s = conn_step_carried [OF c1(1) Cons.prems(2) e Cons.prems(4)]
  have "carried c' d ((a @ arrival e (other d)) @ arrived evs (other d))"
    by (rule Cons.IH [OF c1(2)]) (use s Cons.prems(3) in auto)
  then show ?case by simp
qed

text \<open>
  C26: the proxy is transparent. Whatever calls interrupt a connection, the bytes it has written to
  one socket are a subsequence of the bytes that arrived on the other, in order; and as long as it
  is not blocked they are a prefix of them, the rest being in the goroutine's hands or unread while
  the goroutine runs.
\<close>
theorem proxy_in_order:
  assumes "foldM conn_step evs newProxyConn = Some c"
  shows "subseq (outbound c d) (arrived evs (other d)) \<and>
    (Block True \<notin> set evs \<longrightarrow>
       prefix (outbound c d) (arrived evs (other d)) \<and>
       (fwd c d \<noteq> Stopped \<longrightarrow> arrived evs (other d) = outbound c d @ in_hand (fwd c d) @ inbound c (other d)))"
proof -
  have "subseq (flow c d) (arrived evs (other d))"
    using conn_run_flow [OF assms, of d] by (simp add: newProxyConn_def flow_def)
  then have "subseq (outbound c d) (arrived evs (other d))"
    by (rule subseq_order.trans [rotated]) (simp add: flow_def prefix_imp_subseq)
  moreover have "carried c d (arrived evs (other d))" if "Block True \<notin> set evs"
    using conn_run_carried [OF assms _ that, of d "[]"] by (simp add: newProxyConn_def carried_def flow_def)
  ultimately show ?thesis by (auto simp: carried_def flow_def split: if_splits)
qed

theorem proxy_in_order_witness:
  "let evs = [Arrive Upstream [1, 2, 3], Forward Downstream (ReadOk 2), Forward Downstream CheckBlock,
       Forward Downstream WriteOk]
   in map_option (\<lambda>c. outbound c Downstream) (foldM conn_step evs newProxyConn) = Some [1, 2] \<and>
     prefix [1, 2] (arrived evs Upstream)"
proof -
  let ?evs = "[Arrive Upstream [1, 2, 3], Forward Downstream (ReadOk 2), Forward Downstream CheckBlock,
       Forward Downstream WriteOk]"
  obtain c where c: "foldM conn_step ?evs newProxyConn = Some c" "outbound c Downstream = [1, 2]"
    by (simp add: newProxyConn_def)
  show ?thesis using proxy_in_order [OF c(1), of Downstream] c by (simp add: Let_def)
qed


subsection \<open>Blocked and dropped connections\<close>

text \<open>What is written or can still be written of a side while the connection is blocked.\<close>

definition committed :: "proxy_conn \<Rightarrow> side \<Rightarrow> byte list" where
  "committed c d = outbound c d @ past_check (fwd c d)"

definition chunk_ok :: "proxy_conn \<Rightarrow> bool" where
  "chunk_ok c \<longleftrightarrow> (\<forall>d. length (in_hand (fwd c d)) \<le> 1024)"

lemma conn_step_chunk: "conn_step e c = Some c' \<Longrightarrow> chunk_ok c \<Longrightarrow> chunk_ok c'"
proof (cases e)
  case (Forward d' f)
  assume a: "conn_step e c = Some c'" and ok: "chunk_ok c"
  have "length (in_hand (fwd c' d)) \<le> 1024" for d
  proof -
    have "length (in_hand (fwd c d)) \<le> 1024" using ok by (simp add: chunk_ok_def)
    then show ?thesis
      using a by (cases f; cases "d = d'") (auto simp: Forward split: if_splits forwarder.splits)
  qed
  then show ?thesis by (simp add: chunk_ok_def)
qed (auto simp: chunk_ok_def conn_op_defs split: if_splits)

lemma conn_step_blocked:
  assumes "conn_step e c = Some c'" "blocked c" "e \<noteq> Block False"
  shows "blocked c' \<and> prefix (committed c' d) (committed c d) \<and> prefix (outbound c d) (outbound c' d)"
proof (cases e)
  case (Forward d' f)
  then show ?thesis
    using assms
    by (cases f; cases "d = d'")
      (auto simp: committed_def take_is_prefix split: if_splits forwarder.splits)
qed (use assms in \<open>auto simp: committed_def conn_op_defs split: if_splits\<close>)

lemma conn_step_closed:
  assumes "conn_step e c = Some c'" "closed c = (\<lambda>_. True)"
  shows "closed c' = (\<lambda>_. True) \<and> outbound c' d = outbound c d"
proof (cases e)
  case (Forward d' f)
  then show ?thesis
    using assms by (cases f; cases "d = d'") (auto split: if_splits forwarder.splits)
qed (use assms in \<open>auto simp: conn_op_defs split: if_splits\<close>)

lemma conn_run_blocked:
  "foldM conn_step evs c = Some c' \<Longrightarrow> blocked c \<Longrightarrow> Block False \<notin> set evs \<Longrightarrow>
     blocked c' \<and> prefix (committed c' d) (committed c d) \<and> prefix (outbound c d) (outbound c' d)"
proof (induction evs arbitrary: c)
  case Nil
  then show ?case by simp
next
  case (Cons e evs)
  then obtain c1 where c1: "conn_step e c = Some c1" "foldM conn_step evs c1 = Some c'"
    by (auto split: option.splits)
  have e: "e \<noteq> Block False" using Cons.prems(3) by auto
  note s = conn_step_blocked [OF c1(1) Cons.prems(2) e, of d]
  have "blocked c' \<and> prefix (committed c' d) (committed c1 d) \<and> prefix (outbound c1 d) (outbound c' d)"
    by (rule Cons.IH [OF c1(2)]) (use s Cons.prems(3) in auto)
  with s show ?case by (blast intro: prefix_order.trans)
qed

lemma conn_run_closed:
  assumes "foldM conn_step evs c = Some c'" and "closed c = (\<lambda>_. True)"
  shows "outbound c' d = outbound c d"
proof -
  have "closed c' = (\<lambda>_. True) \<and> outbound c' d = outbound c d"
    by (rule foldM_invariant [OF _ assms(1), where P = "\<lambda>x. closed x = (\<lambda>_. True) \<and> outbound x d = outbound c d"])
      (use assms(2) conn_step_closed in auto)
  then show ?thesis ..
qed

text \<open>Every step of the proxy acts on a connection as events of that connection.\<close>

definition proxy_inv :: "proxy \<Rightarrow> bool" where
  "proxy_inv p \<longleftrightarrow> distinct (conns p) \<and> (\<forall>i \<in> set (conns p). i < next_conn p) \<and> (\<forall>i. chunk_ok (conn_at p i))"

lemma fold_upd_at:
  "distinct ks \<Longrightarrow> fold (\<lambda>i m. m(i := f (m i))) ks m j = (if j \<in> set ks then f (m j) else m j)"
  by (induction ks arbitrary: m) auto

lemma conn_at_update_conns [simp]:
  "distinct (conns p) \<Longrightarrow>
     conn_at (update_conns f p) i = (if i \<in> set (conns p) then f (conn_at p i) else conn_at p i)"
  by (simp add: update_conns_def fold_upd_at)

lemma update_conns_frame [simp]:
  "conns (update_conns f p) = conns p" "next_conn (update_conns f p) = next_conn p"
  "accepting (update_conns f p) = accepting p" "listening (update_conns f p) = listening p"
  by (simp_all add: update_conns_def)

lemmas proxy_op_defs = Drop_def BlockActiveConns_def proxy_Close_def accept_turn_def

lemma chunk_ok_ops [simp]:
  "chunk_ok newProxyConn" "chunk_ok (SetBlock b c) = chunk_ok c" "chunk_ok (conn_Close c) = chunk_ok c"
  by (simp_all add: chunk_ok_def newProxyConn_def conn_op_defs)

lemma proxy_inv_new: "proxy_inv (NewProxy t)"
  by (simp add: proxy_inv_def NewProxy_def)

lemma proxy_step_OnConn:
  assumes "proxy_step (OnConn i ce) p = Some p'"
  obtains c where "conn_step ce (conn_at p i) = Some c" "p' = p\<lparr>conn_at := (conn_at p)(i := c)\<rparr>"
    "ce \<noteq> Block False"
  using assms by (cases ce) (auto split: if_splits)

lemma proxy_step_inv:
  assumes "proxy_step e p = Some p'" and "proxy_inv p"
  shows "proxy_inv p'"
proof (cases e)
  case (OnConn i ce)
  obtain c where c: "conn_step ce (conn_at p i) = Some c" "p' = p\<lparr>conn_at := (conn_at p)(i := c)\<rparr>"
    using assms(1) unfolding OnConn by (rule proxy_step_OnConn)
  then show ?thesis
    using assms(2) conn_step_chunk [OF c(1)] by (auto simp: proxy_inv_def)
qed (use assms in \<open>auto simp: proxy_inv_def proxy_op_defs less_Suc_eq\<close>)

lemma proxy_step_conn:
  assumes "proxy_step e p = Some p'" and "proxy_inv p" and "i < next_conn p"
  shows "\<exists>evs. foldM conn_step evs (conn_at p i) = Some (conn_at p' i) \<and> Block False \<notin> set evs \<and> i < next_conn p'"
proof -
  have nil: "\<exists>evs. foldM conn_step evs c = Some c \<and> Block False \<notin> set evs" for c
    by (rule exI [of _ "[]"]) simp
  have one: "\<exists>evs. foldM conn_step evs c = Some c' \<and> Block False \<notin> set evs"
    if "conn_step x c = Some c'" "x \<noteq> Block False" for x c c'
    using that by (intro exI [of _ "[x]"]) simp
  have block: "\<exists>evs. foldM conn_step evs c = Some (SetBlock True c) \<and> Block False \<notin> set evs" for c
    by (rule one [of "Block True"]) auto
  have close: "\<exists>evs. foldM conn_step evs c = Some (conn_Close c) \<and> Block False \<notin> set evs" for c
    by (rule one [of CloseConn]) auto
  have d: "distinct (conns p)" using assms(2) by (simp add: proxy_inv_def)
  show ?thesis
  proof (cases e)
    case (OnConn j ce)
    obtain c where c: "conn_step ce (conn_at p j) = Some c" "p' = p\<lparr>conn_at := (conn_at p)(j := c)\<rparr>"
      "ce \<noteq> Block False"
      using assms(1) unfolding OnConn by (rule proxy_step_OnConn)
    then show ?thesis using assms(3) nil one [OF c(1,3)] by (cases "i = j") auto
  qed (use assms d nil block close in \<open>auto simp: proxy_op_defs\<close>)
qed

lemma proxy_run_conn:
  "foldM proxy_step pes p = Some p' \<Longrightarrow> proxy_inv p \<Longrightarrow> i < next_conn p \<Longrightarrow>
     \<exists>evs. foldM conn_step evs (conn_at p i) = Some (conn_at p' i) \<and> Block False \<notin> set evs"
proof (induction pes arbitrary: p)
  case Nil
  then show ?case by (intro exI [of _ "[]"]) simp
next
  case (Cons e pes)
  then obtain p1 where p1: "proxy_step e p = Some p1" "foldM proxy_step pes p1 = Some p'"
    by (auto split: option.splits)
  obtain ev1 where e1: "foldM conn_step ev1 (conn_at p i) = Some (conn_at p1 i)"
    "Block False \<notin> set ev1" "i < next_conn p1"
    using proxy_step_conn [OF p1(1) Cons.prems(2,3)] by blast
  obtain ev2 where e2: "foldM conn_step ev2 (conn_at p1 i) = Some (conn_at p' i)" "Block False \<notin> set ev2"
    using Cons.IH [OF p1(2) proxy_step_inv [OF p1(1) Cons.prems(2)] e1(3)] by blast
  show ?case
    by (intro exI [of _ "ev1 @ ev2"]) (use e1 e2 in \<open>simp add: foldM_append\<close>)
qed

lemma proxy_run_inv: "foldM proxy_step pes p = Some p' \<Longrightarrow> proxy_inv p \<Longrightarrow> proxy_inv p'"
  by (rule foldM_invariant [where P = proxy_inv and f = proxy_step]) (auto intro: proxy_step_inv)


text \<open>
  The fault injection does what its callers rely on. From the moment Drop is called nothing
  more is written on any connection that existed, and new clients are still accepted. From the
  moment BlockActiveConns is called a connection that existed writes at most the rest of the one
  chunk, of at most 1024 bytes, that had already passed the check, in each direction, whatever
  arrives later. Both hold whatever else happens to the proxy afterwards.
\<close>
theorem proxy_faults:
  assumes "foldM proxy_step pes (NewProxy t) = Some p" and "i \<in> set (conns p)"
  shows "(foldM proxy_step later (Drop p) = Some p' \<longrightarrow>
      outbound (conn_at p' i) d = outbound (conn_at p i) d) \<and>
    (foldM proxy_step later (BlockActiveConns p) = Some p' \<longrightarrow>
      (\<exists>bs. outbound (conn_at p' i) d = outbound (conn_at p i) d @ bs \<and>
        prefix bs (past_check (fwd (conn_at p i) d)) \<and> length bs \<le> 1024)) \<and>
    (accepting p \<and> listening p \<longrightarrow> conns (accept_turn True (Drop p)) = [next_conn p])"
proof -
  have inv: "proxy_inv p" by (rule proxy_run_inv [OF assms(1) proxy_inv_new])
  have i: "i < next_conn p" and d: "distinct (conns p)"
    using inv assms(2) by (auto simp: proxy_inv_def)
  have drop: "outbound (conn_at p' i) d = outbound (conn_at p i) d"
    if r: "foldM proxy_step later (Drop p) = Some p'"
  proof -
    have "proxy_inv (Drop p)" using inv by (auto simp: proxy_inv_def Drop_def)
    then obtain evs where "foldM conn_step evs (conn_at (Drop p) i) = Some (conn_at p' i)"
      using proxy_run_conn [OF r, of i] i by (auto simp: Drop_def)
    then have "outbound (conn_at p' i) d = outbound (conn_at (Drop p) i) d"
      by (rule conn_run_closed) (use assms(2) d in \<open>simp add: Drop_def conn_Close_def\<close>)
    then show ?thesis using assms(2) d by (simp add: Drop_def conn_Close_def)
  qed
  have block: "\<exists>bs. outbound (conn_at p' i) d = outbound (conn_at p i) d @ bs \<and>
        prefix bs (past_check (fwd (conn_at p i) d)) \<and> length bs \<le> 1024"
    if r: "foldM proxy_step later (BlockActiveConns p) = Some p'"
  proof -
    let ?c = "SetBlock True (conn_at p i)"
    have at: "conn_at (BlockActiveConns p) i = ?c" using assms(2) d by (simp add: BlockActiveConns_def)
    have "proxy_inv (BlockActiveConns p)" using inv by (auto simp: proxy_inv_def BlockActiveConns_def)
    then obtain evs where e: "foldM conn_step evs ?c = Some (conn_at p' i)" "Block False \<notin> set evs"
      using proxy_run_conn [OF r, of i] i at by (auto simp: BlockActiveConns_def)
    have "prefix (committed (conn_at p' i) d) (committed ?c d)"
      and pre: "prefix (outbound ?c d) (outbound (conn_at p' i) d)"
      using conn_run_blocked [OF e(1) _ e(2), of d] by (auto simp: SetBlock_def)
    then have all: "prefix (outbound (conn_at p' i) d)
        (outbound (conn_at p i) d @ past_check (fwd (conn_at p i) d))"
      by (auto simp: committed_def SetBlock_def dest: append_prefixD)
    obtain bs where bs: "outbound (conn_at p' i) d = outbound (conn_at p i) d @ bs"
      using pre by (auto simp: SetBlock_def elim: prefixE)
    then have p1: "prefix bs (past_check (fwd (conn_at p i) d))" using all by simp
    have "length (past_check (fwd (conn_at p i) d)) \<le> length (in_hand (fwd (conn_at p i) d))"
      by (cases "fwd (conn_at p i) d") auto
    moreover have "length (in_hand (fwd (conn_at p i) d)) \<le> 1024"
      using inv by (simp add: proxy_inv_def chunk_ok_def)
    ultimately have "length bs \<le> 1024" using prefix_length_le [OF p1] by simp
    then show ?thesis using bs p1 by blast
  qed
  show ?thesis using drop block by (auto simp: Drop_def accept_turn_def)
qed

theorem proxy_faults_witness:
  "\<exists>p. foldM proxy_step [Accept True, OnConn 0 (Arrive Upstream [7])] (NewProxy ''t'') = Some p \<and>
     conns (accept_turn True (Drop p)) = [1]"
proof -
  obtain p where p: "foldM proxy_step [Accept True, OnConn 0 (Arrive Upstream [7])] (NewProxy ''t'') = Some p"
    "conns p = [0]" "accepting p" "listening p" "next_conn p = 1"
    by (simp add: NewProxy_def accept_turn_def newProxyConn_def)
  show ?thesis
    using proxy_faults [OF p(1), of 0] p by auto
qed

text \<open>
  One failed dial ends the proxy. When the target refuses a connection acceptLoop returns, so
  no later client is ever connected, whatever happens next: the listener stays open and clients
  wait on it.
\<close>
theorem proxy_dial_failure_final:
  assumes "listening p" and "foldM proxy_step evs (accept_turn False p) = Some p'"
  shows "\<not> accepting p' \<and> next_conn p' = next_conn p \<and> set (conns p') \<subseteq> set (conns p) \<and>
    listening (accept_turn False p)"
proof -
  have step: "\<not> accepting q' \<and> next_conn q' = next_conn q \<and> set (conns q') \<subseteq> set (conns q)"
    if "proxy_step e q = Some q'" "\<not> accepting q" for e q q'
  proof (cases e)
    case (OnConn i ce)
    have "proxy_step (OnConn i ce) q = Some q'" using that(1) OnConn by simp
    then obtain c where "q' = q\<lparr>conn_at := (conn_at q)(i := c)\<rparr>" by (rule proxy_step_OnConn)
    then show ?thesis using that(2) by simp
  qed (use that in \<open>auto simp: proxy_op_defs\<close>)
  let ?P = "\<lambda>q. \<not> accepting q \<and> next_conn q = next_conn p \<and> set (conns q) \<subseteq> set (conns p)"
  have "?P q'" if "proxy_step e q = Some q'" "?P q" for e q q'
    using step [OF that(1)] that(2) by (auto 0 3)
  moreover have "?P (accept_turn False p)" using assms(1) by (simp add: accept_turn_def)
  ultimately have "?P p'" by (rule foldM_invariant [OF _ assms(2)])
  then show ?thesis using assms(1) by (simp add: accept_turn_def)
qed

theorem proxy_dial_failure_final_witness:
  "conns (accept_turn True (accept_turn False (NewProxy ''t''))) = []"
  using proxy_dial_failure_final [of "NewProxy ''t''" "[Accept True]"]
  by (auto simp: NewProxy_def)

end
