(* ===== verification/Registry.thy ===== *)
theory Registry
  imports RegistryLog
begin

text \<open>
  pkg/registry/registry/registry.go and options.go: the registry of one node. The record
  \<open>registry\<close> has the fields of the Go struct; every method that changes it is a function to
  the new record. Each reading of the wall clock (the default of the option \<open>now\<close>) is an
  argument \<open>clk\<close>, each range over a map takes the order of its keys, and the text of a
  liveness value (the String method of the protobuf enum) is the argument \<open>ls\<close>. A
  subscription is a handle, and what its callback has been given so far is the handle's
  \<open>inbox\<close>: the order in which one update reaches the different handles is irrelevant to it.
  Every method runs under the registry's mutex, so methods are atomic steps. Log output is not
  part of the state, but writing it can panic: an entry that encodes a member state without a
  locality does (RegistryLog). A registry carries whether its logger writes errors - the default
  logger of the options writes nothing - and an operation that can log such an entry is \<open>None\<close>
  when it panics, which ends the process. The other entries encode whole members and versions,
  which never panics.
\<close>

subsection \<open>State\<close>

record subHandle =
  ownerOnly :: bool

record registry_metrics =
  MembersCount :: gauge
  MembersOwned :: gauge

record registry =
  localID :: string
  members :: "string \<rightharpoonup> member2"
  lastSeen :: "string \<rightharpoonup> int"
  subs :: "nat \<rightharpoonup> subHandle"
  inbox :: "nat \<Rightarrow> member2 list"
  nextHandle :: nat
  lastVersion :: "version2 option"
  leftNodes :: "string \<rightharpoonup> int"
  priorityMembers :: "string set"
  heartbeatTimeout :: int
  reconnectTimeout :: int
  tombstoneTimeout :: int
  metrics :: registry_metrics
  logger :: bool

subsection \<open>Options\<close>

record options =
  localMember :: "member_state option"
  opt_heartbeatTimeout :: int
  opt_reconnectTimeout :: int
  opt_tombstoneTimeout :: int
  opt_now :: int
  opt_logger :: bool

datatype option_arg =
    WithLocalMember member_state
  | WithHeartbeatTimeout int
  | WithReconnectTimeout int
  | WithTombstoneTimeout int
  | WithNowTime int
  | WithLogger bool

definition defaultOptions :: "int \<Rightarrow> options" where
  "defaultOptions clk = \<lparr>localMember = None, opt_heartbeatTimeout = 20 * 1000,
     opt_reconnectTimeout = 5 * 60 * 1000, opt_tombstoneTimeout = 30 * 60 * 1000, opt_now = clk,
     opt_logger = False\<rparr>"

fun apply_option :: "option_arg \<Rightarrow> options \<Rightarrow> options" where
  "apply_option (WithLocalMember m) opts = opts\<lparr>localMember := Some m\<rparr>"
| "apply_option (WithHeartbeatTimeout t) opts = opts\<lparr>opt_heartbeatTimeout := t\<rparr>"
| "apply_option (WithReconnectTimeout t) opts = opts\<lparr>opt_reconnectTimeout := t\<rparr>"
| "apply_option (WithTombstoneTimeout t) opts = opts\<lparr>opt_tombstoneTimeout := t\<rparr>"
| "apply_option (WithNowTime n) opts = opts\<lparr>opt_now := n\<rparr>"
| "apply_option (WithLogger l) opts = opts\<lparr>opt_logger := l\<rparr>"

abbreviation get_options :: "int \<Rightarrow> option_arg list \<Rightarrow> options" where
  "get_options clk opts \<equiv> fold apply_option opts (defaultOptions clk)"

subsection \<open>Versions and the member map\<close>

definition nextVersionLocked :: "int \<Rightarrow> registry \<Rightarrow> version2 \<times> registry" where
  "nextVersionLocked now r =
     (let counter = (case lastVersion r of
              None \<Rightarrow> 0
            | Some lv \<Rightarrow> if Timestamp (VTimestamp lv) = now then Counter (VTimestamp lv) + 1 else 0);
          v = \<lparr>OwnerId = localID r, VTimestamp = MonotonicTimestamp now counter\<rparr>
      in (v, r\<lparr>lastVersion := Some v\<rparr>))"

definition count_labels :: "(liveness \<Rightarrow> string) \<Rightarrow> member2 \<Rightarrow> labels" where
  "count_labels ls m = [(''status'', ToLower (ls (Liveness m))), (''owner'', OwnerId (Version m))]"

definition owned_labels :: "(liveness \<Rightarrow> string) \<Rightarrow> member2 \<Rightarrow> labels" where
  "owned_labels ls m = [(''status'', ToLower (ls (Liveness m)))]"

definition metrics_dec :: "(liveness \<Rightarrow> string) \<Rightarrow> string \<Rightarrow> member2 \<Rightarrow> registry_metrics \<Rightarrow> registry_metrics"
where
  "metrics_dec ls lid existing mt =
     (let mt1 = mt\<lparr>MembersCount := Gauge_Dec (count_labels ls existing) (MembersCount mt)\<rparr>
      in if OwnerId (Version existing) = lid
         then mt1\<lparr>MembersOwned := Gauge_Dec (owned_labels ls existing) (MembersOwned mt1)\<rparr>
         else mt1)"

definition metrics_inc :: "(liveness \<Rightarrow> string) \<Rightarrow> string \<Rightarrow> member2 \<Rightarrow> registry_metrics \<Rightarrow> registry_metrics"
where
  "metrics_inc ls lid m mt =
     (let mt1 = mt\<lparr>MembersCount := Gauge_Inc (count_labels ls m) (MembersCount mt)\<rparr>
      in if OwnerId (Version m) = lid
         then mt1\<lparr>MembersOwned := Gauge_Inc (owned_labels ls m) (MembersOwned mt1)\<rparr>
         else mt1)"

definition setMemberLocked :: "(liveness \<Rightarrow> string) \<Rightarrow> member2 \<Rightarrow> registry \<Rightarrow> registry" where
  "setMemberLocked ls m r =
     (let i = MemberId (State m);
          r1 = (case members r i of
              None \<Rightarrow> r
            | Some existing \<Rightarrow> r\<lparr>metrics := metrics_dec ls (localID r) existing (metrics r)\<rparr>);
          r2 = r1\<lparr>members := (members r1)(i \<mapsto> m)\<rparr>;
          r3 = r2\<lparr>metrics := metrics_inc ls (localID r2) m (metrics r2)\<rparr>
      in if OwnerId (Version m) = localID r3
         then r3\<lparr>lastSeen := (lastSeen r3)(i \<mapsto> Timestamp (VTimestamp (Version m)))\<rparr>
         else r3\<lparr>lastSeen := (lastSeen r3)(i := None)\<rparr>)"

definition deleteMemberLocked :: "(liveness \<Rightarrow> string) \<Rightarrow> string \<Rightarrow> registry \<Rightarrow> registry" where
  "deleteMemberLocked ls i r =
     (let r1 = (case members r i of
              None \<Rightarrow> r
            | Some existing \<Rightarrow> r\<lparr>metrics := metrics_dec ls (localID r) existing (metrics r)\<rparr>)
      in r1\<lparr>members := (members r1)(i := None), lastSeen := (lastSeen r1)(i := None)\<rparr>)"

definition notifySubscribersLocked :: "member2 \<Rightarrow> bool \<Rightarrow> registry \<Rightarrow> registry" where
  "notifySubscribersLocked update owner r =
     r\<lparr>inbox := (\<lambda>h. case subs r h of
         None \<Rightarrow> inbox r h
       | Some s \<Rightarrow>
           if ownerOnly s \<and> owner then inbox r h @ [update]
           else if \<not> ownerOnly s then inbox r h @ [update]
           else inbox r h)\<rparr>"

text \<open>
  Writing an error with the given objects: each is encoded if the logger writes errors at all, and
  encoding one may panic.
\<close>

definition log_Error :: "log_call list option list \<Rightarrow> registry \<Rightarrow> registry option" where
  "log_Error objects r = (if logger r \<and> None \<in> set objects then None else Some r)"

definition updateMemberLocked ::
  "(liveness \<Rightarrow> string) \<Rightarrow> int \<Rightarrow> member_state \<Rightarrow> liveness \<Rightarrow> int \<Rightarrow> option_arg list \<Rightarrow> registry \<Rightarrow>
     registry option"
where
  "updateMemberLocked ls clk member liveness expiry opts r =
     (if MemberId member = localID r
      then log_Error [memberStateLogger_MarshalLogObject member] r
      else
        let (version, r1) = nextVersionLocked (opt_now (get_options clk opts)) r;
            update =
              (let versionedMember = \<lparr>State = member, Liveness = liveness, Version = version,
                     Expiry = expiry\<rparr>
               in Some (notifySubscribersLocked versionedMember True
                    (setMemberLocked ls versionedMember r1)))
        in case members r1 (MemberId member) of
             None \<Rightarrow> update
           | Some existing \<Rightarrow>
               if compareVersions (Version existing) version \<le> 0
               then log_Error [memberStateLogger_MarshalLogObject member,
                   versionLogger_MarshalLogObject version,
                   versionLogger_MarshalLogObject (Version existing)] r1
               else update)"

subsection \<open>Construction and lookups\<close>

definition NewMetrics :: registry_metrics where
  "NewMetrics = \<lparr>MembersCount = NewGauge, MembersOwned = NewGauge\<rparr>"

definition NewRegistry :: "(liveness \<Rightarrow> string) \<Rightarrow> int \<Rightarrow> string \<Rightarrow> option_arg list \<Rightarrow> registry" where
  "NewRegistry ls clk lid opts =
     (let options = get_options clk opts;
          reg = \<lparr>localID = lid, members = Map.empty, lastSeen = Map.empty, subs = Map.empty,
                 inbox = (\<lambda>_. []), nextHandle = 0, lastVersion = None, leftNodes = Map.empty,
                 priorityMembers = {}, heartbeatTimeout = opt_heartbeatTimeout options,
                 reconnectTimeout = opt_reconnectTimeout options,
                 tombstoneTimeout = opt_tombstoneTimeout options, metrics = NewMetrics,
                 logger = opt_logger options\<rparr>
      in case localMember options of
           None \<Rightarrow> reg
         | Some st \<Rightarrow>
             let (v, reg1) = nextVersionLocked (opt_now options) reg
             in setMemberLocked ls
                  \<lparr>State = st, Liveness = Liveness_UP, Version = v, Expiry = 0\<rparr> reg1)"

definition LocalID :: "registry \<Rightarrow> string" where
  "LocalID r = localID r"

definition MemberState :: "string \<Rightarrow> registry \<Rightarrow> member_state option" where
  "MemberState i r = map_option State (members r i)"

definition MemberStates :: "string list \<Rightarrow> registry \<Rightarrow> member_state list" where
  "MemberStates ms r = List.map_filter (\<lambda>i. map_option State (members r i)) ms"

definition LookupMember :: "string \<Rightarrow> registry \<Rightarrow> member2 option" where
  "LookupMember i r = members r i"

definition Members :: "string list \<Rightarrow> registry \<Rightarrow> member2 list" where
  "Members ms r = List.map_filter (members r) ms"

definition OwnedMembers :: "string list \<Rightarrow> registry \<Rightarrow> member2 list" where
  "OwnedMembers ms r =
     filter (\<lambda>m. OwnerId (Version m) = localID r) (List.map_filter (members r) ms)"

definition UpMembers :: "string list \<Rightarrow> registry \<Rightarrow> member2 list" where
  "UpMembers ms r = filter (\<lambda>m. Liveness m = Liveness_UP) (List.map_filter (members r) ms)"

subsection \<open>Updates\<close>

definition AddMember ::
  "(liveness \<Rightarrow> string) \<Rightarrow> int \<Rightarrow> member_state \<Rightarrow> option_arg list \<Rightarrow> registry \<Rightarrow> registry option"
where
  "AddMember ls clk member opts r = updateMemberLocked ls clk member Liveness_UP 0 opts r"

definition MemberHeartbeat ::
  "(liveness \<Rightarrow> string) \<Rightarrow> int \<Rightarrow> int \<Rightarrow> member_state \<Rightarrow> option_arg list \<Rightarrow> registry \<Rightarrow> registry option"
where
  "MemberHeartbeat ls clk clk' member opts r =
     (let options = get_options clk opts;
          alive = (case members r (MemberId member) of
              None \<Rightarrow> False
            | Some existing \<Rightarrow>
                OwnerId (Version existing) = localID r \<and> Liveness existing = Liveness_UP)
      in if alive then Some (r\<lparr>lastSeen := (lastSeen r)(MemberId member \<mapsto> opt_now options)\<rparr>)
         else updateMemberLocked ls clk' member Liveness_UP 0 opts r)"

definition RemoveMember ::
  "(liveness \<Rightarrow> string) \<Rightarrow> int \<Rightarrow> int \<Rightarrow> string \<Rightarrow> option_arg list \<Rightarrow> registry \<Rightarrow> registry option"
where
  "RemoveMember ls clk clk' i opts r =
     (let options = get_options clk opts
      in case members r i of
           None \<Rightarrow> Some r
         | Some m \<Rightarrow> updateMemberLocked ls clk' (State m) Liveness_LEFT
             (add64 (opt_now options) (tombstoneTimeout r)) opts r)"

definition RemoteUpdate :: "(liveness \<Rightarrow> string) \<Rightarrow> member2 \<Rightarrow> registry \<Rightarrow> registry" where
  "RemoteUpdate ls update r =
     (if MemberId (State update) = localID r then r
      else if OwnerId (Version update) = localID r then r
      else case members r (MemberId (State update)) of
          None \<Rightarrow> notifySubscribersLocked update False (setMemberLocked ls update r)
        | Some existing \<Rightarrow>
            if compareVersions (Version existing) (Version update) \<le> 0 then r
            else
              let ownershipChange = (OwnerId (Version existing) = localID r)
              in notifySubscribersLocked update ownershipChange (setMemberLocked ls update r))"

subsection \<open>Cluster events\<close>

definition membersForOwnerLocked :: "string list \<Rightarrow> string \<Rightarrow> registry \<Rightarrow> nat" where
  "membersForOwnerLocked ms i r =
     length (filter (\<lambda>m. OwnerId (Version m) = i) (List.map_filter (members r) ms))"

definition OnNodeJoin :: "string \<Rightarrow> registry \<Rightarrow> registry" where
  "OnNodeJoin i r = r\<lparr>leftNodes := (leftNodes r)(i := None)\<rparr>"

definition OnNodeLeave :: "string list \<Rightarrow> int \<Rightarrow> string \<Rightarrow> option_arg list \<Rightarrow> registry \<Rightarrow> registry" where
  "OnNodeLeave ms clk i opts r =
     (let options = get_options clk opts
      in if 0 < membersForOwnerLocked ms i r
         then r\<lparr>leftNodes := (leftNodes r)(i \<mapsto> opt_now options)\<rparr>
         else r)"

end
