(* ===== verification/RegistryFacts.thy ===== *)
theory RegistryFacts
  imports Registry
begin

text \<open>
  What each internal step of the registry does to each field (the collection
  \<open>reg_simps\<close>), the effect of the methods on the member map, and the well-formedness
  invariant \<open>reg_inv\<close> with its preservation by the locked helpers.
\<close>

named_theorems reg_simps \<open>effect of the locked helpers on the fields of the registry\<close>

subsection \<open>Fields after each helper\<close>

lemma setMemberLocked_fields [reg_simps, simp]:
  "localID (setMemberLocked ls m r) = localID r"
  "logger (setMemberLocked ls m r) = logger r"
  "members (setMemberLocked ls m r) = (members r)(MemberId (State m) \<mapsto> m)"
  "lastSeen (setMemberLocked ls m r) = (lastSeen r)(MemberId (State m) :=
     (if OwnerId (Version m) = localID r then Some (Timestamp (VTimestamp (Version m))) else None))"
  "subs (setMemberLocked ls m r) = subs r"
  "inbox (setMemberLocked ls m r) = inbox r"
  "nextHandle (setMemberLocked ls m r) = nextHandle r"
  "lastVersion (setMemberLocked ls m r) = lastVersion r"
  "leftNodes (setMemberLocked ls m r) = leftNodes r"
  "priorityMembers (setMemberLocked ls m r) = priorityMembers r"
  "heartbeatTimeout (setMemberLocked ls m r) = heartbeatTimeout r"
  "reconnectTimeout (setMemberLocked ls m r) = reconnectTimeout r"
  "tombstoneTimeout (setMemberLocked ls m r) = tombstoneTimeout r"
  by (simp_all add: setMemberLocked_def Let_def split: option.split)

lemma metrics_setMemberLocked:
  "metrics (setMemberLocked ls m r) = metrics_inc ls (localID r) m
     (case members r (MemberId (State m)) of None \<Rightarrow> metrics r
      | Some e \<Rightarrow> metrics_dec ls (localID r) e (metrics r))"
  by (simp add: setMemberLocked_def Let_def split: option.split)

lemma deleteMemberLocked_fields [reg_simps, simp]:
  "localID (deleteMemberLocked ls i r) = localID r"
  "logger (deleteMemberLocked ls i r) = logger r"
  "members (deleteMemberLocked ls i r) = (members r)(i := None)"
  "lastSeen (deleteMemberLocked ls i r) = (lastSeen r)(i := None)"
  "subs (deleteMemberLocked ls i r) = subs r"
  "inbox (deleteMemberLocked ls i r) = inbox r"
  "nextHandle (deleteMemberLocked ls i r) = nextHandle r"
  "lastVersion (deleteMemberLocked ls i r) = lastVersion r"
  "leftNodes (deleteMemberLocked ls i r) = leftNodes r"
  "priorityMembers (deleteMemberLocked ls i r) = priorityMembers r"
  "heartbeatTimeout (deleteMemberLocked ls i r) = heartbeatTimeout r"
  "reconnectTimeout (deleteMemberLocked ls i r) = reconnectTimeout r"
  "tombstoneTimeout (deleteMemberLocked ls i r) = tombstoneTimeout r"
  by (simp_all add: deleteMemberLocked_def Let_def split: option.split)

lemma metrics_deleteMemberLocked:
  "metrics (deleteMemberLocked ls i r) =
     (case members r i of None \<Rightarrow> metrics r
      | Some e \<Rightarrow> metrics_dec ls (localID r) e (metrics r))"
  by (simp add: deleteMemberLocked_def Let_def split: option.split)

lemma notify_fields [reg_simps, simp]:
  "localID (notifySubscribersLocked u b r) = localID r"
  "logger (notifySubscribersLocked u b r) = logger r"
  "members (notifySubscribersLocked u b r) = members r"
  "lastSeen (notifySubscribersLocked u b r) = lastSeen r"
  "subs (notifySubscribersLocked u b r) = subs r"
  "nextHandle (notifySubscribersLocked u b r) = nextHandle r"
  "lastVersion (notifySubscribersLocked u b r) = lastVersion r"
  "leftNodes (notifySubscribersLocked u b r) = leftNodes r"
  "priorityMembers (notifySubscribersLocked u b r) = priorityMembers r"
  "heartbeatTimeout (notifySubscribersLocked u b r) = heartbeatTimeout r"
  "reconnectTimeout (notifySubscribersLocked u b r) = reconnectTimeout r"
  "tombstoneTimeout (notifySubscribersLocked u b r) = tombstoneTimeout r"
  "metrics (notifySubscribersLocked u b r) = metrics r"
  by (simp_all add: notifySubscribersLocked_def)

lemma inbox_notify:
  "inbox (notifySubscribersLocked u b r) h =
     (if \<exists>s. subs r h = Some s \<and> (ownerOnly s \<longrightarrow> b) then inbox r h @ [u] else inbox r h)"
  by (auto simp: notifySubscribersLocked_def split: option.split)

lemma nextVersion_fields [reg_simps, simp]:
  "localID (snd (nextVersionLocked n r)) = localID r"
  "members (snd (nextVersionLocked n r)) = members r"
  "lastSeen (snd (nextVersionLocked n r)) = lastSeen r"
  "subs (snd (nextVersionLocked n r)) = subs r"
  "inbox (snd (nextVersionLocked n r)) = inbox r"
  "nextHandle (snd (nextVersionLocked n r)) = nextHandle r"
  "lastVersion (snd (nextVersionLocked n r)) = Some (fst (nextVersionLocked n r))"
  "leftNodes (snd (nextVersionLocked n r)) = leftNodes r"
  "priorityMembers (snd (nextVersionLocked n r)) = priorityMembers r"
  "heartbeatTimeout (snd (nextVersionLocked n r)) = heartbeatTimeout r"
  "reconnectTimeout (snd (nextVersionLocked n r)) = reconnectTimeout r"
  "tombstoneTimeout (snd (nextVersionLocked n r)) = tombstoneTimeout r"
  "metrics (snd (nextVersionLocked n r)) = metrics r"
  "OwnerId (fst (nextVersionLocked n r)) = localID r"
  "Timestamp (VTimestamp (fst (nextVersionLocked n r))) = n"
  by (simp_all add: nextVersionLocked_def Let_def)

subsection \<open>The update path in one equation\<close>

text \<open>
  The version an update of this node gets, whether the update is discarded, and the member it
  stores.
\<close>

definition update_version :: "int \<Rightarrow> option_arg list \<Rightarrow> registry \<Rightarrow> version2" where
  "update_version clk opts r = fst (nextVersionLocked (opt_now (get_options clk opts)) r)"

definition update_outdated :: "int \<Rightarrow> string \<Rightarrow> option_arg list \<Rightarrow> registry \<Rightarrow> bool" where
  "update_outdated clk i opts r \<longleftrightarrow>
     (\<exists>e. members r i = Some e \<and> \<not> newer (Version e) (update_version clk opts r))"

text \<open>An update panics when the error it has to log encodes a member without a locality.\<close>

definition update_panics :: "int \<Rightarrow> member_state \<Rightarrow> option_arg list \<Rightarrow> registry \<Rightarrow> bool" where
  "update_panics clk member opts r \<longleftrightarrow> logger r \<and> Locality member = None \<and>
     (MemberId member = localID r \<or> update_outdated clk (MemberId member) opts r)"

definition update_result ::
  "(liveness \<Rightarrow> string) \<Rightarrow> int \<Rightarrow> member_state \<Rightarrow> liveness \<Rightarrow> int \<Rightarrow> option_arg list \<Rightarrow> registry \<Rightarrow> registry"
where
  "update_result ls clk member liveness expiry opts r =
     (if MemberId member = localID r then r
      else
        let r1 = snd (nextVersionLocked (opt_now (get_options clk opts)) r)
        in if update_outdated clk (MemberId member) opts r then r1
           else
             let m = \<lparr>State = member, Liveness = liveness, Version = update_version clk opts r,
                   Expiry = expiry\<rparr>
             in notifySubscribersLocked m True (setMemberLocked ls m r1))"

lemma logger_nextVersion [simp]: "logger (snd (nextVersionLocked n r)) = logger r"
  by (simp add: nextVersionLocked_def Let_def)

lemma updateMemberLocked_eq:
  "updateMemberLocked ls clk member liveness expiry opts r =
     (if update_panics clk member opts r then None
      else Some (update_result ls clk member liveness expiry opts r))"
  by (auto simp: updateMemberLocked_def update_panics_def update_result_def log_Error_def
      memberStateLogger_MarshalLogObject_def versionLogger_MarshalLogObject_def update_outdated_def
      update_version_def Let_def case_prod_beta not_less split: option.split)

lemma updateMemberLocked_Some [reg_simps]:
  "updateMemberLocked ls clk member liveness expiry opts r = Some r' \<longleftrightarrow>
     \<not> update_panics clk member opts r \<and> r' = update_result ls clk member liveness expiry opts r"
  by (auto simp: updateMemberLocked_eq)

lemma no_update_panic [simp]:
  "\<not> logger r \<Longrightarrow> \<not> update_panics clk member opts r"
  "Locality member \<noteq> None \<Longrightarrow> \<not> update_panics clk member opts r"
  by (simp_all add: update_panics_def)

lemma members_update_result:
  "members (update_result ls clk member liveness expiry opts r) =
     (if MemberId member = localID r \<or> update_outdated clk (MemberId member) opts r then members r
      else (members r)(MemberId member \<mapsto> \<lparr>State = member, Liveness = liveness,
             Version = update_version clk opts r, Expiry = expiry\<rparr>))"
  by (simp add: update_result_def Let_def)

lemma update_version_fields [simp]:
  "OwnerId (update_version clk opts r) = localID r"
  "Timestamp (VTimestamp (update_version clk opts r)) = opt_now (get_options clk opts)"
  by (simp_all add: update_version_def)

lemma update_result_fields [reg_simps, simp]:
  "localID (update_result ls clk st lv ex opts r) = localID r"
  "logger (update_result ls clk st lv ex opts r) = logger r"
  "subs (update_result ls clk st lv ex opts r) = subs r"
  "nextHandle (update_result ls clk st lv ex opts r) = nextHandle r"
  "leftNodes (update_result ls clk st lv ex opts r) = leftNodes r"
  "priorityMembers (update_result ls clk st lv ex opts r) = priorityMembers r"
  "heartbeatTimeout (update_result ls clk st lv ex opts r) = heartbeatTimeout r"
  "reconnectTimeout (update_result ls clk st lv ex opts r) = reconnectTimeout r"
  "tombstoneTimeout (update_result ls clk st lv ex opts r) = tombstoneTimeout r"
  by (simp_all add: update_result_def Let_def)

lemma lastSeen_update_result:
  "lastSeen (update_result ls clk member liveness expiry opts r) =
     (if MemberId member = localID r \<or> update_outdated clk (MemberId member) opts r then lastSeen r
      else (lastSeen r)(MemberId member \<mapsto> opt_now (get_options clk opts)))"
  by (simp add: update_result_def Let_def)

subsection \<open>Remote updates\<close>

definition remote_accepted :: "registry \<Rightarrow> member2 \<Rightarrow> bool" where
  "remote_accepted r u \<longleftrightarrow>
     MemberId (State u) \<noteq> localID r \<and> OwnerId (Version u) \<noteq> localID r \<and>
     (\<forall>e. members r (MemberId (State u)) = Some e \<longrightarrow> newer (Version e) (Version u))"

definition lost_ownership :: "registry \<Rightarrow> member2 \<Rightarrow> bool" where
  "lost_ownership r u \<longleftrightarrow>
     (\<exists>e. members r (MemberId (State u)) = Some e \<and> OwnerId (Version e) = localID r)"

lemma RemoteUpdate_eq:
  "RemoteUpdate ls u r =
     (if remote_accepted r u
      then notifySubscribersLocked u (lost_ownership r u) (setMemberLocked ls u r) else r)"
  by (auto simp: RemoteUpdate_def remote_accepted_def lost_ownership_def Let_def not_less
      split: option.split)

lemma RemoteUpdate_fields [reg_simps, simp]:
  "localID (RemoteUpdate ls u r) = localID r"
  "logger (RemoteUpdate ls u r) = logger r"
  "subs (RemoteUpdate ls u r) = subs r"
  "nextHandle (RemoteUpdate ls u r) = nextHandle r"
  "leftNodes (RemoteUpdate ls u r) = leftNodes r"
  "priorityMembers (RemoteUpdate ls u r) = priorityMembers r"
  "lastVersion (RemoteUpdate ls u r) = lastVersion r"
  "heartbeatTimeout (RemoteUpdate ls u r) = heartbeatTimeout r"
  "reconnectTimeout (RemoteUpdate ls u r) = reconnectTimeout r"
  "tombstoneTimeout (RemoteUpdate ls u r) = tombstoneTimeout r"
  by (simp_all add: RemoteUpdate_eq)

lemma members_RemoteUpdate:
  "members (RemoteUpdate ls u r) =
     (if remote_accepted r u then (members r)(MemberId (State u) \<mapsto> u) else members r)"
  by (simp add: RemoteUpdate_eq)

subsection \<open>The invariant\<close>

text \<open>
  The member map is keyed by the members' ids and finite; lastSeen has an entry for exactly the
  members this node owns; the node's own entry stays up and its own; the two gauges show, for
  every label key, the number of members with that key; handles not yet given out are unused.
\<close>

definition inv_store :: "registry \<Rightarrow> bool" where
  "inv_store r \<longleftrightarrow> finite (dom (members r)) \<and>
     (\<forall>i m. members r i = Some m \<longrightarrow> MemberId (State m) = i)"

definition inv_seen :: "registry \<Rightarrow> bool" where
  "inv_seen r \<longleftrightarrow> (\<forall>i. lastSeen r i \<noteq> None \<longleftrightarrow>
     (\<exists>m. members r i = Some m \<and> OwnerId (Version m) = localID r))"

definition inv_local :: "registry \<Rightarrow> bool" where
  "inv_local r \<longleftrightarrow> (\<forall>m. members r (localID r) = Some m \<longrightarrow>
     Liveness m = Liveness_UP \<and> OwnerId (Version m) = localID r)"

definition inv_gauges :: "(liveness \<Rightarrow> string) \<Rightarrow> registry \<Rightarrow> bool" where
  "inv_gauges ls r \<longleftrightarrow>
     (\<forall>k. gauge_cell (MembersCount (metrics r)) k =
        int (population (members r) (\<lambda>_. True) (\<lambda>m. metric_key (count_labels ls m)) k)) \<and>
     (\<forall>k. gauge_cell (MembersOwned (metrics r)) k =
        int (population (members r) (\<lambda>m. OwnerId (Version m) = localID r)
          (\<lambda>m. metric_key (owned_labels ls m)) k))"

definition inv_handles :: "registry \<Rightarrow> bool" where
  "inv_handles r \<longleftrightarrow> (\<forall>h \<ge> nextHandle r. subs r h = None \<and> inbox r h = [])"

definition reg_inv :: "(liveness \<Rightarrow> string) \<Rightarrow> registry \<Rightarrow> bool" where
  "reg_inv ls r \<longleftrightarrow>
     inv_store r \<and> inv_seen r \<and> inv_local r \<and> inv_gauges ls r \<and> inv_handles r"

lemmas reg_inv_defs = inv_store_def inv_seen_def inv_local_def inv_gauges_def inv_handles_def

lemma reg_inv_finite: "reg_inv ls r \<Longrightarrow> finite (dom (members r))"
  by (simp add: reg_inv_def inv_store_def)

lemma reg_inv_id: "reg_inv ls r \<Longrightarrow> members r i = Some m \<Longrightarrow> MemberId (State m) = i"
  by (simp add: reg_inv_def inv_store_def)

text \<open>Fields the invariant does not read.\<close>

lemma reg_inv_frame [simp]:
  "reg_inv ls (r\<lparr>leftNodes := ln\<rparr>) = reg_inv ls r"
  "reg_inv ls (r\<lparr>priorityMembers := pm\<rparr>) = reg_inv ls r"
  "reg_inv ls (r\<lparr>lastVersion := lv\<rparr>) = reg_inv ls r"
  "reg_inv ls (r\<lparr>logger := lg\<rparr>) = reg_inv ls r"
  by (simp_all add: reg_inv_def reg_inv_defs)

lemma reg_inv_nextVersion [simp]: "reg_inv ls (snd (nextVersionLocked n r)) = reg_inv ls r"
  by (simp add: nextVersionLocked_def Let_def)

lemma gauges_metrics_dec:
  assumes "inv_gauges ls r" and "inv_store r" and "members r i = Some e"
  shows "inv_gauges ls (r\<lparr>metrics := metrics_dec ls (localID r) e (metrics r),
      members := (members r)(i := None)\<rparr>)"
proof -
  have fin: "finite (dom (members r))" using assms(2) by (simp add: inv_store_def)
  have "gauge_cell (Gauge_Dec (count_labels ls e) (MembersCount (metrics r))) k =
      int (population ((members r)(i := None)) (\<lambda>_. True) (\<lambda>m. metric_key (count_labels ls m)) k)"
    for k
    using gauge.counts_delete [OF fin assms(3), where P = "\<lambda>_. True" and lab = "count_labels ls"]
      assms(1) by (simp add: inv_gauges_def)
  moreover have "gauge_cell (if OwnerId (Version e) = localID r
        then Gauge_Dec (owned_labels ls e) (MembersOwned (metrics r))
        else MembersOwned (metrics r)) k =
      int (population ((members r)(i := None)) (\<lambda>m. OwnerId (Version m) = localID r)
        (\<lambda>m. metric_key (owned_labels ls m)) k)" for k
    by (rule gauge.counts_delete [OF fin assms(3)]) (use assms(1) in \<open>simp add: inv_gauges_def\<close>)
  ultimately show ?thesis
    by (auto simp: inv_gauges_def metrics_dec_def Let_def split: if_splits)
qed

lemma gauges_metrics_inc:
  assumes "inv_gauges ls r" and "inv_store r" and "members r i = None"
  shows "inv_gauges ls (r\<lparr>metrics := metrics_inc ls (localID r) m (metrics r),
      members := (members r)(i \<mapsto> m)\<rparr>)"
proof -
  have fin: "finite (dom (members r))" using assms(2) by (simp add: inv_store_def)
  have "gauge_cell (Gauge_Inc (count_labels ls m) (MembersCount (metrics r))) k =
      int (population ((members r)(i \<mapsto> m)) (\<lambda>_. True) (\<lambda>m. metric_key (count_labels ls m)) k)"
    for k
    using gauge.counts_insert [OF fin assms(3), where P = "\<lambda>_. True" and lab = "count_labels ls"]
      assms(1) by (simp add: inv_gauges_def)
  moreover have "gauge_cell (if OwnerId (Version m) = localID r
        then Gauge_Inc (owned_labels ls m) (MembersOwned (metrics r))
        else MembersOwned (metrics r)) k =
      int (population ((members r)(i \<mapsto> m)) (\<lambda>m. OwnerId (Version m) = localID r)
        (\<lambda>m. metric_key (owned_labels ls m)) k)" for k
    by (rule gauge.counts_insert [OF fin assms(3)]) (use assms(1) in \<open>simp add: inv_gauges_def\<close>)
  ultimately show ?thesis
    by (auto simp: inv_gauges_def metrics_inc_def Let_def split: if_splits)
qed

lemma inv_gauges_cong:
  "metrics r = metrics r' \<Longrightarrow> members r = members r' \<Longrightarrow> localID r = localID r' \<Longrightarrow>
   inv_gauges ls r = inv_gauges ls r'"
  by (simp add: inv_gauges_def)

lemma inv_gauges_delete:
  assumes "inv_gauges ls r" and "inv_store r"
  shows "inv_gauges ls (deleteMemberLocked ls i r)"
proof (cases "members r i")
  case None
  then have "(members r)(i := None) = members r" by auto
  with None show ?thesis
    using assms(1) by (simp add: inv_gauges_def metrics_deleteMemberLocked)
next
  case (Some e)
  then show ?thesis
    using gauges_metrics_dec [OF assms Some] 
    by (simp add: inv_gauges_def metrics_deleteMemberLocked)
qed

lemma inv_gauges_set:
  assumes "inv_gauges ls r" and "inv_store r"
  shows "inv_gauges ls (setMemberLocked ls m r)"
proof -
  let ?i = "MemberId (State m)"
  let ?d = "r\<lparr>metrics := (case members r ?i of None \<Rightarrow> metrics r
      | Some e \<Rightarrow> metrics_dec ls (localID r) e (metrics r)), members := (members r)(?i := None)\<rparr>"
  have "inv_gauges ls ?d"
    using inv_gauges_delete [OF assms, of ?i]
    by (simp add: inv_gauges_def metrics_deleteMemberLocked)
  moreover have "inv_store ?d" using assms(2) by (auto simp: inv_store_def)
  ultimately have "inv_gauges ls (?d\<lparr>metrics := metrics_inc ls (localID ?d) m (metrics ?d),
      members := (members ?d)(?i \<mapsto> m)\<rparr>)"
    by (rule gauges_metrics_inc) simp
  then show ?thesis
    by (simp add: inv_gauges_def metrics_setMemberLocked)
qed

lemma reg_inv_set:
  assumes "reg_inv ls r"
    and "MemberId (State m) = localID r \<Longrightarrow>
      Liveness m = Liveness_UP \<and> OwnerId (Version m) = localID r"
  shows "reg_inv ls (setMemberLocked ls m r)"
  unfolding reg_inv_def
proof (intro conjI)
  show "inv_gauges ls (setMemberLocked ls m r)"
    using assms by (intro inv_gauges_set) (simp_all add: reg_inv_def)
qed (use assms in \<open>auto simp: reg_inv_def reg_inv_defs\<close>)

lemma reg_inv_delete:
  assumes "reg_inv ls r" and "i \<noteq> localID r"
  shows "reg_inv ls (deleteMemberLocked ls i r)"
  unfolding reg_inv_def
proof (intro conjI)
  show "inv_gauges ls (deleteMemberLocked ls i r)"
    using assms by (intro inv_gauges_delete) (simp_all add: reg_inv_def)
qed (use assms in \<open>auto simp: reg_inv_def reg_inv_defs\<close>)

lemma reg_inv_notify [simp]:
  "reg_inv ls (notifySubscribersLocked u b r) \<longleftrightarrow> reg_inv ls r"
proof -
  have "inv_handles (notifySubscribersLocked u b r) \<longleftrightarrow> inv_handles r"
    by (auto simp: inv_handles_def inbox_notify)
  then show ?thesis
    by (simp add: reg_inv_def inv_store_def inv_seen_def inv_local_def inv_gauges_def)
qed

lemma reg_inv_update:
  "reg_inv ls r \<Longrightarrow> reg_inv ls (update_result ls clk st lv ex opts r)"
  by (auto simp: update_result_def Let_def intro!: reg_inv_set)

lemma reg_inv_RemoteUpdate: "reg_inv ls r \<Longrightarrow> reg_inv ls (RemoteUpdate ls u r)"
  by (auto simp: RemoteUpdate_eq remote_accepted_def intro!: reg_inv_set)

lemma NewRegistry_fields [simp]:
  "localID (NewRegistry ls clk lid opts) = lid"
  "logger (NewRegistry ls clk lid opts) = opt_logger (get_options clk opts)"
  "subs (NewRegistry ls clk lid opts) = Map.empty"
  "inbox (NewRegistry ls clk lid opts) = (\<lambda>_. [])"
  "leftNodes (NewRegistry ls clk lid opts) = Map.empty"
  "priorityMembers (NewRegistry ls clk lid opts) = {}"
  "heartbeatTimeout (NewRegistry ls clk lid opts) = opt_heartbeatTimeout (get_options clk opts)"
  "reconnectTimeout (NewRegistry ls clk lid opts) = opt_reconnectTimeout (get_options clk opts)"
  "tombstoneTimeout (NewRegistry ls clk lid opts) = opt_tombstoneTimeout (get_options clk opts)"
  by (simp_all add: NewRegistry_def Let_def nextVersionLocked_def split: option.split)

lemma reg_inv_NewRegistry: "reg_inv ls (NewRegistry ls clk lid opts)"
proof -
  have empty: "reg_inv ls \<lparr>localID = lid, members = Map.empty, lastSeen = Map.empty,
      subs = Map.empty, inbox = (\<lambda>_. []), nextHandle = 0, lastVersion = lv, leftNodes = Map.empty,
      priorityMembers = {}, heartbeatTimeout = ht, reconnectTimeout = rt, tombstoneTimeout = tt,
      metrics = NewMetrics, logger = lg\<rparr>" for lv ht rt tt lg
    by (simp add: reg_inv_def reg_inv_defs NewMetrics_def)
  show ?thesis
    by (auto simp: NewRegistry_def Let_def nextVersionLocked_def empty
        intro!: reg_inv_set split: option.split)
qed

subsection \<open>Public updates\<close>

lemma reg_inv_heartbeat_seen:
  assumes "reg_inv ls r" and "members r i = Some e" and "OwnerId (Version e) = localID r"
  shows "reg_inv ls (r\<lparr>lastSeen := (lastSeen r)(i \<mapsto> t)\<rparr>)"
  using assms by (simp add: reg_inv_def reg_inv_defs)

text \<open>What each of them is when it does not panic.\<close>

lemma AddMember_Some [reg_simps]:
  "AddMember ls clk st opts r = Some r' \<longleftrightarrow>
     \<not> update_panics clk st opts r \<and> r' = update_result ls clk st Liveness_UP 0 opts r"
  by (simp add: AddMember_def updateMemberLocked_Some)

definition beating :: "registry \<Rightarrow> string \<Rightarrow> bool" where
  "beating r i \<longleftrightarrow> (\<exists>e. members r i = Some e \<and> OwnerId (Version e) = localID r \<and> Liveness e = Liveness_UP)"

lemma MemberHeartbeat_Some [reg_simps]:
  "MemberHeartbeat ls clk clk' st opts r = Some r' \<longleftrightarrow>
     (if beating r (MemberId st)
      then r' = r\<lparr>lastSeen := (lastSeen r)(MemberId st \<mapsto> opt_now (get_options clk opts))\<rparr>
      else \<not> update_panics clk' st opts r \<and> r' = update_result ls clk' st Liveness_UP 0 opts r)"
  by (auto simp: MemberHeartbeat_def beating_def Let_def updateMemberLocked_Some split: option.splits)

lemma RemoveMember_Some [reg_simps]:
  "RemoveMember ls clk clk' i opts r = Some r' \<longleftrightarrow>
     (case members r i of
        None \<Rightarrow> r' = r
      | Some m \<Rightarrow> \<not> update_panics clk' (State m) opts r \<and>
          r' = update_result ls clk' (State m) Liveness_LEFT
            (add64 (opt_now (get_options clk opts)) (tombstoneTimeout r)) opts r)"
  by (auto simp: RemoveMember_def Let_def updateMemberLocked_Some split: option.split)

lemma reg_inv_AddMember: "AddMember ls clk st opts r = Some r' \<Longrightarrow> reg_inv ls r \<Longrightarrow> reg_inv ls r'"
  by (simp add: AddMember_Some reg_inv_update)

lemma reg_inv_MemberHeartbeat:
  "MemberHeartbeat ls clk clk' st opts r = Some r' \<Longrightarrow> reg_inv ls r \<Longrightarrow> reg_inv ls r'"
  by (auto simp: MemberHeartbeat_Some beating_def reg_inv_update intro: reg_inv_heartbeat_seen
      split: if_splits)

lemma reg_inv_RemoveMember:
  "RemoveMember ls clk clk' i opts r = Some r' \<Longrightarrow> reg_inv ls r \<Longrightarrow> reg_inv ls r'"
  by (auto simp: RemoveMember_Some reg_inv_update split: option.splits)

lemma reg_inv_OnNodeJoin: "reg_inv ls r \<Longrightarrow> reg_inv ls (OnNodeJoin i r)"
  by (simp add: OnNodeJoin_def)

lemma reg_inv_OnNodeLeave: "reg_inv ls r \<Longrightarrow> reg_inv ls (OnNodeLeave ms clk i opts r)"
  by (simp add: OnNodeLeave_def Let_def)

lemma reg_inv_fold_RemoteUpdate:
  "reg_inv ls r \<Longrightarrow> reg_inv ls (fold (RemoteUpdate ls) us r)"
  by (induction us arbitrary: r) (simp_all add: reg_inv_RemoteUpdate)

lemma logger_fold_RemoteUpdate [simp]: "logger (fold (RemoteUpdate ls) us r) = logger r"
  by (induction us arbitrary: r) simp_all

lemmas reg_inv_public = reg_inv_AddMember reg_inv_MemberHeartbeat reg_inv_RemoveMember
  reg_inv_RemoteUpdate reg_inv_OnNodeJoin reg_inv_OnNodeLeave

subsection \<open>Sample values for the witnesses\<close>

definition sample_text :: "liveness \<Rightarrow> string" where
  "sample_text l = (case l of Liveness_UP \<Rightarrow> ''UP'' | Liveness_DOWN \<Rightarrow> ''DOWN''
     | Liveness_LEFT \<Rightarrow> ''LEFT'' | Liveness_other _ \<Rightarrow> ''7'')"

definition sample_member :: "string \<Rightarrow> liveness \<Rightarrow> string \<Rightarrow> int \<Rightarrow> int \<Rightarrow> member2" where
  "sample_member i l owner t ex = \<lparr>State = zero_state i, Liveness = l,
     Version = \<lparr>OwnerId = owner, VTimestamp = MonotonicTimestamp t 0\<rparr>, Expiry = ex\<rparr>"

text \<open>Node n1 with one member m that a client registered at time 100.\<close>

definition sample_registry :: registry where
  "sample_registry = the (AddMember sample_text 0 (zero_state ''m'') [WithNowTime 100]
     (NewRegistry sample_text 0 ''n1'' []))"

lemma sample_registry_added:
  "AddMember sample_text 0 (zero_state ''m'') [WithNowTime 100] (NewRegistry sample_text 0 ''n1'' []) =
     Some sample_registry"
  by (simp add: sample_registry_def AddMember_def updateMemberLocked_eq defaultOptions_def)

lemma sample_registry_inv [simp, intro]: "reg_inv sample_text sample_registry"
  by (rule reg_inv_AddMember [OF sample_registry_added reg_inv_NewRegistry])

lemma members_NewRegistry_plain: "localMember (get_options clk opts) = None \<Longrightarrow>
    members (NewRegistry ls clk lid opts) = Map.empty \<and>
    lastSeen (NewRegistry ls clk lid opts) = Map.empty \<and>
    lastVersion (NewRegistry ls clk lid opts) = None"
  by (simp add: NewRegistry_def Let_def)

lemma sample_registry_fields [simp]:
  "localID sample_registry = ''n1''"
  "members sample_registry = [''m'' \<mapsto> sample_member ''m'' Liveness_UP ''n1'' 100 0]"
  "lastSeen sample_registry = [''m'' \<mapsto> 100]"
  "leftNodes sample_registry = Map.empty"
  "priorityMembers sample_registry = {}"
  "heartbeatTimeout sample_registry = 20000"
  "reconnectTimeout sample_registry = 300000"
  "tombstoneTimeout sample_registry = 1800000"
  "lastVersion sample_registry = Some \<lparr>OwnerId = ''n1'', VTimestamp = MonotonicTimestamp 100 0\<rparr>"
  "\<not> logger sample_registry"
  using members_NewRegistry_plain [of "[]" 0 sample_text "''n1''"]
  by (simp_all add: sample_registry_def AddMember_def updateMemberLocked_eq update_result_def Let_def
      update_outdated_def update_version_def nextVersionLocked_def defaultOptions_def
      sample_member_def)

end
