(* ===== verification/FcmCluster.thy ===== *)
theory FcmCluster
  imports Config Proxy RegistryFacts
begin

text \<open>
  pkg/fcm/cluster: the clusters the fuddle cluster manager runs in one process. A node or member
  is a pointer, the key of a map; the maps of a cluster are maps from addresses, and the order in
  which Go visits them is a list of addresses given to each operation that ranges over them. What
  the operating system and the nodes answer (listeners, dials, whether a node starts, what the
  nodes know at each poll) is an argument of the operation.
\<close>

subsection \<open>Counting loops\<close>

text \<open>
  \<open>for i := 0; i != n; i++\<close> over Go's int, with one element of the list consumed by each turn: a
  loop that is still running when the list is used up is \<open>Running\<close>.
\<close>

datatype 'x loop_result = Running | LoopDone | Failed 'x

fun count_loop ::
  "int \<Rightarrow> ('e \<Rightarrow> 's \<Rightarrow> 's \<times> 'x option) \<Rightarrow> int \<Rightarrow> 'e list \<Rightarrow> 's \<Rightarrow> 's \<times> 'x loop_result"
where
  "count_loop n step i [] s = (s, if i = n then LoopDone else Running)"
| "count_loop n step i (e # es) s =
     (if i = n then (s, LoopDone)
      else case step e s of
             (s', None) \<Rightarrow> count_loop n step (add64 i 1) es s'
           | (s', Some x) \<Rightarrow> (s', Failed x))"

subsection \<open>State\<close>

record fuddle_node =
  NodeConfig :: config
  RPCProxy :: proxy

record fcm_cluster =
  cluster_id :: string
  fuddleNodes :: "nat \<rightharpoonup> fuddle_node"
  memberNodes :: "nat \<rightharpoonup> string"
  logDir :: string

text \<open>The process: the next free address and the nodes and members that run in it.\<close>

record machine =
  next_ptr :: nat
  running :: "nat set"

datatype fcm_error = ListenFailed | BadAddr | ProxyFailed | NodeFailed | MemberFailed | LogPanic

subsection \<open>Addresses and logs\<close>

definition LogPath :: "fcm_cluster \<Rightarrow> string \<Rightarrow> string" where
  "LogPath c i = logDir c @ ''/'' @ i @ ''.log''"

definition RPCAddrs :: "nat list \<Rightarrow> fcm_cluster \<Rightarrow> string list" where
  "RPCAddrs ks c = map (\<lambda>n. host_port ''127.0.0.1'' (rpc_AdvPort (RPC (NodeConfig n))))
     (List.map_filter (fuddleNodes c) ks)"

definition GossipAddrs :: "nat list \<Rightarrow> fcm_cluster \<Rightarrow> string list" where
  "GossipAddrs ks c = map (\<lambda>n. host_port ''127.0.0.1'' (gossip_AdvPort (Gossip (NodeConfig n))))
     (List.map_filter (fuddleNodes c) ks)"

definition FuddleNodes :: "nat list \<Rightarrow> fcm_cluster \<Rightarrow> fuddle_node list" where
  "FuddleNodes ks c = List.map_filter (fuddleNodes c) ks"

definition MemberNodes :: "nat list \<Rightarrow> fcm_cluster \<Rightarrow> string list" where
  "MemberNodes ks c = List.map_filter (memberNodes c) ks"

subsection \<open>Adding nodes\<close>

text \<open>
  What the environment answers while a node is added: the address of each listener or its failure,
  the address of the proxy, the uuid of the node, whether a node with a given configuration starts,
  and the order in which GossipAddrs visits the nodes.
\<close>

record node_env =
  gossipTCPLn :: "string option"
  gossipUDPLn :: bool
  rpcLn :: "string option"
  proxyLn :: "string option"
  adminLn :: "string option"
  node_uuid :: string
  node_starts :: "config \<Rightarrow> bool"
  gossip_order :: "nat list"

definition and_then :: "'x + 'a \<Rightarrow> ('a \<Rightarrow> 'x + 'b) \<Rightarrow> 'x + 'b" where
  "and_then r f = (case r of Inl x \<Rightarrow> Inl x | Inr a \<Rightarrow> f a)"

definition listen_addr :: "fcm_error \<Rightarrow> string option \<Rightarrow> fcm_error + string" where
  "listen_addr err ln = (case ln of None \<Rightarrow> Inl err | Some a \<Rightarrow> Inr a)"

definition addr_port :: "string \<Rightarrow> fcm_error + int" where
  "addr_port a = (case parseAddrPort a of None \<Rightarrow> Inl BadAddr | Some p \<Rightarrow> Inr p)"

definition fcm_node_config :: "string \<Rightarrow> int \<Rightarrow> int \<Rightarrow> int \<Rightarrow> int \<Rightarrow> string list \<Rightarrow> config" where
  "fcm_node_config uuid gossipPort rpcPort rpcProxyPort adminPort seeds =
     (let conf = DefaultConfig uuid
      in conf\<lparr>RPC := (RPC conf)\<lparr>rpc_BindAddr := ''0.0.0.0'', rpc_AdvAddr := ''127.0.0.1'',
                 rpc_BindPort := rpcPort, rpc_AdvPort := rpcProxyPort\<rparr>,
              Admin := (Admin conf)\<lparr>admin_BindAddr := ''0.0.0.0'', admin_BindPort := adminPort,
                 admin_AdvAddr := ''fcm'', admin_AdvPort := adminPort\<rparr>,
              Gossip := (Gossip conf)\<lparr>gossip_BindAddr := ''0.0.0.0'', gossip_AdvAddr := ''127.0.0.1'',
                 gossip_BindPort := gossipPort, gossip_AdvPort := gossipPort, gossip_Seeds := seeds\<rparr>\<rparr>)"

definition listen_all :: "node_env \<Rightarrow> fcm_cluster \<Rightarrow> fcm_error + config \<times> string" where
  "listen_all e c =
     and_then (listen_addr ListenFailed (gossipTCPLn e)) (\<lambda>gossipAddr.
     and_then (addr_port gossipAddr) (\<lambda>gossipPort.
     and_then (if gossipUDPLn e then Inr () else Inl ListenFailed) (\<lambda>_.
     and_then (listen_addr ListenFailed (rpcLn e)) (\<lambda>rpcAddr.
     and_then (addr_port rpcAddr) (\<lambda>rpcPort.
     and_then (listen_addr ProxyFailed (proxyLn e)) (\<lambda>proxyAddr.
     and_then (addr_port proxyAddr) (\<lambda>rpcProxyPort.
     and_then (listen_addr ListenFailed (adminLn e)) (\<lambda>adminAddr.
     and_then (addr_port adminAddr) (\<lambda>adminPort.
       Inr (fcm_node_config (node_uuid e) gossipPort rpcPort rpcProxyPort adminPort
              (GossipAddrs (gossip_order e) c), rpcAddr))))))))))"

type_synonym fcm_state = "machine \<times> fcm_cluster"

definition AddFuddleNode :: "node_env \<Rightarrow> fcm_state \<Rightarrow> fcm_state \<times> (fcm_error + fuddle_node)" where
  "AddFuddleNode e s =
     (case s of (m, c) \<Rightarrow>
       (case listen_all e c of
          Inl err \<Rightarrow> ((m, c), Inl err)
        | Inr (conf, rpcAddr) \<Rightarrow>
            if \<not> node_starts e conf then ((m, c), Inl NodeFailed)
            else let node = \<lparr>NodeConfig = conf, RPCProxy = NewProxy rpcAddr\<rparr>; h = next_ptr m
                 in ((m\<lparr>next_ptr := Suc h, running := insert h (running m)\<rparr>,
                      c\<lparr>fuddleNodes := (fuddleNodes c)(h \<mapsto> node)\<rparr>), Inr node)))"

text \<open>
  The environment of a member: its uuid, whether its log can be opened (zap.Must panics when it
  cannot), and whether the SDK connects it to the given addresses.
\<close>

record member_env =
  member_uuid :: string
  log_opens :: "string \<Rightarrow> bool"
  connects :: "string list \<Rightarrow> bool"
  rpc_order :: "nat list"

definition AddMemberNode :: "member_env \<Rightarrow> fcm_state \<Rightarrow> fcm_state \<times> (fcm_error + string)" where
  "AddMemberNode e s =
     (case s of (m, c) \<Rightarrow>
       let i = ''member-'' @ take 8 (member_uuid e)
       in if \<not> log_opens e (LogPath c i) then ((m, c), Inl LogPanic)
          else if \<not> connects e (RPCAddrs (rpc_order e) c) then ((m, c), Inl MemberFailed)
          else let h = next_ptr m
               in ((m\<lparr>next_ptr := Suc h, running := insert h (running m)\<rparr>,
                    c\<lparr>memberNodes := (memberNodes c)(h \<mapsto> i)\<rparr>), Inr i))"

subsection \<open>Removing nodes\<close>

text \<open>A random node is the first one the iteration visits.\<close>

definition randomNode :: "nat list \<Rightarrow> (nat \<rightharpoonup> 'v) \<Rightarrow> (nat \<times> 'v) option" where
  "randomNode ks m = (case ks of [] \<Rightarrow> None | k # _ \<Rightarrow> map_option (\<lambda>v. (k, v)) (m k))"

definition RemoveFuddleNode :: "nat list \<Rightarrow> fcm_state \<Rightarrow> fcm_state \<times> string" where
  "RemoveFuddleNode ks s =
     (case s of (m, c) \<Rightarrow>
       (case randomNode ks (fuddleNodes c) of
          None \<Rightarrow> ((m, c), '''')
        | Some (k, node) \<Rightarrow>
            ((m\<lparr>running := running m - {k}\<rparr>, c\<lparr>fuddleNodes := (fuddleNodes c)(k := None)\<rparr>),
             NodeID (NodeConfig node))))"

definition RemoveMemberNode :: "nat list \<Rightarrow> fcm_state \<Rightarrow> fcm_state \<times> string" where
  "RemoveMemberNode ks s =
     (case s of (m, c) \<Rightarrow>
       (case randomNode ks (memberNodes c) of
          None \<Rightarrow> ((m, c), '''')
        | Some (k, i) \<Rightarrow>
            ((m\<lparr>running := running m - {k}\<rparr>, c\<lparr>memberNodes := (memberNodes c)(k := None)\<rparr>), i)))"

text \<open>Shutdown stops every member, then every node.\<close>

definition cluster_Shutdown :: "nat list \<Rightarrow> nat list \<Rightarrow> fcm_cluster \<Rightarrow> machine \<Rightarrow> machine" where
  "cluster_Shutdown mks fks c m =
     fold (\<lambda>k m. m\<lparr>running := running m - {k}\<rparr>) fks
       (fold (\<lambda>k m. m\<lparr>running := running m - {k}\<rparr>) mks m)"

definition DropActiveConns :: "nat list \<Rightarrow> fcm_cluster \<Rightarrow> fcm_cluster" where
  "DropActiveConns ks c = c\<lparr>fuddleNodes := fold (\<lambda>k f. f(k := map_option
     (\<lambda>n. n\<lparr>RPCProxy := Drop (RPCProxy n)\<rparr>) (f k))) ks (fuddleNodes c)\<rparr>"

definition cluster_BlockActiveConns :: "nat list \<Rightarrow> fcm_cluster \<Rightarrow> fcm_cluster" where
  "cluster_BlockActiveConns ks c = c\<lparr>fuddleNodes := fold (\<lambda>k f. f(k := map_option
     (\<lambda>n. n\<lparr>RPCProxy := BlockActiveConns (RPCProxy n)\<rparr>) (f k))) ks (fuddleNodes c)\<rparr>"


subsection \<open>Creating a cluster\<close>

record fcm_options =
  opt_fuddleNodes :: int
  opt_memberNodes :: int
  defaultCluster :: bool
  opt_logDir :: string

definition fcm_defaultOptions :: fcm_options where
  "fcm_defaultOptions = \<lparr>opt_fuddleNodes = 3, opt_memberNodes = 0, defaultCluster = False, opt_logDir = ''''\<rparr>"

datatype fcm_option = WithFuddleNodes int | WithMemberNodes int | WithDefaultCluster | WithLogDir string

fun apply_fcm_option :: "fcm_option \<Rightarrow> fcm_options \<Rightarrow> fcm_options" where
  "apply_fcm_option (WithFuddleNodes n) o' = o'\<lparr>opt_fuddleNodes := n\<rparr>"
| "apply_fcm_option (WithMemberNodes n) o' = o'\<lparr>opt_memberNodes := n\<rparr>"
| "apply_fcm_option WithDefaultCluster o' = o'\<lparr>defaultCluster := True\<rparr>"
| "apply_fcm_option (WithLogDir d) o' = o'\<lparr>opt_logDir := d\<rparr>"

record cluster_env =
  tmp_dir :: string
  id_uuid :: string
  node_envs :: "node_env list"
  member_envs :: "member_env list"

definition add_node_turn :: "node_env \<Rightarrow> fcm_state \<Rightarrow> fcm_state \<times> fcm_error option" where
  "add_node_turn e s = (case AddFuddleNode e s of
     (s', Inl x) \<Rightarrow> (s', Some x) | (s', Inr _) \<Rightarrow> (s', None))"

definition add_member_turn :: "member_env \<Rightarrow> fcm_state \<Rightarrow> fcm_state \<times> fcm_error option" where
  "add_member_turn e s = (case AddMemberNode e s of
     (s', Inl x) \<Rightarrow> (s', Some x) | (s', Inr _) \<Rightarrow> (s', None))"

definition fcm_NewCluster ::
  "fcm_option list \<Rightarrow> cluster_env \<Rightarrow> machine \<Rightarrow> fcm_state \<times> fcm_error loop_result"
where
  "fcm_NewCluster opts e m =
     (let o' = fold apply_fcm_option opts fcm_defaultOptions;
          dir = (if opt_logDir o' = '''' then tmp_dir e else opt_logDir o');
          i = (if defaultCluster o' then ''default'' else take 8 (id_uuid e));
          c = \<lparr>cluster_id = i, fuddleNodes = Map.empty, memberNodes = Map.empty, logDir = dir\<rparr>
      in case count_loop (opt_fuddleNodes o') add_node_turn 0 (node_envs e) (m, c) of
           (s, LoopDone) \<Rightarrow> count_loop (opt_memberNodes o') add_member_turn 0 (member_envs e) s
         | (s, r) \<Rightarrow> (s, r))"

subsection \<open>The manager\<close>

type_synonym manager = "string \<rightharpoonup> fcm_cluster"

definition manager_Get :: "manager \<Rightarrow> string \<Rightarrow> fcm_cluster option" where
  "manager_Get cs i = cs i"

definition manager_Add :: "fcm_cluster \<Rightarrow> manager \<Rightarrow> manager" where
  "manager_Add c cs = cs(cluster_id c \<mapsto> c)"

definition manager_Delete ::
  "nat list \<Rightarrow> nat list \<Rightarrow> string \<Rightarrow> machine \<times> manager \<Rightarrow> (machine \<times> manager) \<times> bool"
where
  "manager_Delete mks fks i s =
     (case s of (m, cs) \<Rightarrow>
       (case cs i of
          None \<Rightarrow> ((m, cs), False)
        | Some c \<Rightarrow> ((cluster_Shutdown mks fks c m, cs(i := None)), True)))"

subsection \<open>Health\<close>

definition membersEqual :: "member2 list \<Rightarrow> member2 list \<Rightarrow> bool" where
  "membersEqual lhs rhs =
     (if length lhs \<noteq> length rhs then False
      else list_all (\<lambda>(a, b). a = b)
        (zip (sort_key (\<lambda>m. MemberId (State m)) lhs) (sort_key (\<lambda>m. MemberId (State m)) rhs)))"

text \<open>
  What is seen at one poll: the nodes each node knows, the order of the range that picks a random
  node and the members it returns, the order of the second range and the members each node returns
  in it, and whether the select that follows takes the deadline.
\<close>

record poll =
  knownNodes :: "nat \<Rightarrow> string list"
  pick_order :: "nat list"
  expectedMembers :: "nat \<Rightarrow> member2 list"
  poll_order :: "nat list"
  nodeMembers :: "nat \<Rightarrow> member2 list"
  expired :: bool

datatype wait_result = StillWaiting | Matched "poll list" | DeadlineExceeded | NilDeref

definition knownNodesMatch :: "nat list \<Rightarrow> fcm_cluster \<Rightarrow> string list \<Rightarrow> bool" where
  "knownNodesMatch ks c known =
     (if length ks \<noteq> length known then False
      else list_all (\<lambda>n. NodeID (NodeConfig n) \<in> set known) (List.map_filter (fuddleNodes c) ks))"

fun waitForNode :: "nat list \<Rightarrow> fcm_cluster \<Rightarrow> nat \<Rightarrow> poll list \<Rightarrow> wait_result" where
  "waitForNode ks c k [] = StillWaiting"
| "waitForNode ks c k (p # ps) =
     (if knownNodesMatch ks c (knownNodes p k) then Matched ps
      else if expired p then DeadlineExceeded
      else waitForNode ks c k ps)"

fun waitForNodeDiscovery :: "nat list \<Rightarrow> fcm_cluster \<Rightarrow> nat list \<Rightarrow> poll list \<Rightarrow> wait_result" where
  "waitForNodeDiscovery ks c [] ps = Matched ps"
| "waitForNodeDiscovery ks c (k # rest) ps =
     (case waitForNode ks c k ps of
        Matched ps' \<Rightarrow> waitForNodeDiscovery ks c rest ps'
      | r \<Rightarrow> r)"

fun waitForRegistryDiscovery :: "fcm_cluster \<Rightarrow> poll list \<Rightarrow> wait_result" where
  "waitForRegistryDiscovery c [] = StillWaiting"
| "waitForRegistryDiscovery c (p # ps) =
     (case randomNode (pick_order p) (fuddleNodes c) of
        None \<Rightarrow> NilDeref
      | Some (k, _) \<Rightarrow>
          if list_all (\<lambda>j. membersEqual (expectedMembers p k) (nodeMembers p j)) (poll_order p)
          then Matched ps
          else if expired p then DeadlineExceeded
          else waitForRegistryDiscovery c ps)"

definition WaitForHealthy :: "nat list \<Rightarrow> fcm_cluster \<Rightarrow> poll list \<Rightarrow> wait_result" where
  "WaitForHealthy ks c ps =
     (case waitForNodeDiscovery ks c ks ps of
        Matched ps' \<Rightarrow> waitForRegistryDiscovery c ps'
      | r \<Rightarrow> r)"

text \<open>\<open>Some (Some b)\<close> is a result, \<open>Some None\<close> a panic, \<open>None\<close> a call that has not returned yet.\<close>

definition Healthy :: "nat list \<Rightarrow> fcm_cluster \<Rightarrow> poll list \<Rightarrow> bool option option" where
  "Healthy ks c ps =
     (case WaitForHealthy ks c ps of
        Matched _ \<Rightarrow> Some (Some True)
      | DeadlineExceeded \<Rightarrow> Some (Some False)
      | NilDeref \<Rightarrow> Some None
      | StillWaiting \<Rightarrow> None)"


subsection \<open>Counting loops\<close>

lemma count_loop_invariant:
  assumes "\<And>e s. P s \<Longrightarrow> P (fst (step e s))" and "P s"
  shows "P (fst (count_loop n step i es s))"
  using assms(2)
proof (induction es arbitrary: i s)
  case Nil
  then show ?case by simp
next
  case (Cons e es)
  have "P (fst (step e s))" by (rule assms(1) [OF Cons.prems])
  then show ?case using Cons by (auto split: prod.splits option.splits)
qed

lemma count_loop_running_zero: "n < i \<Longrightarrow> in_int64 n \<Longrightarrow> in_int64 i \<Longrightarrow>
   (n - i) mod 2 ^ 64 = n - i + 2 ^ 64"
proof -
  assume "n < i" "in_int64 n" "in_int64 i"
  then have "(n - i + 2 ^ 64) mod 2 ^ 64 = n - i + 2 ^ 64"
    by (intro mod_pos_pos_trivial) (auto simp: in_int64_def)
  then show ?thesis by (metis mod_add_self2)
qed

text \<open>The number of turns left, which wraps when the counter is already past the bound.\<close>

definition turns_left :: "int \<Rightarrow> int \<Rightarrow> nat" where
  "turns_left n i = nat ((n - i) mod 2 ^ 64)"

lemma turns_left_zero: "in_int64 n \<Longrightarrow> in_int64 i \<Longrightarrow> turns_left n i = 0 \<longleftrightarrow> i = n"
proof -
  assume a: "in_int64 n" "in_int64 i"
  have nz: "nat x = 0 \<longleftrightarrow> x = 0" if "0 \<le> x" for x using that by auto
  have "turns_left n i = 0 \<longleftrightarrow> (n - i) mod 2 ^ 64 = 0"
    unfolding turns_left_def by (rule nz) simp
  also have "\<dots> \<longleftrightarrow> i = n"
  proof
    assume m: "(n - i) mod 2 ^ 64 = 0"
    then obtain q where q: "n - i = 2 ^ 64 * q" by auto
    have "\<bar>n - i\<bar> < 2 ^ 64" using a by (auto simp: in_int64_def)
    then have "q = 0" unfolding q by (simp add: abs_mult)
    then show "i = n" using q by simp
  qed simp
  finally show ?thesis .
qed

lemma turns_left_step:
  assumes "in_int64 n" "in_int64 i" "i \<noteq> n"
  shows "turns_left n i = Suc (turns_left n (add64 i 1))"
proof -
  have p: "0 < (n - i) mod 2 ^ 64"
    using turns_left_zero [OF assms(1,2)] assms(3)
    by (metis pos_mod_sign turns_left_def nat_0 order_le_less zero_less_numeral zero_less_power)
  have "(n - add64 i 1) mod 2 ^ 64 = ((n - i) - 1) mod 2 ^ 64"
    by (simp add: add64_def wrap64_def mod_simps algebra_simps)
  also have "\<dots> = ((n - i) mod 2 ^ 64 - 1) mod 2 ^ 64" by (simp add: mod_simps)
  also have "\<dots> = (n - i) mod 2 ^ 64 - 1"
    using p pos_mod_bound [of "2 ^ 64" "n - i"] by (intro mod_pos_pos_trivial) auto
  finally show ?thesis using p by (simp add: turns_left_def)
qed

lemma count_loop_turns:
  assumes "in_int64 n" and "\<And>e s. e \<in> set es \<Longrightarrow> snd (step e s) = None"
  shows "in_int64 i \<Longrightarrow>
    snd (count_loop n step i es s) = (if turns_left n i \<le> length es then LoopDone else Running) \<and>
    fst (count_loop n step i es s) = fold (\<lambda>e s. fst (step e s)) (take (turns_left n i) es) s"
  using assms(2)
proof (induction es arbitrary: i s)
  case Nil
  then show ?case using turns_left_zero [OF assms(1) Nil.prems(1)] by auto
next
  case (Cons e es)
  show ?case
  proof (cases "i = n")
    case True
    then show ?thesis using turns_left_zero [OF assms(1) Cons.prems(1)] by auto
  next
    case False
    obtain s' where s': "step e s = (s', None)"
      using Cons.prems(2) [of e s] by (cases "step e s") auto
    have i: "in_int64 (add64 i 1)" by (simp add: add64_def)
    show ?thesis
      using Cons.IH [OF i, of s'] Cons.prems(2) s' False turns_left_step [OF assms(1) Cons.prems(1) False]
      by auto
  qed
qed

subsection \<open>Comparing members\<close>

lemma list_all_zip_eq: "length xs = length ys \<Longrightarrow> list_all (\<lambda>(a, b). a = b) (zip xs ys) \<longleftrightarrow> xs = ys"
  by (induction xs ys rule: list_induct2) auto

lemma membersEqual_set:
  assumes "distinct (map (\<lambda>m. MemberId (State m)) xs)" and "distinct (map (\<lambda>m. MemberId (State m)) ys)"
  shows "membersEqual xs ys \<longleftrightarrow> set xs = set ys"
proof
  let ?f = "\<lambda>m. MemberId (State m)"
  assume "membersEqual xs ys"
  then have "sort_key ?f xs = sort_key ?f ys"
    by (auto simp: membersEqual_def list_all_zip_eq split: if_splits)
  then have "set (sort_key ?f xs) = set (sort_key ?f ys)" by (rule arg_cong)
  then show "set xs = set ys" by simp
next
  let ?f = "\<lambda>m. MemberId (State m)"
  assume s: "set xs = set ys"
  have d: "distinct xs" "distinct ys" using assms by (auto simp: distinct_map)
  then have l: "length xs = length ys" using s by (metis distinct_card)
  have "mset xs = mset ys" using d s by (simp add: set_eq_iff_mset_eq_distinct)
  moreover have "inj_on ?f (set (sort_key ?f ys))" using assms(2) by (simp add: distinct_map)
  ultimately have "sort_key ?f xs = sort_key ?f ys"
    by (intro sort_key_inj_key_eq) (use s in auto)
  then show "membersEqual xs ys" using l by (simp add: membersEqual_def list_all_zip_eq)
qed

text \<open>
  The health check compares registries. For the members of two registries, listed in whatever
  order each map is visited, membersEqual holds exactly when the registries hold the same members.
\<close>
theorem membersEqual_registries:
  assumes "reg_inv ls r" and "reg_inv ls r'" and "iter_order ks (members r)" and "iter_order ks' (members r')"
  shows "membersEqual (Members ks r) (Members ks' r') \<longleftrightarrow> members r = members r'"
proof -
  have sub: "distinct (map (\<lambda>m. MemberId (State m)) (Members ks q)) \<and>
      set (Members ks q) = {m. members q (MemberId (State m)) = Some m}"
    if "reg_inv ls q" "iter_order ks (members q)" for q and ks :: "string list"
  proof
    show "distinct (map (\<lambda>m. MemberId (State m)) (Members ks q))"
      unfolding Members_def
      by (rule map_filter_distinct_key) (use that reg_inv_id in \<open>auto dest: iter_order_distinct\<close>)
    show "set (Members ks q) = {m. members q (MemberId (State m)) = Some m}"
      using that reg_inv_id [OF that(1)] iter_order_mem [OF that(2)]
      by (force simp: Members_def set_map_filter)
  qed
  note s = sub [OF assms(1,3)] sub [OF assms(2,4)]
  have "membersEqual (Members ks r) (Members ks' r') \<longleftrightarrow> set (Members ks r) = set (Members ks' r')"
    using s by (intro membersEqual_set) auto
  also have "\<dots> \<longleftrightarrow> members r = members r'"
  proof
    assume e: "set (Members ks r) = set (Members ks' r')"
    have key: "members r i = Some m \<longleftrightarrow> members r' i = Some m" for i m
      using e s reg_inv_id [OF assms(1), of i m] reg_inv_id [OF assms(2), of i m] by auto
    show "members r = members r'"
    proof
      fix i
      show "members r i = members r' i" using key [of i] by (metis not_None_eq)
    qed
  qed (use s in simp)
  finally show ?thesis .
qed


theorem membersEqual_registries_witness:
  "\<not> membersEqual (Members [''m''] sample_registry) (Members [] (NewRegistry sample_text 0 ''n2'' []))"
proof -
  let ?r = "NewRegistry sample_text 0 ''n2'' []"
  have e: "members ?r = Map.empty"
    using members_NewRegistry_plain [where clk = 0 and opts = "[]" and ls = sample_text and lid = "''n2''"]
    by (simp add: defaultOptions_def)
  have "membersEqual (Members [''m''] sample_registry) (Members [] ?r) \<longleftrightarrow>
      members sample_registry = members ?r"
    by (rule membersEqual_registries [OF sample_registry_inv reg_inv_NewRegistry])
      (simp_all add: iter_order_def e)
  then show ?thesis by (simp add: e)
qed


subsection \<open>The health check\<close>

definition expiries :: "poll list \<Rightarrow> nat" where
  "expiries ps = length (filter expired ps)"

lemma expiries_simps [simp]:
  "expiries [] = 0" "expiries (p # ps) = (if expired p then 1 else 0) + expiries ps"
  by (simp_all add: expiries_def)

lemma waitForNode_progress:
  "waitForNode ks c k ps = StillWaiting \<Longrightarrow> expiries ps = 0"
  "waitForNode ks c k ps = Matched ps' \<Longrightarrow> expiries ps \<le> Suc (expiries ps')"
  "waitForNode ks c k ps \<noteq> NilDeref"
  by (induction ps) (auto split: if_splits)

lemma waitForNode_matched:
  "waitForNode ks c k ps = Matched ps' \<Longrightarrow>
     (\<exists>p \<in> set ps. knownNodesMatch ks c (knownNodes p k)) \<and> set ps' \<subseteq> set ps"
  by (induction ps) (auto split: if_splits)

lemma waitForNodeDiscovery_progress:
  "waitForNodeDiscovery ks c ns ps = StillWaiting \<Longrightarrow> expiries ps \<le> length ns"
  "waitForNodeDiscovery ks c ns ps = Matched ps' \<Longrightarrow> expiries ps \<le> length ns + expiries ps'"
  "waitForNodeDiscovery ks c ns ps \<noteq> NilDeref"
proof (induction ns arbitrary: ps)
  case (Cons k ns)
  {
    case 1
    then show ?case
      using Cons.IH(1) waitForNode_progress [of ks c k ps] by (fastforce split: wait_result.splits)
  next
    case 2
    then show ?case
      using Cons.IH(2) waitForNode_progress [of ks c k ps] by (fastforce split: wait_result.splits)
  next
    case 3
    then show ?case
      using Cons.IH(3) waitForNode_progress(3) [of ks c k ps] by (auto split: wait_result.splits)
  }
qed auto

lemma waitForNodeDiscovery_matched:
  "waitForNodeDiscovery ks c ns ps = Matched ps' \<Longrightarrow>
     (\<forall>k \<in> set ns. \<exists>p \<in> set ps. knownNodesMatch ks c (knownNodes p k)) \<and> set ps' \<subseteq> set ps"
proof (induction ns arbitrary: ps)
  case Nil
  then show ?case by simp
next
  case (Cons k ns)
  then obtain ps1 where p1: "waitForNode ks c k ps = Matched ps1"
    "waitForNodeDiscovery ks c ns ps1 = Matched ps'"
    by (auto split: wait_result.splits)
  show ?case
    unfolding list.set ball_simps using waitForNode_matched [OF p1(1)] Cons.IH [OF p1(2)] by blast
qed

lemma waitForRegistryDiscovery_waiting:
  "waitForRegistryDiscovery c ps = StillWaiting \<Longrightarrow> expiries ps = 0"
  by (induction ps) (auto split: if_splits option.splits)

lemma waitForRegistryDiscovery_matched:
  "waitForRegistryDiscovery c ps = Matched ps' \<Longrightarrow>
     \<exists>p \<in> set ps. \<exists>k. k \<in> dom (fuddleNodes c) \<and>
       (\<forall>j \<in> set (poll_order p). membersEqual (expectedMembers p k) (nodeMembers p j))"
  by (induction ps) (auto simp: randomNode_def list_all_iff split: if_splits option.splits list.splits)

lemma waitForRegistryDiscovery_nil:
  "waitForRegistryDiscovery c ps = NilDeref \<Longrightarrow> \<exists>p \<in> set ps. randomNode (pick_order p) (fuddleNodes c) = None"
  by (induction ps) (auto split: if_splits option.splits)

lemma knownNodesMatch_ids:
  assumes "iter_order ks (fuddleNodes c)"
  shows "knownNodesMatch ks c known \<longleftrightarrow> length known = card (dom (fuddleNodes c)) \<and>
    (\<forall>k n. fuddleNodes c k = Some n \<longrightarrow> NodeID (NodeConfig n) \<in> set known)"
proof -
  have "length ks = card (dom (fuddleNodes c))"
    using assms distinct_card [of ks] by (simp add: iter_order_def)
  then show ?thesis
    using iter_order_mem [OF assms] by (auto simp: knownNodesMatch_def list_all_iff set_map_filter)
qed

text \<open>
  C27: the health check of a cluster with nodes. It never panics; once the deadline has been seen
  more often than there are nodes it has returned; and when it answers that the cluster is healthy
  then every node has been seen knowing as many nodes as the cluster has and all of them by id, and
  at one poll every node returned the members that a node of the cluster returned.
\<close>
theorem healthy_sound:
  assumes "iter_order ks (fuddleNodes c)" and "fuddleNodes c \<noteq> Map.empty"
    and "\<forall>p \<in> set ps. iter_order (pick_order p) (fuddleNodes c) \<and> iter_order (poll_order p) (fuddleNodes c)"
  shows "Healthy ks c ps \<noteq> Some None \<and>
    (card (dom (fuddleNodes c)) < expiries ps \<longrightarrow> Healthy ks c ps \<noteq> None) \<and>
    (Healthy ks c ps = Some (Some True) \<longrightarrow>
       (\<forall>k \<in> dom (fuddleNodes c). \<exists>p \<in> set ps. length (knownNodes p k) = card (dom (fuddleNodes c)) \<and>
          (\<forall>j n. fuddleNodes c j = Some n \<longrightarrow> NodeID (NodeConfig n) \<in> set (knownNodes p k))) \<and>
       (\<exists>p \<in> set ps. \<exists>k \<in> dom (fuddleNodes c). \<forall>j \<in> dom (fuddleNodes c).
          membersEqual (expectedMembers p k) (nodeMembers p j)))"
proof -
  let ?D = "dom (fuddleNodes c)"
  have lk: "length ks = card ?D" and sk: "set ks = ?D"
    using assms(1) distinct_card [of ks] by (auto simp: iter_order_def)
  have pick: "randomNode (pick_order p) (fuddleNodes c) \<noteq> None" if "p \<in> set ps" for p
  proof -
    have io: "iter_order (pick_order p) (fuddleNodes c)" using assms(3) that by blast
    then have "set (pick_order p) \<noteq> {}" using assms(2) by (simp add: iter_order_def dom_eq_empty_conv)
    then obtain k r where k: "pick_order p = k # r" by (cases "pick_order p") auto
    then have "\<exists>v. fuddleNodes c k = Some v" using iter_order_mem [OF io, of k] by simp
    then show ?thesis using k by (auto simp: randomNode_def)
  qed
  note sub = waitForNodeDiscovery_matched [of ks c ks ps]
  have "Healthy ks c ps \<noteq> Some None"
    using waitForNodeDiscovery_progress(3) [of ks c ks ps] sub waitForRegistryDiscovery_nil pick
    by (fastforce simp: Healthy_def WaitForHealthy_def split: wait_result.splits)
  moreover have "Healthy ks c ps \<noteq> None" if "card ?D < expiries ps"
    using that lk waitForNodeDiscovery_progress(1,2) [of ks c ks ps] waitForRegistryDiscovery_waiting
    by (fastforce simp: Healthy_def WaitForHealthy_def split: wait_result.splits)
  moreover have "(\<forall>k \<in> ?D. \<exists>p \<in> set ps. knownNodesMatch ks c (knownNodes p k)) \<and>
      (\<exists>p \<in> set ps. \<exists>k \<in> ?D. \<forall>j \<in> ?D. membersEqual (expectedMembers p k) (nodeMembers p j))"
    if h: "Healthy ks c ps = Some (Some True)"
  proof -
    obtain ps1 ps2 where p: "waitForNodeDiscovery ks c ks ps = Matched ps1"
      "waitForRegistryDiscovery c ps1 = Matched ps2"
      using h by (auto simp: Healthy_def WaitForHealthy_def split: wait_result.splits)
    have s: "set ps1 \<subseteq> set ps" using sub [OF p(1)] by blast
    obtain q k where q: "q \<in> set ps1" "k \<in> ?D"
      "\<forall>j \<in> set (poll_order q). membersEqual (expectedMembers q k) (nodeMembers q j)"
      using waitForRegistryDiscovery_matched [OF p(2)] by blast
    have "set (poll_order q) = ?D" using assms(3) q(1) s by (auto dest!: subsetD iter_order_set)
    then show ?thesis using sub [OF p(1)] q s sk by blast
  qed
  ultimately show ?thesis unfolding knownNodesMatch_ids [OF assms(1)] by blast
qed


text \<open>A cluster of one node, and a poll at which it knows itself and one member.\<close>

definition sample_node :: fuddle_node where
  "sample_node = \<lparr>NodeConfig = DefaultConfig ''01234567'', RPCProxy = NewProxy ''t''\<rparr>"

definition sample_fcm :: fcm_cluster where
  "sample_fcm = \<lparr>cluster_id = ''c'', fuddleNodes = [0 \<mapsto> sample_node], memberNodes = Map.empty, logDir = ''d''\<rparr>"

definition sample_poll :: poll where
  "sample_poll = \<lparr>knownNodes = (\<lambda>_. [''fuddle-01234567'']), pick_order = [0],
     expectedMembers = (\<lambda>_. [sample_member ''m'' Liveness_UP ''n1'' 100 0]), poll_order = [0],
     nodeMembers = (\<lambda>_. [sample_member ''m'' Liveness_UP ''n1'' 100 0]), expired = True\<rparr>"

lemmas sample_fcm_defs = sample_fcm_def sample_node_def sample_poll_def DefaultConfig_def

theorem healthy_sound_witness:
  "Healthy [0] sample_fcm [sample_poll, sample_poll] = Some (Some True) \<and>
   (\<exists>p \<in> set [sample_poll, sample_poll]. \<exists>k \<in> dom (fuddleNodes sample_fcm). \<forall>j \<in> dom (fuddleNodes sample_fcm).
      membersEqual (expectedMembers p k) (nodeMembers p j))"
proof -
  have h: "Healthy [0] sample_fcm [sample_poll, sample_poll] = Some (Some True)"
    by (simp add: Healthy_def WaitForHealthy_def knownNodesMatch_def randomNode_def membersEqual_def
        sample_fcm_defs)
  have "iter_order [0] (fuddleNodes sample_fcm)" "fuddleNodes sample_fcm \<noteq> Map.empty"
    by (simp_all add: sample_fcm_def iter_order_def)
  then show ?thesis
    using healthy_sound [of "[0]" sample_fcm "[sample_poll, sample_poll]"] h
    by (simp add: sample_poll_def)
qed


subsection \<open>Well-formed clusters\<close>

definition cluster_nodes :: "fcm_cluster \<Rightarrow> nat set" where
  "cluster_nodes c = dom (fuddleNodes c) \<union> dom (memberNodes c)"

definition fcm_inv :: "fcm_state \<Rightarrow> bool" where
  "fcm_inv s \<longleftrightarrow>
     cluster_nodes (snd s) \<subseteq> running (fst s) \<and> (\<forall>k \<in> running (fst s). k < next_ptr (fst s)) \<and>
     finite (running (fst s)) \<and>
     (\<forall>k. fuddleNodes (snd s) k = None \<or> memberNodes (snd s) k = None) \<and>
     (\<forall>k n. fuddleNodes (snd s) k = Some n \<longrightarrow>
        in_int64 (gossip_AdvPort (Gossip (NodeConfig n))) \<and> in_int64 (rpc_AdvPort (RPC (NodeConfig n))))"

text \<open>What a step may do to the process: give the cluster nodes at new addresses and stop nodes of the
  cluster, with every other running node left alone.\<close>

definition own_change :: "fcm_state \<Rightarrow> fcm_state \<Rightarrow> bool" where
  "own_change s s' \<longleftrightarrow>
     next_ptr (fst s) \<le> next_ptr (fst s') \<and> cluster_id (snd s') = cluster_id (snd s) \<and>
     cluster_nodes (snd s') \<subseteq> cluster_nodes (snd s) \<union> {next_ptr (fst s)..} \<and>
     running (fst s') - cluster_nodes (snd s') = running (fst s) - cluster_nodes (snd s)"

lemma own_change_refl [simp, intro]: "own_change s s"
  by (auto simp: own_change_def)

lemma own_change_trans: "own_change s s1 \<Longrightarrow> own_change s1 s2 \<Longrightarrow> own_change s s2"
  unfolding own_change_def by force

lemma listen_all_ports:
  assumes "listen_all e c = Inr (conf, rpcAddr)"
  shows "\<exists>g r p a pa. gossipTCPLn e = Some g \<and> rpcLn e = Some rpcAddr \<and> proxyLn e = Some pa \<and>
    parseAddrPort g = Some (gossip_AdvPort (Gossip conf)) \<and> parseAddrPort pa = Some (rpc_AdvPort (RPC conf)) \<and>
    parseAddrPort rpcAddr = Some (rpc_BindPort (RPC conf)) \<and>
    gossip_BindPort (Gossip conf) = gossip_AdvPort (Gossip conf) \<and>
    NodeID conf = ''fuddle-'' @ take 8 (node_uuid e) \<and> rpc_AdvAddr (RPC conf) = ''127.0.0.1'' \<and>
    gossip_Seeds (Gossip conf) = GossipAddrs (gossip_order e) c"
  using assms
  by (auto simp: listen_all_def and_then_def listen_addr_def addr_port_def fcm_node_config_def
      DefaultConfig_def Let_def split: sum.splits option.splits if_splits)

lemma AddFuddleNode_cases:
  assumes "AddFuddleNode e (m, c) = (s', r)"
  obtains (failed) x where "r = Inl x" "s' = (m, c)"
  | (added) conf a where "listen_all e c = Inr (conf, a)" "node_starts e conf"
      "r = Inr \<lparr>NodeConfig = conf, RPCProxy = NewProxy a\<rparr>"
      "s' = (m\<lparr>next_ptr := Suc (next_ptr m), running := insert (next_ptr m) (running m)\<rparr>,
        c\<lparr>fuddleNodes := (fuddleNodes c)(next_ptr m \<mapsto> \<lparr>NodeConfig = conf, RPCProxy = NewProxy a\<rparr>)\<rparr>)"
  using assms by (auto simp: AddFuddleNode_def Let_def split: sum.splits if_splits prod.splits)

lemma AddMemberNode_cases:
  assumes "AddMemberNode e (m, c) = (s', r)"
  obtains (failed) x where "r = Inl x" "s' = (m, c)"
  | (added) "r = Inr (''member-'' @ take 8 (member_uuid e))"
      "s' = (m\<lparr>next_ptr := Suc (next_ptr m), running := insert (next_ptr m) (running m)\<rparr>,
        c\<lparr>memberNodes := (memberNodes c)(next_ptr m \<mapsto> ''member-'' @ take 8 (member_uuid e))\<rparr>)"
  using assms by (auto simp: AddMemberNode_def Let_def split: if_splits)

lemma fcm_inv_fresh:
  assumes "fcm_inv (m, c)"
  shows "next_ptr m \<notin> dom (fuddleNodes c)" "next_ptr m \<notin> dom (memberNodes c)" "next_ptr m \<notin> running m"
  using assms by (auto simp: fcm_inv_def cluster_nodes_def)

lemma fcm_inv_ports:
  "fcm_inv (m, c) \<Longrightarrow> fuddleNodes c k = Some n \<Longrightarrow>
     in_int64 (gossip_AdvPort (Gossip (NodeConfig n))) \<and> in_int64 (rpc_AdvPort (RPC (NodeConfig n)))"
  unfolding fcm_inv_def snd_conv by blast

lemma fcm_inv_disjoint:
  assumes "fcm_inv (m, c)"
  shows "fuddleNodes c k = Some v \<Longrightarrow> memberNodes c k = None"
    "memberNodes c k = Some w \<Longrightarrow> fuddleNodes c k = None"
proof -
  have "fuddleNodes c k = None \<or> memberNodes c k = None"
    using assms unfolding fcm_inv_def by simp
  then show "fuddleNodes c k = Some v \<Longrightarrow> memberNodes c k = None"
    "memberNodes c k = Some w \<Longrightarrow> fuddleNodes c k = None" by auto
qed

text \<open>A node started for the cluster at a fresh address.\<close>

lemma grow_inv:
  assumes "fcm_inv (m, c)" and "cluster_nodes c' = insert (next_ptr m) (cluster_nodes c)"
    and "cluster_id c' = cluster_id c"
    and "\<forall>k. fuddleNodes c' k = None \<or> memberNodes c' k = None"
    and "\<forall>k n. fuddleNodes c' k = Some n \<longrightarrow>
        in_int64 (gossip_AdvPort (Gossip (NodeConfig n))) \<and> in_int64 (rpc_AdvPort (RPC (NodeConfig n)))"
  shows "fcm_inv (m\<lparr>next_ptr := Suc (next_ptr m), running := insert (next_ptr m) (running m)\<rparr>, c') \<and>
    own_change (m, c) (m\<lparr>next_ptr := Suc (next_ptr m), running := insert (next_ptr m) (running m)\<rparr>, c')"
proof -
  have r: "cluster_nodes c \<subseteq> running m" "\<forall>k \<in> running m. k < next_ptr m" "finite (running m)"
    using assms(1) by (simp_all add: fcm_inv_def)
  then have "insert (next_ptr m) (running m) - insert (next_ptr m) (cluster_nodes c) =
      running m - cluster_nodes c" by blast
  then have "own_change (m, c)
      (m\<lparr>next_ptr := Suc (next_ptr m), running := insert (next_ptr m) (running m)\<rparr>, c')"
    using assms(2,3) by (auto simp: own_change_def)
  moreover have "insert (next_ptr m) (cluster_nodes c) \<subseteq> insert (next_ptr m) (running m)"
    using r(1) by blast
  moreover have "\<forall>k \<in> insert (next_ptr m) (running m). k < Suc (next_ptr m)"
    using r(2) by (auto simp: less_Suc_eq)
  ultimately show ?thesis
    using assms(2,4,5) r(3) by (simp add: fcm_inv_def)
qed

lemma AddFuddleNode_inv:
  assumes "fcm_inv s"
  shows "fcm_inv (fst (AddFuddleNode e s)) \<and> own_change s (fst (AddFuddleNode e s))"
proof -
  obtain m c where s: "s = (m, c)" by (cases s)
  obtain s' r where a: "AddFuddleNode e (m, c) = (s', r)" by (cases "AddFuddleNode e (m, c)")
  from a show ?thesis
  proof (cases rule: AddFuddleNode_cases)
    case (failed x)
    then show ?thesis using a assms s by simp
  next
    case (added conf p)
    have i: "fcm_inv (m, c)" using assms s by simp
    have p: "in_int64 (gossip_AdvPort (Gossip conf))" "in_int64 (rpc_AdvPort (RPC conf))"
      using listen_all_ports [OF added(1)] by (auto dest: parseAddrPort_int64)
    let ?c = "c\<lparr>fuddleNodes := (fuddleNodes c)(next_ptr m \<mapsto> \<lparr>NodeConfig = conf, RPCProxy = NewProxy p\<rparr>)\<rparr>"
    have "\<forall>k. fuddleNodes ?c k = None \<or> memberNodes ?c k = None"
      using i fcm_inv_fresh(2) [OF i] by (simp add: fcm_inv_def domIff)
    moreover have "\<forall>k n. fuddleNodes ?c k = Some n \<longrightarrow>
        in_int64 (gossip_AdvPort (Gossip (NodeConfig n))) \<and> in_int64 (rpc_AdvPort (RPC (NodeConfig n)))"
      by (simp add: p fcm_inv_ports [OF i])
    moreover have "cluster_nodes ?c = insert (next_ptr m) (cluster_nodes c)"
      by (simp add: cluster_nodes_def)
    ultimately show ?thesis
      using grow_inv [OF i, of ?c] added(4) a s by simp
  qed
qed

lemma AddMemberNode_inv:
  assumes "fcm_inv s"
  shows "fcm_inv (fst (AddMemberNode e s)) \<and> own_change s (fst (AddMemberNode e s))"
proof -
  obtain m c where s: "s = (m, c)" by (cases s)
  obtain s' r where a: "AddMemberNode e (m, c) = (s', r)" by (cases "AddMemberNode e (m, c)")
  from a show ?thesis
  proof (cases rule: AddMemberNode_cases)
    case (failed x)
    then show ?thesis using a assms s by simp
  next
    case added
    have i: "fcm_inv (m, c)" using assms s by simp
    let ?c = "c\<lparr>memberNodes := (memberNodes c)(next_ptr m \<mapsto> ''member-'' @ take 8 (member_uuid e))\<rparr>"
    have "\<forall>k. fuddleNodes ?c k = None \<or> memberNodes ?c k = None"
      using i fcm_inv_fresh(1) [OF i] by (simp add: fcm_inv_def domIff)
    then show ?thesis
      using grow_inv [OF i, of ?c] added(2) a s i by (simp add: cluster_nodes_def fcm_inv_def)
  qed
qed

lemma randomNode_some: "randomNode ks f = Some (k, v) \<Longrightarrow> f k = Some v"
  by (auto simp: randomNode_def split: list.splits)

lemma RemoveFuddleNode_inv:
  assumes "fcm_inv s"
  shows "fcm_inv (fst (RemoveFuddleNode ks s)) \<and> own_change s (fst (RemoveFuddleNode ks s))"
proof -
  obtain m c where s: "s = (m, c)" by (cases s)
  show ?thesis
  proof (cases "randomNode ks (fuddleNodes c)")
    case None
    then show ?thesis using assms s by (simp add: RemoveFuddleNode_def)
  next
    case (Some kv)
    obtain k v where kv: "kv = (k, v)" by (cases kv)
    have "fuddleNodes c k = Some v" by (rule randomNode_some) (use Some kv in simp)
    moreover then have "memberNodes c k = None" using assms s fcm_inv_disjoint(1) by blast
    ultimately show ?thesis
      using assms s Some kv
      by (auto simp: RemoveFuddleNode_def fcm_inv_def own_change_def cluster_nodes_def)
  qed
qed

lemma RemoveMemberNode_inv:
  assumes "fcm_inv s"
  shows "fcm_inv (fst (RemoveMemberNode ks s)) \<and> own_change s (fst (RemoveMemberNode ks s))"
proof -
  obtain m c where s: "s = (m, c)" by (cases s)
  show ?thesis
  proof (cases "randomNode ks (memberNodes c)")
    case None
    then show ?thesis using assms s by (simp add: RemoveMemberNode_def)
  next
    case (Some kv)
    obtain k v where kv: "kv = (k, v)" by (cases kv)
    have "memberNodes c k = Some v" by (rule randomNode_some) (use Some kv in simp)
    moreover then have "fuddleNodes c k = None" using assms s fcm_inv_disjoint(2) by blast
    ultimately show ?thesis
      using assms s Some kv
      by (auto simp: RemoveMemberNode_def fcm_inv_def own_change_def cluster_nodes_def)
  qed
qed

end
