(* ===== verification/FcmServer.thy ===== *)
theory FcmServer
  imports FcmCluster
begin

text \<open>
  pkg/fcm/server/server.go and pkg/fcm/fcm.go: the HTTP handlers of the cluster manager, one
  function on the process and its clusters per handler. The decoded body of a request is an option
  (None when it does not decode); a reply is its status and the value that is encoded, a panic of
  the handler, or no reply yet. Encoding a reply does not fail for the types used here.
  The HTTP library runs each handler in a goroutine of its own, and they hold no lock on a cluster
  (cluster.go says so): here a request is served as a whole before the next.
\<close>

datatype 'b reply = HttpOK 'b | HttpError nat | HandlerPanic | NoReply

abbreviation bad_request :: "'b reply" where "bad_request \<equiv> HttpError 400"
abbreviation not_found :: "'b reply" where "not_found \<equiv> HttpError 404"
abbreviation internal_error :: "'b reply" where "internal_error \<equiv> HttpError 500"

record node_response =
  nr_ID :: string
  nr_RPCAddr :: string
  nr_AdminAddr :: string
  nr_LogPath :: string

record member_response =
  mr_ID :: string
  mr_LogPath :: string

record cluster_response =
  cr_ID :: string
  cr_Nodes :: "node_response list"
  cr_Members :: "member_response list"

record nodes_response =
  ns_Nodes :: "node_response list"
  ns_Members :: "member_response list"

record prom_target =
  Targets :: "string list"
  PromLabels :: "(string \<times> string) list"

text \<open>The body of a request to create a cluster or to add or remove nodes.\<close>

record count_request =
  req_Nodes :: int
  req_Members :: int

text \<open>The process, and the clusters of its manager.\<close>

type_synonym fcm_world = "machine \<times> manager"

subsection \<open>Handlers\<close>

definition node_info :: "fcm_cluster \<Rightarrow> fuddle_node \<Rightarrow> node_response" where
  "node_info c n = \<lparr>nr_ID = NodeID (NodeConfig n), nr_RPCAddr = rpc_JoinAdvAddr (RPC (NodeConfig n)),
     nr_AdminAddr = admin_JoinAdvAddr (Admin (NodeConfig n)), nr_LogPath = LogPath c (NodeID (NodeConfig n))\<rparr>"

definition member_info :: "fcm_cluster \<Rightarrow> string \<Rightarrow> member_response" where
  "member_info c i = \<lparr>mr_ID = i, mr_LogPath = LogPath c i\<rparr>"

definition cluster_info :: "nat list \<Rightarrow> nat list \<Rightarrow> fcm_cluster \<Rightarrow> cluster_response" where
  "cluster_info fks mks c = \<lparr>cr_ID = cluster_id c, cr_Nodes = map (node_info c) (FuddleNodes fks c),
     cr_Members = map (member_info c) (MemberNodes mks c)\<rparr>"

definition failure_reply :: "fcm_error loop_result \<Rightarrow> 'b reply \<Rightarrow> 'b reply" where
  "failure_reply r ok = (case r of
     LoopDone \<Rightarrow> ok | Running \<Rightarrow> NoReply
   | Failed x \<Rightarrow> if x = LogPanic then HandlerPanic else internal_error)"

definition createCluster ::
  "count_request option \<Rightarrow> cluster_env \<Rightarrow> nat list \<Rightarrow> nat list \<Rightarrow> fcm_world \<Rightarrow>
     fcm_world \<times> cluster_response reply"
where
  "createCluster body e fks mks w =
     (case body of
        None \<Rightarrow> (w, bad_request)
      | Some req \<Rightarrow>
          (case fcm_NewCluster [WithFuddleNodes (req_Nodes req), WithMemberNodes (req_Members req)] e (fst w) of
             ((m, c), r) \<Rightarrow>
               ((m, if r = LoopDone then manager_Add c (snd w) else snd w),
                failure_reply r (HttpOK (cluster_info fks mks c)))))"

definition describeCluster ::
  "string \<Rightarrow> nat list \<Rightarrow> nat list \<Rightarrow> fcm_world \<Rightarrow> fcm_world \<times> cluster_response reply"
where
  "describeCluster i fks mks w =
     (case manager_Get (snd w) i of
        None \<Rightarrow> (w, not_found)
      | Some c \<Rightarrow> (w, HttpOK (cluster_info fks mks c)))"

definition clusterHealth :: "string \<Rightarrow> nat list \<Rightarrow> poll list \<Rightarrow> fcm_world \<Rightarrow> fcm_world \<times> bool reply" where
  "clusterHealth i fks ps w =
     (case manager_Get (snd w) i of
        None \<Rightarrow> (w, not_found)
      | Some c \<Rightarrow> (w, case Healthy fks c ps of
            None \<Rightarrow> NoReply
          | Some None \<Rightarrow> HandlerPanic
          | Some (Some b) \<Rightarrow> HttpOK b))"

definition deleteCluster :: "string \<Rightarrow> nat list \<Rightarrow> nat list \<Rightarrow> fcm_world \<Rightarrow> fcm_world \<times> unit reply" where
  "deleteCluster i mks fks w =
     (case manager_Delete mks fks i w of
        (w', found) \<Rightarrow> if \<not> found then (w', HttpOK ()) else (w', HttpOK ()))"

definition add_node_reply ::
  "node_env \<Rightarrow> fcm_state \<times> nodes_response \<Rightarrow> (fcm_state \<times> nodes_response) \<times> fcm_error option"
where
  "add_node_reply e sr =
     (case AddFuddleNode e (fst sr) of
        (s', Inl x) \<Rightarrow> ((s', snd sr), Some x)
      | (s', Inr n) \<Rightarrow>
          ((s', (snd sr)\<lparr>ns_Nodes := ns_Nodes (snd sr) @ [node_info (snd s') n]\<rparr>), None))"

definition add_member_reply ::
  "member_env \<Rightarrow> fcm_state \<times> nodes_response \<Rightarrow> (fcm_state \<times> nodes_response) \<times> fcm_error option"
where
  "add_member_reply e sr =
     (case AddMemberNode e (fst sr) of
        (s', Inl x) \<Rightarrow> ((s', snd sr), Some x)
      | (s', Inr i) \<Rightarrow>
          ((s', (snd sr)\<lparr>ns_Members := ns_Members (snd sr) @ [member_info (snd s') i]\<rparr>), None))"

definition no_nodes_response :: nodes_response where
  "no_nodes_response = \<lparr>ns_Nodes = [], ns_Members = []\<rparr>"

text \<open>The cluster in the manager is a pointer: what a handler did to it stays when it fails.\<close>

definition addNodes ::
  "string \<Rightarrow> count_request option \<Rightarrow> node_env list \<Rightarrow> member_env list \<Rightarrow> fcm_world \<Rightarrow>
     fcm_world \<times> nodes_response reply"
where
  "addNodes i body nes mes w =
     (case manager_Get (snd w) i of
        None \<Rightarrow> (w, not_found)
      | Some c \<Rightarrow>
          (case body of
             None \<Rightarrow> (w, bad_request)
           | Some req \<Rightarrow>
               let (sr, r) = (case count_loop (req_Nodes req) add_node_reply 0 nes ((fst w, c), no_nodes_response) of
                     (sr, LoopDone) \<Rightarrow> count_loop (req_Members req) add_member_reply 0 mes sr
                   | (sr, r) \<Rightarrow> (sr, r))
               in ((fst (fst sr), (snd w)(i \<mapsto> snd (fst sr))), failure_reply r (HttpOK (snd sr)))))"

definition remove_node_reply ::
  "nat list \<Rightarrow> fcm_state \<times> nodes_response \<Rightarrow> (fcm_state \<times> nodes_response) \<times> fcm_error option"
where
  "remove_node_reply ks sr =
     (case RemoveFuddleNode ks (fst sr) of
        (s', i) \<Rightarrow>
          ((s', if i \<noteq> '''' then (snd sr)\<lparr>ns_Nodes := ns_Nodes (snd sr) @
              [\<lparr>nr_ID = i, nr_RPCAddr = '''', nr_AdminAddr = '''', nr_LogPath = ''''\<rparr>]\<rparr> else snd sr), None))"

definition remove_member_reply ::
  "nat list \<Rightarrow> fcm_state \<times> nodes_response \<Rightarrow> (fcm_state \<times> nodes_response) \<times> fcm_error option"
where
  "remove_member_reply ks sr =
     (case RemoveMemberNode ks (fst sr) of
        (s', i) \<Rightarrow>
          ((s', if i \<noteq> '''' then (snd sr)\<lparr>ns_Members := ns_Members (snd sr) @
              [\<lparr>mr_ID = i, mr_LogPath = ''''\<rparr>]\<rparr> else snd sr), None))"

text \<open>\<open>fkss\<close> and \<open>mkss\<close> are the orders in which each random pick visits the nodes and members.\<close>

definition removeNodes ::
  "string \<Rightarrow> count_request option \<Rightarrow> nat list list \<Rightarrow> nat list list \<Rightarrow> fcm_world \<Rightarrow>
     fcm_world \<times> nodes_response reply"
where
  "removeNodes i body fkss mkss w =
     (case manager_Get (snd w) i of
        None \<Rightarrow> (w, not_found)
      | Some c \<Rightarrow>
          (case body of
             None \<Rightarrow> (w, bad_request)
           | Some req \<Rightarrow>
               let (sr, r) = (case count_loop (req_Nodes req) remove_node_reply 0 fkss ((fst w, c), no_nodes_response) of
                     (sr, LoopDone) \<Rightarrow> count_loop (req_Members req) remove_member_reply 0 mkss sr
                   | (sr, r) \<Rightarrow> (sr, r))
               in ((fst (fst sr), (snd w)(i \<mapsto> snd (fst sr))), failure_reply r (HttpOK (snd sr)))))"

text \<open>\<open>ids\<close> is the order in which the targets, a map from node ids, are visited.\<close>

definition prom_targets :: "nat list \<Rightarrow> fcm_cluster \<Rightarrow> (string \<rightharpoonup> string)" where
  "prom_targets fks c = fold (\<lambda>n t. t(NodeID (NodeConfig n) \<mapsto> admin_JoinAdvAddr (Admin (NodeConfig n))))
     (FuddleNodes fks c) Map.empty"

definition clusterPromTargets ::
  "string \<Rightarrow> nat list \<Rightarrow> string list \<Rightarrow> fcm_world \<Rightarrow> fcm_world \<times> prom_target list reply"
where
  "clusterPromTargets i fks ids w =
     (case manager_Get (snd w) i of
        None \<Rightarrow> (w, not_found)
      | Some c \<Rightarrow> (w, HttpOK (List.map_filter (\<lambda>j. map_option (\<lambda>addr.
            \<lparr>Targets = [addr], PromLabels = [(''instance'', j)]\<rparr>) (prom_targets fks c j)) ids)))"

text \<open>Shutdown of the manager; \<open>ord\<close> visits the clusters, with the orders of their members and nodes.\<close>

definition manager_Shutdown :: "(string \<times> nat list \<times> nat list) list \<Rightarrow> fcm_world \<Rightarrow> machine" where
  "manager_Shutdown ord w = fold (\<lambda>(i, mks, fks) m. case snd w i of
     None \<Rightarrow> m | Some c \<Rightarrow> cluster_Shutdown mks fks c m) ord (fst w)"

text \<open>NewFCM up to the start of the server: the default cluster has 3 nodes and 20 members.\<close>

definition NewFCM_clusters ::
  "bool \<Rightarrow> string \<Rightarrow> cluster_env \<Rightarrow> machine \<Rightarrow> fcm_world \<times> fcm_error loop_result"
where
  "NewFCM_clusters default_cluster dir e m =
     (if default_cluster then
        (case fcm_NewCluster [WithFuddleNodes 3, WithMemberNodes 20, WithDefaultCluster, WithLogDir dir] e m of
           ((m', c), LoopDone) \<Rightarrow> ((m', manager_Add c Map.empty), LoopDone)
         | ((m', c), r) \<Rightarrow> ((m', Map.empty), r))
      else ((m, Map.empty), LoopDone))"

subsection \<open>The server as a state machine\<close>

datatype fcm_request =
  Create "count_request option" cluster_env "nat list" "nat list"
| Describe string "nat list" "nat list"
| Health string "nat list" "poll list"
| Delete string "nat list" "nat list"
| Add string "count_request option" "node_env list" "member_env list"
| Remove string "count_request option" "nat list list" "nat list list"
| PromTargets string "nat list" "string list"

fun serve :: "fcm_request \<Rightarrow> fcm_world \<Rightarrow> fcm_world" where
  "serve (Create body e fks mks) w = fst (createCluster body e fks mks w)"
| "serve (Describe i fks mks) w = fst (describeCluster i fks mks w)"
| "serve (Health i fks ps) w = fst (clusterHealth i fks ps w)"
| "serve (Delete i mks fks) w = fst (deleteCluster i mks fks w)"
| "serve (Add i body nes mes) w = fst (addNodes i body nes mes w)"
| "serve (Remove i body fkss mkss) w = fst (removeNodes i body fkss mkss w)"
| "serve (PromTargets i fks ids) w = fst (clusterPromTargets i fks ids w)"


subsection \<open>Loops over a cluster\<close>

lemma count_loop_not_done:
  assumes "in_int64 n"
  shows "in_int64 i \<Longrightarrow> length es < turns_left n i \<Longrightarrow> snd (count_loop n step i es s) \<noteq> LoopDone"
proof (induction es arbitrary: i s)
  case Nil
  then show ?case using turns_left_zero [OF assms Nil.prems(1)] by auto
next
  case (Cons e es)
  then have "i \<noteq> n" using turns_left_zero [OF assms Cons.prems(1)] by auto
  moreover have "in_int64 (add64 i 1)" by (simp add: add64_def)
  ultimately show ?case
    using Cons turns_left_step [OF assms Cons.prems(1)]
    by (auto split: prod.splits option.splits)
qed

lemma turns_left_negative: "n < 0 \<Longrightarrow> in_int64 n \<Longrightarrow> 2 ^ 63 \<le> turns_left n 0"
proof -
  assume n: "n < 0" "in_int64 n"
  have "turns_left n 0 = nat (n + 2 ^ 64)"
    using count_loop_running_zero [OF n(1) n(2)] by (simp add: turns_left_def in_int64_def)
  then show ?thesis using n by (simp add: in_int64_def nat_le_iff le_nat_iff)
qed

text \<open>A state a handler may leave a cluster in, from \<open>s\<close>.\<close>

definition good_change :: "fcm_state \<Rightarrow> fcm_state \<Rightarrow> bool" where
  "good_change s s' \<longleftrightarrow> fcm_inv s' \<and> own_change s s'"

lemma good_change_refl: "fcm_inv s \<Longrightarrow> good_change s s"
  by (simp add: good_change_def)

lemma good_change_step:
  assumes "good_change s0 s" and "fcm_inv s \<Longrightarrow> fcm_inv s' \<and> own_change s s'"
  shows "good_change s0 s'"
  using assms own_change_trans [of s0 s s'] by (simp add: good_change_def)

lemma turn_changes:
  "good_change s0 s \<Longrightarrow> good_change s0 (fst (add_node_turn e s))"
  "good_change s0 s \<Longrightarrow> good_change s0 (fst (add_member_turn e' s))"
  by (auto simp: add_node_turn_def add_member_turn_def split: prod.splits sum.splits
      elim!: good_change_step dest: AddFuddleNode_inv [of _ e] AddMemberNode_inv [of _ e'])

lemma reply_changes:
  "good_change s0 (fst sr) \<Longrightarrow> good_change s0 (fst (fst (add_node_reply e sr)))"
  "good_change s0 (fst sr) \<Longrightarrow> good_change s0 (fst (fst (add_member_reply e' sr)))"
  "good_change s0 (fst sr) \<Longrightarrow> good_change s0 (fst (fst (remove_node_reply ks sr)))"
  "good_change s0 (fst sr) \<Longrightarrow> good_change s0 (fst (fst (remove_member_reply ks sr)))"
  by (auto simp: add_node_reply_def add_member_reply_def remove_node_reply_def remove_member_reply_def
      split: prod.splits sum.splits elim!: good_change_step
      dest: AddFuddleNode_inv [of _ e] AddMemberNode_inv [of _ e'] RemoveFuddleNode_inv [of _ ks]
        RemoveMemberNode_inv [of _ ks])

text \<open>Two loops one after the other, the second only when the first is done.\<close>

lemma two_loops:
  assumes "P s" and "\<And>e s. P s \<Longrightarrow> P (fst (f e s))" and "\<And>e s. P s \<Longrightarrow> P (fst (g e s))"
  shows "P (fst (case count_loop n f i es s of
      (s', LoopDone) \<Rightarrow> count_loop k g i es' s' | (s', r) \<Rightarrow> (s', r)))"
proof -
  obtain s' r where c: "count_loop n f i es s = (s', r)" by (cases "count_loop n f i es s")
  have "P s'" using count_loop_invariant [of P f s n i es] assms(1,2) c by simp
  then show ?thesis
    using count_loop_invariant [of P g s' k i es'] assms(3) c by (cases r) auto
qed

definition new_cluster :: "string \<Rightarrow> string \<Rightarrow> fcm_cluster" where
  "new_cluster i dir = \<lparr>cluster_id = i, fuddleNodes = Map.empty, memberNodes = Map.empty, logDir = dir\<rparr>"

definition machine_ok :: "machine \<Rightarrow> bool" where
  "machine_ok m \<longleftrightarrow> finite (running m) \<and> (\<forall>k \<in> running m. k < next_ptr m)"

lemma fcm_inv_new: "machine_ok m \<Longrightarrow> fcm_inv (m, new_cluster i dir)"
  by (simp add: machine_ok_def fcm_inv_def new_cluster_def cluster_nodes_def)

lemma fcm_inv_machine: "fcm_inv (m, c) \<Longrightarrow> machine_ok m"
  by (simp add: machine_ok_def fcm_inv_def)

lemma fcm_NewCluster_good:
  assumes "machine_ok m" and "fcm_NewCluster opts e m = (s, r)"
  shows "\<exists>i dir. good_change (m, new_cluster i dir) s"
proof -
  let ?o = "fold apply_fcm_option opts fcm_defaultOptions"
  let ?c = "new_cluster (if defaultCluster ?o then ''default'' else take 8 (id_uuid e))
     (if opt_logDir ?o = '''' then tmp_dir e else opt_logDir ?o)"
  have "good_change (m, ?c) (fst (case count_loop (opt_fuddleNodes ?o) add_node_turn 0 (node_envs e) (m, ?c) of
      (s', LoopDone) \<Rightarrow> count_loop (opt_memberNodes ?o) add_member_turn 0 (member_envs e) s'
    | (s', r) \<Rightarrow> (s', r)))"
    by (rule two_loops)
      (auto intro: turn_changes good_change_refl fcm_inv_new [OF assms(1)])
  then have "good_change (m, ?c) s"
    using assms(2) by (simp add: fcm_NewCluster_def Let_def new_cluster_def)
  then show ?thesis by blast
qed


subsection \<open>The invariant of the manager\<close>

definition world_inv :: "fcm_world \<Rightarrow> bool" where
  "world_inv w \<longleftrightarrow> machine_ok (fst w) \<and>
     (\<forall>i c. snd w i = Some c \<longrightarrow> cluster_id c = i \<and> fcm_inv (fst w, c)) \<and>
     (\<forall>i j c d. snd w i = Some c \<longrightarrow> snd w j = Some d \<longrightarrow> i \<noteq> j \<longrightarrow> cluster_nodes c \<inter> cluster_nodes d = {})"

lemma world_inv_lookup:
  assumes "world_inv (m, cs)" and "cs i = Some c"
  shows "cluster_id c = i" "fcm_inv (m, c)" "machine_ok m"
    "\<And>j d. cs j = Some d \<Longrightarrow> i \<noteq> j \<Longrightarrow> cluster_nodes c \<inter> cluster_nodes d = {}"
  using assms unfolding world_inv_def by auto

text \<open>A cluster that changes leaves the others alone.\<close>

lemma good_change_frame:
  assumes "good_change (m, c) (m', c')" and "fcm_inv (m, d)" and "cluster_nodes c \<inter> cluster_nodes d = {}"
  shows "fcm_inv (m', d) \<and> cluster_nodes c' \<inter> cluster_nodes d = {}"
proof -
  have o: "running m' - cluster_nodes c' = running m - cluster_nodes c"
    using assms(1) by (simp add: good_change_def own_change_def)
  have i: "finite (running m')" "\<forall>k \<in> running m'. k < next_ptr m'"
    using assms(1) by (simp_all add: good_change_def fcm_inv_def)
  have "cluster_nodes d \<subseteq> running m" using assms(2) by (simp add: fcm_inv_def)
  then have "cluster_nodes d \<subseteq> running m' - cluster_nodes c'" unfolding o using assms(3) by blast
  then have "cluster_nodes d \<subseteq> running m'" "cluster_nodes c' \<inter> cluster_nodes d = {}" by blast+
  then show ?thesis using i assms(2) unfolding fcm_inv_def by simp
qed

lemma world_inv_update:
  assumes "world_inv (m, cs)" and "good_change (m, c) (m', c')" and "cluster_id c' = i"
    and "\<And>j d. cs j = Some d \<Longrightarrow> j \<noteq> i \<Longrightarrow> cluster_nodes c \<inter> cluster_nodes d = {}"
  shows "world_inv (m', cs(i \<mapsto> c'))"
proof -
  have frame: "fcm_inv (m', d) \<and> cluster_nodes c' \<inter> cluster_nodes d = {}" if "cs j = Some d" "j \<noteq> i" for j d
    using good_change_frame [OF assms(2)] assms(4) [OF that] world_inv_lookup(2) [OF assms(1) that(1)] by blast
  have ic: "fcm_inv (m', c')" using assms(2) by (simp add: good_change_def)
  have own: "cluster_id d = j" if "cs j = Some d" for j d by (rule world_inv_lookup(1) [OF assms(1) that])
  have dis: "cluster_nodes d \<inter> cluster_nodes d' = {}" if "cs j = Some d" "cs k = Some d'" "j \<noteq> k" for j k d d'
    by (rule world_inv_lookup(4) [OF assms(1) that])
  show ?thesis
    unfolding world_inv_def fst_conv snd_conv
  proof (intro conjI allI impI)
    show "machine_ok m'" by (rule fcm_inv_machine [OF ic])
  next
    fix j d assume "(cs(i \<mapsto> c')) j = Some d"
    then show "cluster_id d = j" "fcm_inv (m', d)"
      using own frame ic assms(3) by (auto split: if_splits)
  next
    fix j k d d'
    assume "(cs(i \<mapsto> c')) j = Some d" "(cs(i \<mapsto> c')) k = Some d'" "j \<noteq> k"
    then show "cluster_nodes d \<inter> cluster_nodes d' = {}"
      using frame dis by (cases "j = i"; cases "k = i") (auto simp: Int_commute)
  qed
qed

text \<open>A cluster that never makes it into the manager only leaves nodes running.\<close>

lemma world_inv_orphans:
  assumes "world_inv (m, cs)" and "good_change (m, new_cluster i dir) (m', c')"
  shows "world_inv (m', cs)"
proof -
  have frame: "fcm_inv (m', d)" if "cs j = Some d" for j d
    using good_change_frame [OF assms(2) world_inv_lookup(2) [OF assms(1) that]]
    by (simp add: new_cluster_def cluster_nodes_def)
  have "machine_ok m'" using assms(2) fcm_inv_machine by (auto simp: good_change_def)
  then show ?thesis using frame assms(1) by (auto simp: world_inv_def)
qed

lemma createCluster_inv:
  assumes "world_inv w"
  shows "world_inv (fst (createCluster body e fks mks w))"
proof (cases body)
  case None
  then show ?thesis using assms by (simp add: createCluster_def)
next
  case (Some req)
  obtain m cs where w: "w = (m, cs)" by (cases w)
  obtain m' c' r where c: "fcm_NewCluster [WithFuddleNodes (req_Nodes req), WithMemberNodes (req_Members req)] e m
      = ((m', c'), r)" by (metis prod_cases3 prod.collapse)
  have mo: "machine_ok m" using assms w by (simp add: world_inv_def)
  obtain i dir where g: "good_change (m, new_cluster i dir) (m', c')"
    using fcm_NewCluster_good [OF mo c] by blast
  have "world_inv (m', cs(cluster_id c' \<mapsto> c'))"
    by (rule world_inv_update [OF _ g]) (use assms w in \<open>auto simp: new_cluster_def cluster_nodes_def\<close>)
  moreover have "world_inv (m', cs)" by (rule world_inv_orphans [OF _ g]) (use assms w in simp)
  ultimately show ?thesis using Some w c by (simp add: createCluster_def manager_Add_def)
qed

lemma handler_inv:
  assumes "world_inv (m, cs)" and "cs i = Some c" and "good_change (m, c) s"
  shows "world_inv (fst s, cs(i \<mapsto> snd s))"
proof -
  obtain m' c' where s: "s = (m', c')" by (cases s)
  have "cluster_id c' = i"
    using assms(3) world_inv_lookup(1) [OF assms(1,2)] s by (simp add: good_change_def own_change_def)
  then have "world_inv (m', cs(i \<mapsto> c'))"
    by (rule world_inv_update [OF assms(1) assms(3) [unfolded s]])
      (use world_inv_lookup(4) [OF assms(1,2)] in auto)
  then show ?thesis using s by simp
qed

text \<open>Adding and removing nodes leaves the world alone or changes one cluster.\<close>

definition changes_cluster :: "string \<Rightarrow> fcm_world \<Rightarrow> fcm_world \<Rightarrow> bool" where
  "changes_cluster i w w' \<longleftrightarrow> w' = w \<or>
     (\<exists>c s. snd w i = Some c \<and> good_change (fst w, c) s \<and> w' = (fst s, (snd w)(i \<mapsto> snd s)))"

lemma two_replies_change:
  assumes "fcm_inv (m, c)" and "\<And>e sr. good_change (m, c) (fst sr) \<Longrightarrow> good_change (m, c) (fst (fst (f e sr)))"
    and "\<And>e sr. good_change (m, c) (fst sr) \<Longrightarrow> good_change (m, c) (fst (fst (g e sr)))"
  shows "good_change (m, c) (fst (fst (case count_loop n f 0 es ((m, c), no_nodes_response) of
      (sr, LoopDone) \<Rightarrow> count_loop k g 0 es' sr | (sr, r) \<Rightarrow> (sr, r))))"
  by (rule two_loops [where P = "\<lambda>sr. good_change (m, c) (fst sr)"])
    (use assms good_change_refl in auto)

lemma node_handlers_change:
  assumes "world_inv w"
  shows "changes_cluster i w (fst (addNodes i body nes mes w))"
    "changes_cluster i w (fst (removeNodes i body fkss mkss w))"
proof -
  obtain m cs where w: "w = (m, cs)" by (cases w)
  have "changes_cluster i w (fst (addNodes i body nes mes w)) \<and>
    changes_cluster i w (fst (removeNodes i body fkss mkss w))"
  proof (cases "cs i = None \<or> body = None")
    case True
    then show ?thesis
      using w by (auto simp: addNodes_def removeNodes_def manager_Get_def changes_cluster_def split: option.splits)
  next
    case False
    then obtain c req where c: "cs i = Some c" and b: "body = Some req" by auto
    have i: "fcm_inv (m, c)" using assms w c world_inv_lookup(2) by blast
    have change: "changes_cluster i w (fst (fst (fst r)), cs(i \<mapsto> snd (fst (fst r))))"
      if "good_change (m, c) (fst (fst r))" for r :: "(fcm_state \<times> nodes_response) \<times> fcm_error loop_result"
      unfolding changes_cluster_def by (intro disjI2 exI [of _ c] exI [of _ "fst (fst r)"]) (use that w c in simp)
    have "changes_cluster i w (fst (addNodes i body nes mes w))"
      using change [OF two_replies_change [OF i, where f = add_node_reply and g = add_member_reply and
          n = "req_Nodes req" and es = nes and k = "req_Members req" and es' = mes]] reply_changes(1,2) w c b
      by (simp add: addNodes_def manager_Get_def Let_def split_beta)
    moreover have "changes_cluster i w (fst (removeNodes i body fkss mkss w))"
      using change [OF two_replies_change [OF i, where f = remove_node_reply and g = remove_member_reply and
          n = "req_Nodes req" and es = fkss and k = "req_Members req" and es' = mkss]] reply_changes(3,4) w c b
      by (simp add: removeNodes_def manager_Get_def Let_def split_beta)
    ultimately show ?thesis by blast
  qed
  then show "changes_cluster i w (fst (addNodes i body nes mes w))"
    "changes_cluster i w (fst (removeNodes i body fkss mkss w))" by blast+
qed

lemma changes_cluster_inv: "changes_cluster i w w' \<Longrightarrow> world_inv w \<Longrightarrow> world_inv w'"
  using handler_inv [of "fst w" "snd w" i] by (cases w) (auto simp: changes_cluster_def)

lemma node_handlers_inv:
  assumes "world_inv w"
  shows "world_inv (fst (addNodes i body nes mes w))" "world_inv (fst (removeNodes i body fkss mkss w))"
  using node_handlers_change [OF assms] changes_cluster_inv [OF _ assms] by blast+

lemma stop_all: "fold (\<lambda>k m. m\<lparr>running := running m - {k}\<rparr>) ks (m :: machine) = m\<lparr>running := running m - set ks\<rparr>"
proof (induction ks arbitrary: m)
  case Nil
  then show ?case by (cases m) simp
next
  case (Cons k ks)
  have "running m - {k} - set ks = running m - set (k # ks)" by auto
  with Cons.IH [of "m\<lparr>running := running m - {k}\<rparr>"] show ?case by simp
qed

lemma cluster_Shutdown_running:
  assumes "iter_order mks (memberNodes c)" and "iter_order fks (fuddleNodes c)"
  shows "cluster_Shutdown mks fks c m = m\<lparr>running := running m - cluster_nodes c\<rparr>"
proof -
  have "running m - set mks - set fks = running m - cluster_nodes c"
    using assms by (auto simp: iter_order_def cluster_nodes_def)
  then show ?thesis by (simp add: cluster_Shutdown_def stop_all)
qed

lemma deleteCluster_found:
  assumes "cs i = Some c" and "iter_order mks (memberNodes c)" and "iter_order fks (fuddleNodes c)"
  shows "deleteCluster i mks fks (m, cs) = ((m\<lparr>running := running m - cluster_nodes c\<rparr>, cs(i := None)), HttpOK ())"
  using assms by (simp add: deleteCluster_def manager_Delete_def cluster_Shutdown_running)

definition request_ok :: "fcm_request \<Rightarrow> fcm_world \<Rightarrow> bool" where
  "request_ok req w = (case req of
     Delete i mks fks \<Rightarrow> (case snd w i of None \<Rightarrow> True
       | Some c \<Rightarrow> iter_order mks (memberNodes c) \<and> iter_order fks (fuddleNodes c))
   | _ \<Rightarrow> True)"

lemma deleteCluster_inv:
  assumes "world_inv w" and "request_ok (Delete i mks fks) w"
  shows "world_inv (fst (deleteCluster i mks fks w))"
proof -
  obtain m cs where w: "w = (m, cs)" by (cases w)
  show ?thesis
  proof (cases "cs i")
    case None
    then show ?thesis using assms(1) w by (simp add: deleteCluster_def manager_Delete_def)
  next
    case (Some c)
    let ?m = "m\<lparr>running := running m - cluster_nodes c\<rparr>"
    have inv: "world_inv (m, cs)" using assms(1) w by simp
    have d: "deleteCluster i mks fks w = ((?m, cs(i := None)), HttpOK ())"
      using assms(2) w Some by (auto simp: request_ok_def intro!: deleteCluster_found)
    have "fcm_inv (?m, d)" if "cs j = Some d" "j \<noteq> i" for j d
      using world_inv_lookup(2) [OF inv that(1)] world_inv_lookup(4) [OF inv Some that(1)] that(2)
      by (auto simp: fcm_inv_def)
    moreover have "machine_ok ?m" using world_inv_lookup(3) [OF inv Some] by (auto simp: machine_ok_def)
    ultimately show ?thesis using inv d by (auto simp: world_inv_def split: if_splits)
  qed
qed

lemma serve_inv:
  assumes "world_inv w" and "request_ok req w"
  shows "world_inv (serve req w)"
proof (cases req)
  case (Describe i fks mks)
  then show ?thesis using assms by (simp add: describeCluster_def split: option.splits)
next
  case (Health i fks ps)
  then show ?thesis using assms by (simp add: clusterHealth_def split: option.splits)
next
  case (PromTargets i fks ids)
  then show ?thesis using assms by (simp add: clusterPromTargets_def split: option.splits)
qed (use assms createCluster_inv deleteCluster_inv node_handlers_inv in auto)

definition idle_machine :: machine where
  "idle_machine = \<lparr>next_ptr = 0, running = {}\<rparr>"

lemma world_inv_empty: "machine_ok m \<Longrightarrow> world_inv (m, Map.empty)"
  by (simp add: world_inv_def)

lemma NewFCM_inv: "world_inv (fst (NewFCM_clusters b dir e idle_machine))"
proof -
  have mo: "machine_ok idle_machine" by (simp add: machine_ok_def idle_machine_def)
  obtain m' c' r where c: "fcm_NewCluster [WithFuddleNodes 3, WithMemberNodes 20, WithDefaultCluster,
      WithLogDir dir] e idle_machine = ((m', c'), r)" by (metis prod_cases3 prod.collapse)
  obtain i d where g: "good_change (idle_machine, new_cluster i d) (m', c')"
    using fcm_NewCluster_good [OF mo c] by blast
  have "world_inv (m', [cluster_id c' \<mapsto> c'])"
    by (rule world_inv_update [OF world_inv_empty [OF mo] g]) simp_all
  moreover have "world_inv (m', Map.empty)" by (rule world_inv_orphans [OF world_inv_empty [OF mo] g])
  ultimately show ?thesis
    using c world_inv_empty [OF mo] by (cases r) (simp_all add: NewFCM_clusters_def manager_Add_def)
qed

text \<open>The worlds a cluster manager can be in: it has started and served requests.\<close>

inductive fcm_reachable :: "fcm_world \<Rightarrow> bool" where
  fcm_started: "fcm_reachable (fst (NewFCM_clusters b dir e idle_machine))"
| fcm_served: "fcm_reachable w \<Longrightarrow> request_ok req w \<Longrightarrow> fcm_reachable (serve req w)"

lemma fcm_reachable_inv: "fcm_reachable w \<Longrightarrow> world_inv w"
  by (induction rule: fcm_reachable.induct) (auto intro: NewFCM_inv serve_inv)

text \<open>
  C28: whatever requests the cluster manager serves, successful or not, every cluster is registered
  under its own id, all its nodes and members are running, no node or member belongs to two
  clusters, and none is a node and a member at once.
\<close>
theorem fcm_clusters_disjoint:
  assumes "fcm_reachable w" and "snd w i = Some c"
  shows "cluster_id c = i \<and> cluster_nodes c \<subseteq> running (fst w) \<and> finite (cluster_nodes c) \<and>
    dom (fuddleNodes c) \<inter> dom (memberNodes c) = {} \<and>
    (\<forall>j d. snd w j = Some d \<longrightarrow> j \<noteq> i \<longrightarrow> cluster_nodes c \<inter> cluster_nodes d = {})"
proof -
  obtain m cs where w: "w = (m, cs)" by (cases w)
  have inv: "world_inv (m, cs)" using fcm_reachable_inv [OF assms(1)] w by simp
  have c: "cs i = Some c" using assms(2) w by simp
  have f: "fcm_inv (m, c)" by (rule world_inv_lookup(2) [OF inv c])
  then have "cluster_nodes c \<subseteq> running m" "finite (running m)" by (simp_all add: fcm_inv_def)
  moreover have "dom (fuddleNodes c) \<inter> dom (memberNodes c) = {}"
    using fcm_inv_disjoint [OF f] by auto
  ultimately show ?thesis
    using world_inv_lookup(1,4) [OF inv c] w finite_subset by auto
qed


subsection \<open>Life of a cluster\<close>

lemma count_loop_counts_in:
  assumes "in_int64 n"
    and step: "\<And>e s s'. e \<in> set es \<Longrightarrow> step e s = (s', None) \<Longrightarrow> P s \<Longrightarrow> P s' \<and> f s' = Suc (f s)"
  shows "in_int64 i \<Longrightarrow> P s \<Longrightarrow> count_loop n step i es s = (s', LoopDone) \<Longrightarrow>
    P s' \<and> f s' = f s + turns_left n i"
  using step
proof (induction es arbitrary: i s)
  case Nil
  then show ?case using turns_left_zero [OF assms(1) Nil.prems(1)] by (auto split: if_splits)
next
  case (Cons e es)
  show ?case
  proof (cases "i = n")
    case True
    then show ?thesis using Cons.prems turns_left_zero [OF assms(1) Cons.prems(1)] by auto
  next
    case False
    obtain s1 where s1: "step e s = (s1, None)" "count_loop n step (add64 i 1) es s1 = (s', LoopDone)"
      using Cons.prems(3) False by (auto split: prod.splits option.splits)
    have i: "in_int64 (add64 i 1)" by (simp add: add64_def)
    have "P s1 \<and> f s1 = Suc (f s)" using Cons.prems(4) [OF _ s1(1) Cons.prems(2)] by simp
    moreover have "\<And>e s s'. e \<in> set es \<Longrightarrow> step e s = (s', None) \<Longrightarrow> P s \<Longrightarrow> P s' \<and> f s' = Suc (f s)"
      by (rule Cons.prems(4)) simp_all
    ultimately show ?thesis
      using Cons.IH [OF i _ s1(2)] turns_left_step [OF assms(1) Cons.prems(1) False] by simp
  qed
qed

lemma count_loop_counts:
  assumes "in_int64 n" and "\<And>e s s'. step e s = (s', None) \<Longrightarrow> P s \<Longrightarrow> P s' \<and> f s' = Suc (f s)"
  shows "in_int64 i \<Longrightarrow> P s \<Longrightarrow> count_loop n step i es s = (s', LoopDone) \<Longrightarrow>
    P s' \<and> f s' = f s + turns_left n i"
  using count_loop_counts_in [of n es step P f i s s', OF assms(1)] assms(2) by blast

lemma turns_left_start: "0 \<le> n \<Longrightarrow> in_int64 n \<Longrightarrow> turns_left n 0 = nat n"
  by (simp add: turns_left_def in_int64_def)

lemma fcm_inv_finite: "fcm_inv (m, c) \<Longrightarrow> finite (cluster_nodes c)"
  by (auto simp: fcm_inv_def intro: finite_subset)

lemma add_node_turn_counts:
  assumes "add_node_turn e s = (s', None)" and "fcm_inv s"
  shows "card (dom (fuddleNodes (snd s'))) = Suc (card (dom (fuddleNodes (snd s)))) \<and>
    memberNodes (snd s') = memberNodes (snd s)"
proof -
  obtain m c where s: "s = (m, c)" by (cases s)
  obtain t r where a: "AddFuddleNode e (m, c) = (t, r)" by (cases "AddFuddleNode e (m, c)")
  have i: "fcm_inv (m, c)" using assms(2) s by simp
  have fin: "finite (dom (fuddleNodes c))" using fcm_inv_finite [OF i] by (simp add: cluster_nodes_def)
  from a show ?thesis
  proof (cases rule: AddFuddleNode_cases)
    case (failed x)
    then show ?thesis using assms(1) a s by (simp add: add_node_turn_def)
  next
    case (added conf p)
    then show ?thesis
      using assms(1) a s card_insert_disjoint [OF fin fcm_inv_fresh(1) [OF i]] by (auto simp: add_node_turn_def)
  qed
qed

lemma add_member_turn_counts:
  assumes "add_member_turn e s = (s', None)" and "fcm_inv s"
  shows "card (dom (memberNodes (snd s'))) = Suc (card (dom (memberNodes (snd s)))) \<and>
    fuddleNodes (snd s') = fuddleNodes (snd s)"
proof -
  obtain m c where s: "s = (m, c)" by (cases s)
  obtain t r where a: "AddMemberNode e (m, c) = (t, r)" by (cases "AddMemberNode e (m, c)")
  have i: "fcm_inv (m, c)" using assms(2) s by simp
  have fin: "finite (dom (memberNodes c))" using fcm_inv_finite [OF i] by (simp add: cluster_nodes_def)
  from a show ?thesis
  proof (cases rule: AddMemberNode_cases)
    case (failed x)
    then show ?thesis using assms(1) a s by (simp add: add_member_turn_def)
  next
    case added
    then show ?thesis
      using assms(1) a s card_insert_disjoint [OF fin fcm_inv_fresh(2) [OF i]] by (auto simp: add_member_turn_def)
  qed
qed

lemma turn_inv:
  "add_node_turn e s = (s', None) \<Longrightarrow> fcm_inv s \<Longrightarrow> fcm_inv s'"
  "add_member_turn e' s = (s', None) \<Longrightarrow> fcm_inv s \<Longrightarrow> fcm_inv s'"
  using turn_changes(1) [OF good_change_refl, of s e] turn_changes(2) [OF good_change_refl, of s e']
  by (simp_all add: good_change_def)

lemma fcm_NewCluster_size:
  assumes "machine_ok m" and "in_int64 n" and "0 \<le> n" and "in_int64 k" and "0 \<le> k"
    and "fcm_NewCluster [WithFuddleNodes n, WithMemberNodes k] e m = (s, LoopDone)"
  shows "card (dom (fuddleNodes (snd s))) = nat n \<and> card (dom (memberNodes (snd s))) = nat k"
proof -
  let ?c = "new_cluster (take 8 (id_uuid e)) (tmp_dir e)"
  obtain s1 r where l1: "count_loop n add_node_turn 0 (node_envs e) (m, ?c) = (s1, r)"
    by (cases "count_loop n add_node_turn 0 (node_envs e) (m, ?c)")
  then have r: "r = LoopDone" and l2: "count_loop k add_member_turn 0 (member_envs e) s1 = (s, LoopDone)"
    using assms(6)
    by (cases r; simp add: fcm_NewCluster_def fcm_defaultOptions_def new_cluster_def)+
  have z: "in_int64 0" by (simp add: in_int64_def)
  let ?P1 = "\<lambda>s. fcm_inv s \<and> memberNodes (snd s) = Map.empty"
  have "?P1 s1 \<and> card (dom (fuddleNodes (snd s1))) = card (dom (fuddleNodes (snd (m, ?c)))) + turns_left n 0"
    by (rule count_loop_counts [OF assms(2) _ z _ l1 [unfolded r], where P = ?P1])
      (use add_node_turn_counts turn_inv(1) fcm_inv_new [OF assms(1)] in \<open>auto simp: new_cluster_def\<close>)
  then have s1: "fcm_inv s1" "memberNodes (snd s1) = Map.empty" "card (dom (fuddleNodes (snd s1))) = nat n"
    using turns_left_start [OF assms(3,2)] by (auto simp: new_cluster_def)
  let ?P2 = "\<lambda>s. fcm_inv s \<and> fuddleNodes (snd s) = fuddleNodes (snd s1)"
  have "?P2 s \<and> card (dom (memberNodes (snd s))) = card (dom (memberNodes (snd s1))) + turns_left k 0"
    by (rule count_loop_counts [OF assms(4) _ z _ l2, where P = ?P2])
      (use add_member_turn_counts turn_inv(2) s1(1) in auto)
  then show ?thesis using s1 turns_left_start [OF assms(5,4)] by auto
qed

lemma length_map_filter_order: "iter_order ks m \<Longrightarrow> length (List.map_filter m ks) = card (dom m)"
proof -
  assume o: "iter_order ks m"
  have "length (List.map_filter m ks) = length ks" if "set ks \<subseteq> dom m" for ks
    using that by (induction ks) (auto simp: List.map_filter_simps)
  then show ?thesis using o distinct_card [of ks] by (simp add: iter_order_def)
qed

text \<open>
  A cluster from its creation to its deletion. A successful request for n nodes and k members
  answers with exactly n nodes and k members; until something else happens a description of the
  cluster answers the same; and deleting it stops exactly what its creation started and forgets it.
\<close>
theorem fcm_lifecycle:
  assumes "fcm_reachable w" and "in_int64 (req_Nodes req)" and "0 \<le> req_Nodes req"
    and "in_int64 (req_Members req)" and "0 \<le> req_Members req"
    and "createCluster (Some req) e fks mks w = (w', HttpOK r)"
    and "\<forall>c. snd w' (cr_ID r) = Some c \<longrightarrow> iter_order fks (fuddleNodes c) \<and> iter_order mks (memberNodes c)"
  shows "length (cr_Nodes r) = nat (req_Nodes req) \<and> length (cr_Members r) = nat (req_Members req) \<and>
    describeCluster (cr_ID r) fks mks w' = (w', HttpOK r) \<and>
    (\<exists>w''. deleteCluster (cr_ID r) mks fks w' = (w'', HttpOK ()) \<and>
       running (fst w'') = running (fst w) \<and> snd w'' = (snd w')(cr_ID r := None) \<and>
       describeCluster (cr_ID r) fks mks w'' = (w'', not_found))"
proof -
  obtain m cs where w: "w = (m, cs)" by (cases w)
  have mo: "machine_ok m" using fcm_reachable_inv [OF assms(1)] w by (simp add: world_inv_def)
  obtain m' c q where c: "fcm_NewCluster [WithFuddleNodes (req_Nodes req), WithMemberNodes (req_Members req)] e m
      = ((m', c), q)" by (metis prod_cases3 prod.collapse)
  have q: "q = LoopDone" "r = cluster_info fks mks c" "w' = (m', cs(cluster_id c \<mapsto> c))"
    using assms(6) w c
    by (auto simp: createCluster_def failure_reply_def manager_Add_def split: loop_result.splits if_splits)
  have i: "cr_ID r = cluster_id c" by (simp add: q cluster_info_def)
  have o: "iter_order fks (fuddleNodes c)" "iter_order mks (memberNodes c)"
    using assms(7) i q(3) by auto
  have n: "card (dom (fuddleNodes c)) = nat (req_Nodes req)" "card (dom (memberNodes c)) = nat (req_Members req)"
    using fcm_NewCluster_size [OF mo assms(2-5) c [unfolded q(1)]] by auto
  obtain j d where g: "good_change (m, new_cluster j d) (m', c)" using fcm_NewCluster_good [OF mo c] by blast
  have run: "running m' - cluster_nodes c = running m"
    using g by (simp add: good_change_def own_change_def new_cluster_def cluster_nodes_def)
  have del: "deleteCluster (cr_ID r) mks fks w' =
      ((m'\<lparr>running := running m' - cluster_nodes c\<rparr>, (snd w')(cr_ID r := None)), HttpOK ())"
    unfolding q(3) i using o by (subst deleteCluster_found) auto
  show ?thesis
    using length_map_filter_order [OF o(1)] length_map_filter_order [OF o(2)] n del run w q i
    by (simp add: cluster_info_def FuddleNodes_def MemberNodes_def describeCluster_def manager_Get_def)
qed


subsection \<open>A cluster of one node\<close>

definition sample_node_env :: node_env where
  "sample_node_env = \<lparr>gossipTCPLn = Some ''0.0.0.0:7'', gossipUDPLn = True, rpcLn = Some ''0.0.0.0:8'',
     proxyLn = Some ''127.0.0.1:9'', adminLn = Some ''0.0.0.0:6'', node_uuid = ''01234567'',
     node_starts = (\<lambda>_. True), gossip_order = []\<rparr>"

definition sample_cluster_env :: cluster_env where
  "sample_cluster_env = \<lparr>tmp_dir = ''t'', id_uuid = ''89abcdef'', node_envs = [sample_node_env], member_envs = []\<rparr>"

definition sample_start :: fcm_world where
  "sample_start = fst (NewFCM_clusters False '''' sample_cluster_env idle_machine)"

abbreviation sample_create :: "fcm_world \<times> cluster_response reply" where
  "sample_create \<equiv> createCluster (Some \<lparr>req_Nodes = 1, req_Members = 0\<rparr>) sample_cluster_env [0] [] sample_start"

lemma sample_ports:
  "parseAddrPort ''0.0.0.0:7'' = Some 7" "parseAddrPort ''0.0.0.0:8'' = Some 8"
  "parseAddrPort ''127.0.0.1:9'' = Some 9" "parseAddrPort ''0.0.0.0:6'' = Some 6"
  by code_simp+

lemma sample_listen: "\<exists>conf. listen_all sample_node_env c = Inr (conf, ''0.0.0.0:8'')"
  by (simp add: listen_all_def and_then_def listen_addr_def addr_port_def sample_node_env_def sample_ports)

lemma sample_create_eq:
  "\<exists>w' r c. sample_create = (w', HttpOK r) \<and> cr_ID r = ''89abcdef'' \<and> snd w' ''89abcdef'' = Some c \<and>
     dom (fuddleNodes c) = {0} \<and> memberNodes c = Map.empty"
proof -
  obtain conf where l: "listen_all sample_node_env (new_cluster ''89abcdef'' ''t'') = Inr (conf, ''0.0.0.0:8'')"
    using sample_listen by blast
  have st: "node_starts sample_node_env conf" by (simp add: sample_node_env_def)
  show ?thesis
    using l st
    by (simp add: createCluster_def fcm_NewCluster_def sample_cluster_env_def sample_start_def
        NewFCM_clusters_def idle_machine_def fcm_defaultOptions_def add_node_turn_def AddFuddleNode_def
        new_cluster_def Let_def go_defs failure_reply_def cluster_info_def manager_Add_def)
qed

lemma sample_start_reachable: "fcm_reachable sample_start"
  unfolding sample_start_def by (rule fcm_started)

theorem fcm_clusters_disjoint_witness:
  "\<exists>c. snd (fst sample_create) ''89abcdef'' = Some c \<and> 0 \<in> cluster_nodes c \<and>
     cluster_nodes c \<subseteq> running (fst (fst sample_create))"
proof -
  obtain w' r c where s: "sample_create = (w', HttpOK r)" "snd w' ''89abcdef'' = Some c"
    "dom (fuddleNodes c) = {0}"
    using sample_create_eq by blast
  have "fcm_reachable (serve (Create (Some \<lparr>req_Nodes = 1, req_Members = 0\<rparr>) sample_cluster_env [0] []) sample_start)"
    by (rule fcm_served [OF sample_start_reachable]) (simp add: request_ok_def)
  then have "fcm_reachable w'" using s(1) by simp
  from fcm_clusters_disjoint [OF this s(2)] show ?thesis
    using s by (simp add: cluster_nodes_def)
qed

theorem fcm_lifecycle_witness:
  "\<exists>w' r. sample_create = (w', HttpOK r) \<and> length (cr_Nodes r) = 1 \<and>
     fst (deleteCluster (cr_ID r) [] [0] w') = (\<lparr>next_ptr = next_ptr (fst w'), running = {}\<rparr>, Map.empty)"
proof -
  obtain w' r c where s: "sample_create = (w', HttpOK r)" "cr_ID r = ''89abcdef''"
    "snd w' ''89abcdef'' = Some c" "dom (fuddleNodes c) = {0}" "memberNodes c = Map.empty"
    using sample_create_eq by blast
  have o: "\<forall>c. snd w' (cr_ID r) = Some c \<longrightarrow> iter_order [0] (fuddleNodes c) \<and> iter_order [] (memberNodes c)"
    using s by (simp add: iter_order_def)
  have "snd w' = Map.empty(''89abcdef'' \<mapsto> c) \<and> running (fst sample_start) = {}"
    using s(1,3)
    by (auto simp: createCluster_def manager_Add_def sample_start_def NewFCM_clusters_def idle_machine_def
        split: prod.splits if_splits)
  then have e: "(snd w')(''89abcdef'' := None) = Map.empty" "running (fst sample_start) = {}" by auto
  show ?thesis
    using fcm_lifecycle [OF sample_start_reachable _ _ _ _ s(1) o] s e
      deleteCluster_found [of "snd w'" "''89abcdef''" c "[]" "[0]" "fst w'"] o
    by (auto simp: in_int64_def)
qed


subsection \<open>Errors\<close>

text \<open>
  C31: requests that cannot be served change nothing. For an id that is not registered every handler
  answers 404, except the deletion, which answers as if it had deleted something; a body that does
  not decode is answered 400; and asking for the health of a cluster without nodes panics.
\<close>
theorem fcm_errors:
  "(\<forall>body nes mes fks mks ids ps fkss mkss. snd w i = None \<longrightarrow>
      describeCluster i fks mks w = (w, not_found) \<and> clusterHealth i fks ps w = (w, not_found) \<and>
      addNodes i body nes mes w = (w, not_found) \<and> removeNodes i body fkss mkss w = (w, not_found) \<and>
      clusterPromTargets i fks ids w = (w, not_found) \<and> deleteCluster i mks fks w = (w, HttpOK ())) \<and>
   (\<forall>c e nes mes fks mks fkss mkss. snd w i = Some c \<longrightarrow>
      createCluster None e fks mks w = (w, bad_request) \<and> addNodes i None nes mes w = (w, bad_request) \<and>
      removeNodes i None fkss mkss w = (w, bad_request)) \<and>
   (\<forall>c p ps. snd w i = Some c \<longrightarrow> fuddleNodes c = Map.empty \<longrightarrow>
      clusterHealth i [] (p # ps) w = (w, HandlerPanic))"
proof (cases w)
  case (Pair m cs)
  then show ?thesis
    by (auto simp: describeCluster_def clusterHealth_def addNodes_def removeNodes_def clusterPromTargets_def
        deleteCluster_def manager_Delete_def createCluster_def manager_Get_def Healthy_def WaitForHealthy_def
        randomNode_def split: list.splits)
qed

text \<open>
  C32: a negative count is never served. The loop over the nodes counts up until it meets the bound,
  so for a negative number of nodes a request to create or add never succeeds, however many nodes it
  has already started, and a request to remove does not return, for every run of the environment
  that is shorter than 2^63 turns.
\<close>
theorem negative_count_never_served:
  assumes "req_Nodes req < 0" and "in_int64 (req_Nodes req)"
  shows "(length (node_envs e) < 2 ^ 63 \<longrightarrow> (\<forall>r. snd (createCluster (Some req) e fks mks w) \<noteq> HttpOK r)) \<and>
    (length nes < 2 ^ 63 \<longrightarrow> (\<forall>r. snd (addNodes i (Some req) nes mes w) \<noteq> HttpOK r)) \<and>
    (length fkss < 2 ^ 63 \<longrightarrow> snd w i \<noteq> None \<longrightarrow> snd (removeNodes i (Some req) fkss mkss w) = NoReply)"
proof -
  have z: "in_int64 0" by (simp add: in_int64_def)
  have nd: "snd (count_loop (req_Nodes req) step 0 es s) \<noteq> LoopDone" if "length es < 2 ^ 63"
    for es :: "'e list" and step :: "'e \<Rightarrow> 's \<Rightarrow> 's \<times> 'x option" and s
    using count_loop_not_done [OF assms(2) z, of es step s] turns_left_negative [OF assms] that by linarith
  have create: "snd (createCluster (Some req) e fks mks w) \<noteq> HttpOK r" if "length (node_envs e) < 2 ^ 63" for r
    using nd [OF that, of add_node_turn]
    by (auto simp: createCluster_def fcm_NewCluster_def fcm_defaultOptions_def failure_reply_def Let_def
        split: prod.splits loop_result.splits if_splits)
      (metis snd_conv)+
  have add: "snd (addNodes i (Some req) nes mes w) \<noteq> HttpOK r" if "length nes < 2 ^ 63" for r
    using nd [OF that, of add_node_reply]
    by (auto simp: addNodes_def failure_reply_def Let_def split: prod.splits loop_result.splits option.splits if_splits)
      (metis snd_conv)+
  have rm: "snd (removeNodes i (Some req) fkss mkss w) = NoReply"
    if "length fkss < 2 ^ 63" "snd w i = Some c" for c
  proof -
    have turns: "\<not> turns_left (req_Nodes req) 0 \<le> length fkss"
      using turns_left_negative [OF assms] that(1) by linarith
    have "snd (count_loop (req_Nodes req) remove_node_reply 0 fkss ((fst w, c), no_nodes_response)) = Running"
      using count_loop_turns [OF assms(2) _ z, of fkss remove_node_reply] turns
      by (simp add: remove_node_reply_def split_beta)
    then show ?thesis
      using that(2) by (simp add: removeNodes_def manager_Get_def failure_reply_def split_beta split: prod.splits)
  qed
  show ?thesis using create add rm by auto
qed

theorem negative_count_never_served_witness:
  "snd (removeNodes ''89abcdef'' (Some \<lparr>req_Nodes = - 1, req_Members = 0\<rparr>) [[0], []] [] (fst sample_create)) = NoReply"
proof -
  obtain w' r c where "sample_create = (w', HttpOK r)" "snd w' ''89abcdef'' = Some c"
    using sample_create_eq by blast
  then show ?thesis
    using negative_count_never_served [of "\<lparr>req_Nodes = - 1, req_Members = 0\<rparr>"] by (simp add: in_int64_def)
qed


theorem fcm_errors_witness:
  "describeCluster ''x'' [] [] (idle_machine, Map.empty) = ((idle_machine, Map.empty), not_found) \<and>
   deleteCluster ''x'' [] [] (idle_machine, Map.empty) = ((idle_machine, Map.empty), HttpOK ())"
  using fcm_errors [of "(idle_machine, Map.empty)" "''x''"] by simp

end
