(* ===== verification/FcmClient.thy ===== *)
theory FcmClient
  imports FcmServer Metrics
begin

text \<open>
  pkg/fcm/client/client.go and the JSON types of pkg/fcm/server/server.go: the requests the client
  of the cluster manager builds, what it makes of the replies, and both ends together. JSON is
  modelled at the level of values, with Go's rules for the tags of the source: a field with
  omitempty is left out when it is zero, a field that is absent or null decodes to zero, keys are
  matched without regard to case, the last one counts, and a value of the wrong type is an error.
\<close>

datatype json = JNull | JBool bool | JNum int | JFloat string | JStr string | JArr "json list"
  | JObj "(string \<times> json) list"

subsection \<open>Fields\<close>

definition str_field :: "string \<Rightarrow> string \<Rightarrow> (string \<times> json) list" where
  "str_field k s = (if s = '''' then [] else [(k, JStr s)])"

definition num_field :: "string \<Rightarrow> int \<Rightarrow> (string \<times> json) list" where
  "num_field k n = (if n = 0 then [] else [(k, JNum n)])"

definition bool_field :: "string \<Rightarrow> bool \<Rightarrow> (string \<times> json) list" where
  "bool_field k b = (if b then [(k, JBool True)] else [])"

definition arr_field :: "string \<Rightarrow> json list \<Rightarrow> (string \<times> json) list" where
  "arr_field k js = (if js = [] then [] else [(k, JArr js)])"

definition get_field :: "string \<Rightarrow> (string \<times> json) list \<Rightarrow> json" where
  "get_field k obj = (case find (\<lambda>p. ToLower (fst p) = ToLower k) (rev obj) of None \<Rightarrow> JNull | Some p \<Rightarrow> snd p)"

fun get_str :: "json \<Rightarrow> string option" where
  "get_str JNull = Some ''''"
| "get_str (JStr s) = Some s"
| "get_str _ = None"

fun get_int :: "json \<Rightarrow> int option" where
  "get_int JNull = Some 0"
| "get_int (JNum n) = (if in_int64 n then Some n else None)"
| "get_int _ = None"

fun get_bool :: "json \<Rightarrow> bool option" where
  "get_bool JNull = Some False"
| "get_bool (JBool b) = Some b"
| "get_bool _ = None"

fun get_all :: "(json \<Rightarrow> 'a option) \<Rightarrow> json list \<Rightarrow> 'a list option" where
  "get_all f [] = Some []"
| "get_all f (j # js) = (case f j of None \<Rightarrow> None | Some a \<Rightarrow> map_option (Cons a) (get_all f js))"

fun get_arr :: "(json \<Rightarrow> 'a option) \<Rightarrow> json \<Rightarrow> 'a list option" where
  "get_arr f JNull = Some []"
| "get_arr f (JArr js) = get_all f js"
| "get_arr f _ = None"

text \<open>A struct decodes from an object, and from null to its zero value.\<close>

fun get_obj :: "((string \<times> json) list \<Rightarrow> 'a option) \<Rightarrow> json \<Rightarrow> 'a option" where
  "get_obj f (JObj obj) = f obj"
| "get_obj f JNull = f []"
| "get_obj f _ = None"

subsection \<open>The types of the server\<close>

definition encode_node_response :: "node_response \<Rightarrow> json" where
  "encode_node_response n = JObj (str_field ''id'' (nr_ID n) @ str_field ''rpc_addr'' (nr_RPCAddr n) @
     str_field ''admin_addr'' (nr_AdminAddr n) @ str_field ''log_path'' (nr_LogPath n))"

definition encode_member_response :: "member_response \<Rightarrow> json" where
  "encode_member_response m = JObj (str_field ''id'' (mr_ID m) @ str_field ''log_path'' (mr_LogPath m))"

definition encode_cluster_response :: "cluster_response \<Rightarrow> json" where
  "encode_cluster_response c = JObj (str_field ''id'' (cr_ID c) @
     arr_field ''nodes'' (map encode_node_response (cr_Nodes c)) @
     arr_field ''members'' (map encode_member_response (cr_Members c)))"

definition encode_nodes_response :: "nodes_response \<Rightarrow> json" where
  "encode_nodes_response r = JObj (arr_field ''nodes'' (map encode_node_response (ns_Nodes r)) @
     arr_field ''members'' (map encode_member_response (ns_Members r)))"

definition encode_health :: "bool \<Rightarrow> json" where
  "encode_health b = JObj (bool_field ''healthy'' b)"

definition decode_count_request :: "json \<Rightarrow> count_request option" where
  "decode_count_request = get_obj (\<lambda>obj.
     case get_int (get_field ''nodes'' obj) of None \<Rightarrow> None
     | Some n \<Rightarrow> (case get_int (get_field ''members'' obj) of None \<Rightarrow> None
         | Some k \<Rightarrow> Some \<lparr>req_Nodes = n, req_Members = k\<rparr>))"

subsection \<open>The types of the client\<close>

record FuddleNodeInfo =
  fi_ID :: string
  fi_RPCAddr :: string
  fi_AdminAddr :: string
  fi_LogPath :: string

record ClientNodeInfo =
  ci_ID :: string
  ci_LogPath :: string

record ClusterInfo =
  cl_ID :: string
  cl_FuddleNodes :: "FuddleNodeInfo list"
  cl_ClientNodes :: "ClientNodeInfo list"

record NodesInfo =
  ni_FuddleNodes :: "FuddleNodeInfo list"
  ni_ClientNodes :: "ClientNodeInfo list"

definition encode_count_request :: "int \<Rightarrow> int \<Rightarrow> json" where
  "encode_count_request fuddles clients =
     JObj (num_field ''nodes'' fuddles @ num_field ''members'' clients)"

definition decode_FuddleNodeInfo :: "json \<Rightarrow> FuddleNodeInfo option" where
  "decode_FuddleNodeInfo = get_obj (\<lambda>obj.
     case (get_str (get_field ''id'' obj), get_str (get_field ''rpc_addr'' obj),
           get_str (get_field ''admin_addr'' obj), get_str (get_field ''log_path'' obj)) of
       (Some i, Some r, Some a, Some l) \<Rightarrow> Some \<lparr>fi_ID = i, fi_RPCAddr = r, fi_AdminAddr = a, fi_LogPath = l\<rparr>
     | _ \<Rightarrow> None)"

definition decode_ClientNodeInfo :: "json \<Rightarrow> ClientNodeInfo option" where
  "decode_ClientNodeInfo = get_obj (\<lambda>obj.
     case (get_str (get_field ''id'' obj), get_str (get_field ''log_path'' obj)) of
       (Some i, Some l) \<Rightarrow> Some \<lparr>ci_ID = i, ci_LogPath = l\<rparr>
     | _ \<Rightarrow> None)"

definition decode_ClusterInfo :: "json \<Rightarrow> ClusterInfo option" where
  "decode_ClusterInfo = get_obj (\<lambda>obj.
     case (get_str (get_field ''id'' obj), get_arr decode_FuddleNodeInfo (get_field ''nodes'' obj),
           get_arr decode_ClientNodeInfo (get_field ''members'' obj)) of
       (Some i, Some ns, Some ms) \<Rightarrow> Some \<lparr>cl_ID = i, cl_FuddleNodes = ns, cl_ClientNodes = ms\<rparr>
     | _ \<Rightarrow> None)"

definition decode_NodesInfo :: "json \<Rightarrow> NodesInfo option" where
  "decode_NodesInfo = get_obj (\<lambda>obj.
     case (get_arr decode_FuddleNodeInfo (get_field ''nodes'' obj),
           get_arr decode_ClientNodeInfo (get_field ''members'' obj)) of
       (Some ns, Some ms) \<Rightarrow> Some \<lparr>ni_FuddleNodes = ns, ni_ClientNodes = ms\<rparr>
     | _ \<Rightarrow> None)"

definition decode_health :: "json \<Rightarrow> bool option" where
  "decode_health = get_obj (\<lambda>obj. get_bool (get_field ''healthy'' obj))"

subsection \<open>Requests\<close>

text \<open>
  A request is a method, a URL and a body; the answer is None when the request fails, or a status
  and a body, None when the body is not JSON.
\<close>

datatype http_method = GET | POST | DELETE

record http_request =
  http_method :: http_method
  http_url :: string
  http_body :: "json option"

type_synonym http_do = "http_request \<Rightarrow> (nat \<times> json option) option"

datatype client_error = RequestFailed | BadStatus nat | DecodeFailed

definition do_request :: "http_do \<Rightarrow> (json \<Rightarrow> 'a option) \<Rightarrow> http_request \<Rightarrow> client_error + 'a" where
  "do_request httpDo decode req =
     (case httpDo req of
        None \<Rightarrow> Inl RequestFailed
      | Some (status, body) \<Rightarrow>
          if status \<noteq> 200 then Inl (BadStatus status)
          else (case body of
                  None \<Rightarrow> Inl DecodeFailed
                | Some j \<Rightarrow> (case decode j of None \<Rightarrow> Inl DecodeFailed | Some a \<Rightarrow> Inr a)))"

definition ClusterCreate :: "http_do \<Rightarrow> string \<Rightarrow> int \<Rightarrow> int \<Rightarrow> client_error + ClusterInfo" where
  "ClusterCreate httpDo addr fuddles clients =
     do_request httpDo decode_ClusterInfo
       \<lparr>http_method = POST, http_url = ''http://'' @ addr @ ''/cluster'',
        http_body = Some (encode_count_request fuddles clients)\<rparr>"

definition client_ClusterInfo :: "http_do \<Rightarrow> string \<Rightarrow> string \<Rightarrow> client_error + ClusterInfo" where
  "client_ClusterInfo httpDo addr i =
     do_request httpDo decode_ClusterInfo
       \<lparr>http_method = GET, http_url = ''http://'' @ addr @ ''/cluster/'' @ i, http_body = None\<rparr>"

definition ClusterHealth :: "http_do \<Rightarrow> string \<Rightarrow> string \<Rightarrow> client_error + bool" where
  "ClusterHealth httpDo addr i =
     do_request httpDo decode_health
       \<lparr>http_method = GET, http_url = ''http://'' @ addr @ ''/cluster/'' @ i @ ''/health'', http_body = None\<rparr>"

definition updateNodes :: "http_do \<Rightarrow> string \<Rightarrow> int \<Rightarrow> int \<Rightarrow> client_error + NodesInfo" where
  "updateNodes httpDo url fuddles clients =
     do_request httpDo decode_NodesInfo
       \<lparr>http_method = POST, http_url = url, http_body = Some (encode_count_request fuddles clients)\<rparr>"

definition client_AddNodes :: "http_do \<Rightarrow> string \<Rightarrow> string \<Rightarrow> int \<Rightarrow> int \<Rightarrow> client_error + NodesInfo" where
  "client_AddNodes httpDo addr i fuddles clients =
     updateNodes httpDo (''http://'' @ addr @ ''/cluster/'' @ i @ ''/nodes/add'') fuddles clients"

definition client_RemoveNodes :: "http_do \<Rightarrow> string \<Rightarrow> string \<Rightarrow> int \<Rightarrow> int \<Rightarrow> client_error + NodesInfo" where
  "client_RemoveNodes httpDo addr i fuddles clients =
     updateNodes httpDo (''http://'' @ addr @ ''/cluster/'' @ i @ ''/nodes/remove'') fuddles clients"


subsection \<open>The server behind its router\<close>

text \<open>
  The router is the third-party package mux: \<open>vars template path\<close> is the value of the id variable
  when the template matches the path, empty for a template without one. The routes are tried in the
  order of their registration.
\<close>

datatype fcm_handler = HCreate | HDescribe string | HHealth string | HDelete string | HAdd string
  | HRemove string | HPromTargets string

definition fcm_routes :: "(http_method \<times> string \<times> (string \<Rightarrow> fcm_handler)) list" where
  "fcm_routes =
     [(POST, ''/cluster'', \<lambda>_. HCreate),
      (GET, ''/cluster/{id}'', HDescribe),
      (GET, ''/cluster/{id}/health'', HHealth),
      (DELETE, ''/cluster/{id}'', HDelete),
      (POST, ''/cluster/{id}/nodes/add'', HAdd),
      (POST, ''/cluster/{id}/nodes/remove'', HRemove),
      (GET, ''/cluster/{id}/prometheus/targets'', HPromTargets)]"

definition fcm_route :: "(string \<Rightarrow> string \<Rightarrow> string option) \<Rightarrow> http_method \<Rightarrow> string \<Rightarrow> fcm_handler option" where
  "fcm_route vars m path =
     map_option (\<lambda>(_, t, h). h (the (vars t path))) (find (\<lambda>(m', t, _). m' = m \<and> vars t path \<noteq> None) fcm_routes)"

text \<open>When no route takes the request, mux answers 405 if a path matched with another method.\<close>

definition no_route :: "(string \<Rightarrow> string \<Rightarrow> string option) \<Rightarrow> string \<Rightarrow> nat" where
  "no_route vars path = (if list_ex (\<lambda>(_, t, _). vars t path \<noteq> None) fcm_routes then 405 else 404)"

text \<open>What the environment answers while a request is handled: see the handlers.\<close>

record http_env =
  he_fks :: "nat list"
  he_mks :: "nat list"
  he_polls :: "poll list"
  he_create :: cluster_env
  he_nodes :: "node_env list"
  he_members :: "member_env list"
  he_fkss :: "nat list list"
  he_mkss :: "nat list list"
  he_ids :: "string list"

definition encode_prom_target :: "prom_target \<Rightarrow> json" where
  "encode_prom_target t = JObj (arr_field ''targets'' (map JStr (Targets t)) @
     (if PromLabels t = [] then [] else [(''labels'', JObj (map (\<lambda>(k, v). (k, JStr v)) (PromLabels t)))]))"

definition encode_prom_targets :: "prom_target list \<Rightarrow> json" where
  "encode_prom_targets ts = (if ts = [] then JNull else JArr (map encode_prom_target ts))"

fun reply_json :: "('b \<Rightarrow> json option) \<Rightarrow> 'b reply \<Rightarrow> (nat \<times> json option) option" where
  "reply_json enc (HttpOK b) = Some (200, enc b)"
| "reply_json enc (HttpError n) = Some (n, None)"
| "reply_json enc HandlerPanic = None"
| "reply_json enc NoReply = None"

text \<open>
  A request is served as a whole. The server gives a handler one second from the request on to write its
  reply (\<open>fs_WriteTimeout\<close>); that a later reply is lost is not modelled.
\<close>

definition handle_http ::
  "(string \<Rightarrow> string \<Rightarrow> string option) \<Rightarrow> string \<Rightarrow> http_env \<Rightarrow> fcm_world \<Rightarrow> http_request \<Rightarrow>
     fcm_world \<times> (nat \<times> json option) option"
where
  "handle_http vars addr e w req =
     (let path = drop (length (''http://'' @ addr)) (http_url req);
          body = (case http_body req of None \<Rightarrow> None | Some j \<Rightarrow> decode_count_request j)
      in case fcm_route vars (http_method req) path of
           None \<Rightarrow> (w, Some (no_route vars path, None))
         | Some HCreate \<Rightarrow> map_prod (\<lambda>x. x) (reply_json (Some \<circ> encode_cluster_response))
             (createCluster body (he_create e) (he_fks e) (he_mks e) w)
         | Some (HDescribe i) \<Rightarrow> map_prod (\<lambda>x. x) (reply_json (Some \<circ> encode_cluster_response))
             (describeCluster i (he_fks e) (he_mks e) w)
         | Some (HHealth i) \<Rightarrow> map_prod (\<lambda>x. x) (reply_json (Some \<circ> encode_health))
             (clusterHealth i (he_fks e) (he_polls e) w)
         | Some (HDelete i) \<Rightarrow> map_prod (\<lambda>x. x) (reply_json (\<lambda>_. None)) (deleteCluster i (he_mks e) (he_fks e) w)
         | Some (HAdd i) \<Rightarrow> map_prod (\<lambda>x. x) (reply_json (Some \<circ> encode_nodes_response))
             (addNodes i body (he_nodes e) (he_members e) w)
         | Some (HRemove i) \<Rightarrow> map_prod (\<lambda>x. x) (reply_json (Some \<circ> encode_nodes_response))
             (removeNodes i body (he_fkss e) (he_mkss e) w)
         | Some (HPromTargets i) \<Rightarrow> map_prod (\<lambda>x. x) (reply_json (Some \<circ> encode_prom_targets))
             (clusterPromTargets i (he_fks e) (he_ids e) w))"

subsection \<open>Both ends agree on every message\<close>

definition node_view :: "node_response \<Rightarrow> FuddleNodeInfo" where
  "node_view n = \<lparr>fi_ID = nr_ID n, fi_RPCAddr = nr_RPCAddr n, fi_AdminAddr = nr_AdminAddr n,
     fi_LogPath = nr_LogPath n\<rparr>"

definition member_view :: "member_response \<Rightarrow> ClientNodeInfo" where
  "member_view m = \<lparr>ci_ID = mr_ID m, ci_LogPath = mr_LogPath m\<rparr>"

definition cluster_view :: "cluster_response \<Rightarrow> ClusterInfo" where
  "cluster_view c = \<lparr>cl_ID = cr_ID c, cl_FuddleNodes = map node_view (cr_Nodes c),
     cl_ClientNodes = map member_view (cr_Members c)\<rparr>"

definition nodes_view :: "nodes_response \<Rightarrow> NodesInfo" where
  "nodes_view r = \<lparr>ni_FuddleNodes = map node_view (ns_Nodes r), ni_ClientNodes = map member_view (ns_Members r)\<rparr>"

lemma ToLower_keys [simp]:
  "ToLower ''id'' = ''id''" "ToLower ''rpc_addr'' = ''rpc_addr''" "ToLower ''admin_addr'' = ''admin_addr''"
  "ToLower ''log_path'' = ''log_path''" "ToLower ''nodes'' = ''nodes''" "ToLower ''members'' = ''members''"
  "ToLower ''healthy'' = ''healthy''"
  by code_simp+

lemma get_all_map: "(\<And>a. f (g a) = Some (h a)) \<Longrightarrow> get_all f (map g xs) = Some (map h xs)"
  by (induction xs) auto

lemmas field_defs = str_field_def num_field_def bool_field_def arr_field_def get_field_def

lemma decode_node [simp]: "decode_FuddleNodeInfo (encode_node_response n) = Some (node_view n)"
  by (simp add: decode_FuddleNodeInfo_def encode_node_response_def node_view_def field_defs)

lemma decode_member [simp]: "decode_ClientNodeInfo (encode_member_response m) = Some (member_view m)"
  by (simp add: decode_ClientNodeInfo_def encode_member_response_def member_view_def field_defs)

lemma decode_lists [simp]:
  "get_all decode_FuddleNodeInfo (map encode_node_response ns) = Some (map node_view ns)"
  "get_all decode_ClientNodeInfo (map encode_member_response ms) = Some (map member_view ms)"
  by (rule get_all_map, simp)+

lemma decode_cluster [simp]: "decode_ClusterInfo (encode_cluster_response c) = Some (cluster_view c)"
  by (simp add: decode_ClusterInfo_def encode_cluster_response_def cluster_view_def field_defs)

lemma decode_nodes [simp]: "decode_NodesInfo (encode_nodes_response r) = Some (nodes_view r)"
  by (simp add: decode_NodesInfo_def encode_nodes_response_def nodes_view_def field_defs)

lemma decode_health_encode [simp]: "decode_health (encode_health b) = Some b"
  by (simp add: decode_health_def encode_health_def field_defs)

lemma decode_count [simp]:
  "in_int64 n \<Longrightarrow> in_int64 k \<Longrightarrow>
     decode_count_request (encode_count_request n k) = Some \<lparr>req_Nodes = n, req_Members = k\<rparr>"
  by (simp add: decode_count_request_def encode_count_request_def field_defs)


text \<open>
  C34: what the server of the cluster manager sends is what its client reads. Every reply, encoded
  and decoded, gives the client the same ids, addresses and log paths in the same order, and every
  request gives the server the counts the client was asked for, zero counts and an unhealthy
  cluster, whose fields are left out of the text, included.
\<close>
theorem client_server_messages:
  assumes "in_int64 n" and "in_int64 k"
  shows "decode_count_request (encode_count_request n k) = Some \<lparr>req_Nodes = n, req_Members = k\<rparr> \<and>
    decode_ClusterInfo (encode_cluster_response c) = Some (cluster_view c) \<and>
    decode_NodesInfo (encode_nodes_response r) = Some (nodes_view r) \<and>
    decode_health (encode_health b) = Some b"
  using assms by simp

theorem client_server_messages_witness:
  "decode_count_request (encode_count_request 0 3) = Some \<lparr>req_Nodes = 0, req_Members = 3\<rparr>"
  using client_server_messages [of 0 3] by (simp add: in_int64_def)

text \<open>What the router's documentation says of the templates the server registers.\<close>

definition suffixes :: "string list" where
  "suffixes = ['''', ''/health'', ''/nodes/add'', ''/nodes/remove'', ''/prometheus/targets'']"

definition mux_matches :: "(string \<Rightarrow> string \<Rightarrow> string option) \<Rightarrow> string \<Rightarrow> bool" where
  "mux_matches vars i \<longleftrightarrow> vars ''/cluster'' ''/cluster'' = Some '''' \<and>
     list_all (\<lambda>s. vars ''/cluster'' (''/cluster/'' @ i @ s) = None \<and>
       list_all (\<lambda>t. vars (''/cluster/{id}'' @ t) (''/cluster/'' @ i @ s) = (if s = t then Some i else None))
         suffixes) suffixes"

lemma fcm_route_id:
  assumes "mux_matches vars i"
  shows "fcm_route vars GET (''/cluster/'' @ i) = Some (HDescribe i)"
    "fcm_route vars GET (''/cluster/'' @ i @ ''/health'') = Some (HHealth i)"
    "fcm_route vars POST (''/cluster/'' @ i @ ''/nodes/add'') = Some (HAdd i)"
    "fcm_route vars POST (''/cluster/'' @ i @ ''/nodes/remove'') = Some (HRemove i)"
  using assms by (simp_all add: mux_matches_def fcm_route_def fcm_routes_def suffixes_def)

text \<open>A request that no route takes changes nothing; a wrong method is told apart from a wrong path.\<close>

lemma unrouted_request:
  assumes "mux_matches vars i" and "http_url req = ''http://'' @ addr @ ''/cluster/'' @ i @ s" and "s \<in> set suffixes"
    and "fcm_route vars (http_method req) (''/cluster/'' @ i @ s) = None"
  shows "handle_http vars addr e w req = (w, Some (405, None))"
proof -
  have "drop (length (''http://'' @ addr)) (http_url req) = ''/cluster/'' @ i @ s" using assms(2) by simp
  moreover have "no_route vars (''/cluster/'' @ i @ s) = 405"
    using assms(1,3) by (auto simp: no_route_def mux_matches_def fcm_routes_def suffixes_def)
  ultimately show ?thesis using assms(4) by (simp add: handle_http_def)
qed

lemma fcm_route_create: "mux_matches vars i \<Longrightarrow> fcm_route vars POST ''/cluster'' = Some HCreate"
  by (simp add: mux_matches_def fcm_route_def fcm_routes_def)

definition served :: "('b \<Rightarrow> 'a) \<Rightarrow> 'b reply \<Rightarrow> client_error + 'a" where
  "served view r = (case r of HttpOK b \<Rightarrow> Inr (view b) | HttpError n \<Rightarrow> Inl (BadStatus n) | _ \<Rightarrow> Inl RequestFailed)"

lemma failure_reply_status: "failure_reply q (HttpOK b) = HttpError m \<Longrightarrow> m \<noteq> 200"
  by (auto simp: failure_reply_def split: loop_result.splits if_splits)

lemma handler_status:
  "snd (createCluster body ce fks mks w) = HttpError m \<Longrightarrow> m \<noteq> 200"
  "snd (addNodes i body nes mes w) = HttpError m \<Longrightarrow> m \<noteq> 200"
  "snd (removeNodes i body fkss mkss w) = HttpError m \<Longrightarrow> m \<noteq> 200"
  by (auto simp: createCluster_def addNodes_def removeNodes_def Let_def split_beta
      split: option.splits prod.splits dest: failure_reply_status)

lemma do_request_served:
  assumes "httpDo req = reply_json (Some \<circ> enc) r" and "\<And>b. decode (enc b) = Some (view b)"
    and "\<And>n. r = HttpError n \<Longrightarrow> n \<noteq> 200"
  shows "do_request httpDo decode req = served view r"
  using assms by (cases r) (auto simp: do_request_def served_def)

lemma client_calls:
  assumes "mux_matches vars i" and "in_int64 n" and "in_int64 k"
  shows "client_ClusterInfo (\<lambda>req. snd (handle_http vars addr e w req)) addr i =
      served cluster_view (snd (describeCluster i (he_fks e) (he_mks e) w)) \<and>
    ClusterHealth (\<lambda>req. snd (handle_http vars addr e w req)) addr i =
      served (\<lambda>b. b) (snd (clusterHealth i (he_fks e) (he_polls e) w)) \<and>
    ClusterCreate (\<lambda>req. snd (handle_http vars addr e w req)) addr n k =
      served cluster_view (snd (createCluster (Some \<lparr>req_Nodes = n, req_Members = k\<rparr>)
        (he_create e) (he_fks e) (he_mks e) w)) \<and>
    client_AddNodes (\<lambda>req. snd (handle_http vars addr e w req)) addr i n k =
      served nodes_view (snd (addNodes i (Some \<lparr>req_Nodes = n, req_Members = k\<rparr>)
        (he_nodes e) (he_members e) w)) \<and>
    client_RemoveNodes (\<lambda>req. snd (handle_http vars addr e w req)) addr i n k =
      served nodes_view (snd (removeNodes i (Some \<lparr>req_Nodes = n, req_Members = k\<rparr>)
        (he_fkss e) (he_mkss e) w))"
proof -
  note routes = fcm_route_id [OF assms(1)] fcm_route_create [OF assms(1)]
  have url: "drop (length (''http://'' @ addr)) (''http://'' @ addr @ p) = p" for p by simp
  note ok = handle_http_def Let_def url routes decode_count [OF assms(2,3)]
  have info: "client_ClusterInfo (\<lambda>req. snd (handle_http vars addr e w req)) addr i =
      served cluster_view (snd (describeCluster i (he_fks e) (he_mks e) w))"
    unfolding client_ClusterInfo_def
    by (rule do_request_served [where enc = encode_cluster_response])
      (use ok in \<open>auto simp: describeCluster_def split: option.splits\<close>)
  have health: "ClusterHealth (\<lambda>req. snd (handle_http vars addr e w req)) addr i =
      served (\<lambda>b. b) (snd (clusterHealth i (he_fks e) (he_polls e) w))"
    unfolding ClusterHealth_def
    by (rule do_request_served [where enc = encode_health])
      (use ok in \<open>auto simp: clusterHealth_def split: option.splits\<close>)
  have create: "ClusterCreate (\<lambda>req. snd (handle_http vars addr e w req)) addr n k =
      served cluster_view (snd (createCluster (Some \<lparr>req_Nodes = n, req_Members = k\<rparr>)
        (he_create e) (he_fks e) (he_mks e) w))"
    unfolding ClusterCreate_def
    by (rule do_request_served [where enc = encode_cluster_response])
      (use ok in \<open>auto dest: handler_status\<close>)
  have add: "client_AddNodes (\<lambda>req. snd (handle_http vars addr e w req)) addr i n k =
      served nodes_view (snd (addNodes i (Some \<lparr>req_Nodes = n, req_Members = k\<rparr>)
        (he_nodes e) (he_members e) w))"
    unfolding client_AddNodes_def updateNodes_def
    by (rule do_request_served [where enc = encode_nodes_response])
      (use ok in \<open>auto dest: handler_status\<close>)
  have remove: "client_RemoveNodes (\<lambda>req. snd (handle_http vars addr e w req)) addr i n k =
      served nodes_view (snd (removeNodes i (Some \<lparr>req_Nodes = n, req_Members = k\<rparr>)
        (he_fkss e) (he_mkss e) w))"
    unfolding client_RemoveNodes_def updateNodes_def
    by (rule do_request_served [where enc = encode_nodes_response])
      (use ok in \<open>auto dest: handler_status\<close>)
  show ?thesis using info health create add remove by blast
qed

text \<open>
  C33: a call of the client is the handler it names. Through the router, the call for a cluster's
  description, its health or a change of its nodes reaches the handler of that cluster with the
  numbers given, and returns its reply: the value, an error with the status, or a failed request
  when the handler panics or does not reply.
\<close>
theorem client_calls_handlers:
  assumes "mux_matches vars i" and "in_int64 n" and "in_int64 k"
  shows "client_ClusterInfo (\<lambda>req. snd (handle_http vars addr e w req)) addr i =
      served cluster_view (snd (describeCluster i (he_fks e) (he_mks e) w)) \<and>
    ClusterHealth (\<lambda>req. snd (handle_http vars addr e w req)) addr i =
      served (\<lambda>b. b) (snd (clusterHealth i (he_fks e) (he_polls e) w)) \<and>
    ClusterCreate (\<lambda>req. snd (handle_http vars addr e w req)) addr n k =
      served cluster_view (snd (createCluster (Some \<lparr>req_Nodes = n, req_Members = k\<rparr>)
        (he_create e) (he_fks e) (he_mks e) w)) \<and>
    client_AddNodes (\<lambda>req. snd (handle_http vars addr e w req)) addr i n k =
      served nodes_view (snd (addNodes i (Some \<lparr>req_Nodes = n, req_Members = k\<rparr>)
        (he_nodes e) (he_members e) w)) \<and>
    client_RemoveNodes (\<lambda>req. snd (handle_http vars addr e w req)) addr i n k =
      served nodes_view (snd (removeNodes i (Some \<lparr>req_Nodes = n, req_Members = k\<rparr>)
        (he_fkss e) (he_mkss e) w))"
  by (rule client_calls [OF assms])


text \<open>A router for the templates of the server: a segment without a slash between two texts.\<close>

definition simple_vars :: "string \<Rightarrow> string \<Rightarrow> string option" where
  "simple_vars t path =
     (if take 13 t \<noteq> ''/cluster/{id}'' then (if path = t then Some '''' else None)
      else let s = drop 13 t; mid = drop 9 (take (length path - length s) path)
           in if take 9 path = ''/cluster/'' \<and> drop (length path - length s) path = s \<and>
                 mid \<noteq> '''' \<and> CHR ''/'' \<notin> set mid
              then Some mid else None)"

lemma simple_vars_mux: "mux_matches simple_vars ''89abcdef''"
  by code_simp

theorem client_calls_handlers_witness:
  "client_ClusterInfo (\<lambda>req. snd (handle_http simple_vars ''fcm:8220''
     \<lparr>he_fks = [], he_mks = [], he_polls = [], he_create = sample_cluster_env, he_nodes = [], he_members = [],
      he_fkss = [], he_mkss = [], he_ids = []\<rparr> sample_start req)) ''fcm:8220'' ''89abcdef'' = Inl (BadStatus 404)"
proof -
  have "snd sample_start ''89abcdef'' = None" by (simp add: sample_start_def NewFCM_clusters_def)
  then show ?thesis
    using client_calls_handlers [OF simple_vars_mux, of 0 0]
    by (simp add: in_int64_def describeCluster_def manager_Get_def served_def)
qed

end
