(* ===== verification/LoggerMetrics.thy ===== *)
theory LoggerMetrics
  imports Metrics
begin

text \<open>
  pkg/logger: the level names, and the zap core that counts warnings and errors per subsystem.
  The wrapped core and the entry checker are zap's; a checked entry is the list of the cores
  that Write will be called on. The wrapped core is a record of what the source uses of it: the
  lowest level it is enabled for and what has been written to it. Documented zap behaviour that
  is modelled: Check of the wrapped core adds it when it is enabled for the entry's level; Write
  appends. The sampling of zap's production configuration, which drops repeated entries, is left
  out. Fields are pairs of key and string value (the String of a zap field).
\<close>

datatype level = DebugLevel | InfoLevel | WarnLevel | ErrorLevel | DPanicLevel | PanicLevel | FatalLevel

fun level_rank :: "level \<Rightarrow> int" where
  "level_rank DebugLevel = - 1"
| "level_rank InfoLevel = 0"
| "level_rank WarnLevel = 1"
| "level_rank ErrorLevel = 2"
| "level_rank DPanicLevel = 3"
| "level_rank PanicLevel = 4"
| "level_rank FatalLevel = 5"

lemma level_rank_inj [simp]: "level_rank a = level_rank b \<longleftrightarrow> a = b"
  by (cases a; cases b) simp_all

instantiation level :: linorder
begin

definition less_eq_level :: "level \<Rightarrow> level \<Rightarrow> bool" where
  "less_eq_level a b \<longleftrightarrow> level_rank a \<le> level_rank b"

definition less_level :: "level \<Rightarrow> level \<Rightarrow> bool" where
  "less_level a b \<longleftrightarrow> level_rank a < level_rank b"

instance
  by standard (auto simp: less_eq_level_def less_level_def)

end

lemmas level_order = less_eq_level_def less_level_def

definition StringToLevel :: "string \<Rightarrow> level" where
  "StringToLevel lvl =
     (if lvl = ''debug'' then DebugLevel
      else if lvl = ''info'' then InfoLevel
      else if lvl = ''warn'' then WarnLevel
      else if lvl = ''error'' then ErrorLevel
      else InfoLevel)"

subsection \<open>The counting core\<close>

record log_metrics =
  WarningsCount :: counter
  ErrorsCount :: counter

definition NewLogMetrics :: log_metrics where
  "NewLogMetrics = \<lparr>WarningsCount = NewCounter, ErrorsCount = NewCounter\<rparr>"

type_synonym log_fields = "(string \<times> string) list"

record log_entry =
  Level :: level
  Message :: string

text \<open>The wrapped core: its level, the fields added by With, and what was written so far.\<close>

record base_core =
  core_level :: level
  core_fields :: log_fields
  written :: "(log_entry \<times> log_fields) list"

record metricsCore =
  log_counts :: log_metrics
  subsystem :: string
  core :: base_core

datatype core_ref = Metrics_core | Base_core

definition newMetricsCore :: "log_metrics \<Rightarrow> base_core \<Rightarrow> metricsCore" where
  "newMetricsCore mt c = \<lparr>log_counts = mt, subsystem = '''', core = c\<rparr>"

definition core_Enabled :: "base_core \<Rightarrow> level \<Rightarrow> bool" where
  "core_Enabled c lvl \<longleftrightarrow> core_level c \<le> lvl"

definition core_Write :: "log_entry \<Rightarrow> log_fields \<Rightarrow> base_core \<Rightarrow> base_core" where
  "core_Write entry flds c = c\<lparr>written := written c @ [(entry, core_fields c @ flds)]\<rparr>"

definition With :: "log_fields \<Rightarrow> metricsCore \<Rightarrow> metricsCore" where
  "With flds c =
     \<lparr>log_counts = log_counts c,
      subsystem = fold (\<lambda>(key, str) subsystem.
        if key = ''subsystem'' \<and> str \<noteq> '''' then str else subsystem) flds '''',
      core = (core c)\<lparr>core_fields := core_fields (core c) @ flds\<rparr>\<rparr>"

definition Check :: "log_entry \<Rightarrow> core_ref list \<Rightarrow> metricsCore \<Rightarrow> core_ref list" where
  "Check entry ce c =
     (let ce1 = (if WarnLevel \<le> Level entry then ce @ [Metrics_core] else ce)
      in if core_Enabled (core c) (Level entry) then ce1 @ [Base_core] else ce1)"

definition Write :: "log_entry \<Rightarrow> log_fields \<Rightarrow> metricsCore \<Rightarrow> metricsCore" where
  "Write entry flds c =
     (let sub = (if subsystem c = '''' then ''unknown'' else subsystem c);
          c1 = (if Level entry = WarnLevel
            then c\<lparr>log_counts := (log_counts c)\<lparr>WarningsCount :=
              Counter_Inc [(''subsystem'', sub)] (WarningsCount (log_counts c))\<rparr>\<rparr> else c);
          c2 = (if Level entry = ErrorLevel
            then c1\<lparr>log_counts := (log_counts c1)\<lparr>ErrorsCount :=
              Counter_Inc [(''subsystem'', sub)] (ErrorsCount (log_counts c1))\<rparr>\<rparr> else c1)
      in c2\<lparr>core := core_Write entry flds (core c2)\<rparr>)"

definition core_is_Enabled :: "level \<Rightarrow> metricsCore \<Rightarrow> bool" where
  "core_is_Enabled lvl c \<longleftrightarrow> WarnLevel \<le> lvl \<or> core_Enabled (core c) lvl"

text \<open>What the zap logger does with an entry: it asks Check and writes to each core named.\<close>

definition log_entry_to :: "log_entry \<Rightarrow> log_fields \<Rightarrow> metricsCore \<Rightarrow> metricsCore" where
  "log_entry_to entry flds c =
     fold (\<lambda>ref c. case ref of
         Metrics_core \<Rightarrow> Write entry flds c
       | Base_core \<Rightarrow> c\<lparr>core := core_Write entry flds (core c)\<rparr>) (Check entry [] c) c"

text \<open>The logger of a subsystem.\<close>

definition Logger :: "string \<Rightarrow> metricsCore \<Rightarrow> metricsCore" where
  "Logger sub base = With [(''subsystem'', sub)] base"

subsection \<open>Properties\<close>

lemma StringToLevel_range: "StringToLevel s \<in> {DebugLevel, InfoLevel, WarnLevel, ErrorLevel}"
  by (simp add: StringToLevel_def)

text \<open>
  Level names. The four documented names give their levels, which are in this order, and any
  other text means info, so the logger never runs at a level above error.
\<close>
theorem StringToLevel_levels:
  "map StringToLevel [''debug'', ''info'', ''warn'', ''error''] =
     [DebugLevel, InfoLevel, WarnLevel, ErrorLevel] \<and>
   sorted_wrt (<) [DebugLevel, InfoLevel, WarnLevel, ErrorLevel] \<and>
   StringToLevel s \<le> ErrorLevel \<and>
   (s \<notin> {''debug'', ''info'', ''warn'', ''error''} \<longrightarrow> StringToLevel s = InfoLevel)"
  by (auto simp: StringToLevel_def level_order)

theorem StringToLevel_levels_witness: "StringToLevel ''verbose'' = InfoLevel"
  using StringToLevel_levels [of "''verbose''"] by simp

text \<open>
  One log call of a subsystem's logger counts a warning under warnings and an error under
  errors, once, with the subsystem as label, and nothing at any other level; an entry at warn or
  above is written out by the counting core, and a second time when the wrapped core is enabled
  for the level as well, which it is at every level that StringToLevel can set.
\<close>
theorem log_call_effect:
  assumes "sub \<noteq> ''''" and "c = Logger sub base" and "c' = log_entry_to entry flds c"
  shows "WarningsCount (log_counts c') = (if Level entry = WarnLevel
      then Counter_Inc [(''subsystem'', sub)] (WarningsCount (log_counts base))
      else WarningsCount (log_counts base)) \<and>
    ErrorsCount (log_counts c') = (if Level entry = ErrorLevel
      then Counter_Inc [(''subsystem'', sub)] (ErrorsCount (log_counts base))
      else ErrorsCount (log_counts base)) \<and>
    length (written (core c')) = length (written (core base)) +
      (if WarnLevel \<le> Level entry then 1 else 0) +
      (if core_level (core base) \<le> Level entry then 1 else 0) \<and>
    (core_level (core base) = StringToLevel s \<and> ErrorLevel \<le> Level entry \<longrightarrow>
      length (written (core c')) = length (written (core base)) + 2)"
proof -
  have sub: "subsystem c = sub" "log_counts c = log_counts base" "written (core c) = written (core base)"
    "core_level (core c) = core_level (core base)"
    using assms(1,2) by (simp_all add: Logger_def With_def)
  have wr: "written (core (Write entry flds x)) = written (core x) @ [(entry, core_fields (core x) @ flds)]"
    "log_counts (x\<lparr>core := y\<rparr>) = log_counts x" for x :: metricsCore and y
    by (simp_all add: Write_def core_Write_def Let_def)
  have counts: "WarningsCount (log_counts (Write entry flds c)) = (if Level entry = WarnLevel
      then Counter_Inc [(''subsystem'', sub)] (WarningsCount (log_counts base))
      else WarningsCount (log_counts base))"
    "ErrorsCount (log_counts (Write entry flds c)) = (if Level entry = ErrorLevel
      then Counter_Inc [(''subsystem'', sub)] (ErrorsCount (log_counts base))
      else ErrorsCount (log_counts base))"
    using sub assms(1) by (auto simp: Write_def Let_def)
  have len: "length (written (core c')) = length (written (core base)) +
      (if WarnLevel \<le> Level entry then 1 else 0) +
      (if core_level (core base) \<le> Level entry then 1 else 0)"
    using sub by (simp add: assms(3) log_entry_to_def Check_def core_Enabled_def wr core_Write_def Let_def)
  have "log_counts c' = (if WarnLevel \<le> Level entry then log_counts (Write entry flds c) else log_counts c)"
    by (simp add: assms(3) log_entry_to_def Check_def Let_def)
  moreover have "core_level (core base) \<le> ErrorLevel" if "core_level (core base) = StringToLevel s"
    using that StringToLevel_range [of s] by (auto simp: level_order)
  ultimately show ?thesis
    using counts sub(2) len by (cases "Level entry") (auto simp: level_order)
qed

theorem log_call_effect_witness:
  "length (written (core (log_entry_to \<lparr>Level = ErrorLevel, Message = ''boom''\<rparr> []
     (Logger ''gossip'' (newMetricsCore NewLogMetrics
       \<lparr>core_level = StringToLevel ''info'', core_fields = [], written = []\<rparr>))))) = 2"
  using log_call_effect [OF _ refl refl, of "''gossip''" "\<lparr>Level = ErrorLevel, Message = ''boom''\<rparr>" "[]"
      "newMetricsCore NewLogMetrics \<lparr>core_level = StringToLevel ''info'', core_fields = [], written = []\<rparr>"]
  by (simp add: newMetricsCore_def) (auto simp: level_order StringToLevel_def)

text \<open>
  A logger derived from a subsystem's logger loses the subsystem: With starts from the empty
  name each time, so adding fields that do not name one (as the RPC servers do) makes further
  warnings and errors count under "unknown".
\<close>
theorem With_forgets_subsystem:
  assumes "\<forall>v. (''subsystem'', v) \<notin> set flds" and "Level entry = ErrorLevel"
  shows "ErrorsCount (log_counts (log_entry_to entry fs (With flds (Logger sub base)))) =
    Counter_Inc [(''subsystem'', ''unknown'')] (ErrorsCount (log_counts base))"
proof -
  have "fold (\<lambda>(key, str) subsystem. if key = ''subsystem'' \<and> str \<noteq> '''' then str else subsystem) flds x = x"
    for x using assms(1) by (induction flds arbitrary: x) auto
  then have "subsystem (With flds (Logger sub base)) = ''''"
    and "log_counts (With flds (Logger sub base)) = log_counts base"
    by (simp_all add: With_def Logger_def)
  then show ?thesis using assms(2)
    by (simp add: log_entry_to_def Check_def Write_def Let_def level_order)
qed

theorem With_forgets_subsystem_witness:
  "ErrorsCount (log_counts (log_entry_to \<lparr>Level = ErrorLevel, Message = ''boom''\<rparr> []
     (With [(''rpc'', ''Updates'')] (Logger ''registry'' (newMetricsCore NewLogMetrics
       \<lparr>core_level = InfoLevel, core_fields = [], written = []\<rparr>))))) =
   Counter_Inc [(''subsystem'', ''unknown'')] NewCounter"
  using With_forgets_subsystem [of "[(''rpc'', ''Updates'')]" "\<lparr>Level = ErrorLevel, Message = ''boom''\<rparr>" "[]"
      "''registry''" "newMetricsCore NewLogMetrics \<lparr>core_level = InfoLevel, core_fields = [], written = []\<rparr>"]
  by (simp add: newMetricsCore_def NewLogMetrics_def)

end
