(* ===== verification/GossipLog.thy ===== *)
theory GossipLog
  imports LoggerMetrics
begin

text \<open>
  pkg/gossip/logger.go: the writer the memberlist library logs to. It reads the level tag of each
  line with a regular expression and passes the rest on to the logger of the node at that level.
  The expression matches one text in one way only up to the choice of the tag, and the leading
  \<open>.*\<close> is greedy: the last tag of the line is the one it finds. Lines are ASCII texts.
\<close>

subsection \<open>The expression\<close>

text \<open>The character class \<open>[DEBUG|INFO|WARN|ERR]\<close>: a set of characters, not of words.\<close>

definition level_char :: "char \<Rightarrow> bool" where
  "level_char c \<longleftrightarrow> c \<in> set ''DEBUG|INFO|WARN|ERR''"

text \<open>A tag at the start of a text: the class in brackets and a blank; what it holds and what follows.\<close>

definition tag_at :: "string \<Rightarrow> (string \<times> string) option" where
  "tag_at s =
     (case s of
        [] \<Rightarrow> None
      | c # t \<Rightarrow>
          if c = CHR ''['' \<and> takeWhile level_char t \<noteq> [] \<and> take 2 (dropWhile level_char t) = ''] ''
          then Some (takeWhile level_char t, drop 2 (dropWhile level_char t)) else None)"

fun last_tag :: "string \<Rightarrow> (string \<times> string) option" where
  "last_tag [] = None"
| "last_tag (c # s) = (case last_tag s of Some x \<Rightarrow> Some x | None \<Rightarrow> tag_at (c # s))"

text \<open>The submatches 2 and 3; a dot does not match a newline, and \<open>$\<close> is the end of the text.\<close>

definition FindStringSubmatch :: "string \<Rightarrow> (string \<times> string) option" where
  "FindStringSubmatch s = (if CHR 0x0A \<in> set s then None else last_tag s)"

subsection \<open>The writer\<close>

definition is_space :: "char \<Rightarrow> bool" where
  "is_space c \<longleftrightarrow> c \<in> {CHR 0x09, CHR 0x0A, CHR 0x0B, CHR 0x0C, CHR 0x0D, CHR 0x20}"

definition TrimSpace :: "string \<Rightarrow> string" where
  "TrimSpace s = rev (dropWhile is_space (rev (dropWhile is_space s)))"

text \<open>
  What Write logs, and the number of bytes it returns: None when it panics. The match of a line
  that does not match is nil, and the switch reads its third element.
\<close>

definition loggerWriter_Write :: "string \<Rightarrow> log_entry list \<times> nat option" where
  "loggerWriter_Write b =
     (let s = TrimSpace b
      in case FindStringSubmatch s of
           None \<Rightarrow> ([\<lparr>Level = ErrorLevel, Message = ''unrecognised log''\<rparr>], None)
         | Some (lvl, msg) \<Rightarrow>
             (if lvl = ''DEBUG'' then [\<lparr>Level = DebugLevel, Message = msg\<rparr>]
              else if lvl = ''INFO'' then [\<lparr>Level = InfoLevel, Message = msg\<rparr>]
              else if lvl = ''WARN'' then [\<lparr>Level = WarnLevel, Message = msg\<rparr>]
              else if lvl = ''ERR'' then [\<lparr>Level = ErrorLevel, Message = msg\<rparr>]
              else [], Some (length b)))"

subsection \<open>What the expression finds\<close>

text \<open>The texts the expression matches, and how: before the tag, in it, after it.\<close>

definition tag_split :: "string \<Rightarrow> string \<Rightarrow> string \<Rightarrow> string \<Rightarrow> bool" where
  "tag_split s p l m \<longleftrightarrow> s = p @ ''['' @ l @ ''] '' @ m \<and> l \<noteq> [] \<and> list_all level_char l"

lemma not_level_char [simp]: "\<not> level_char CHR '']''" "\<not> level_char CHR ''[''" "\<not> level_char CHR '' ''"
  by (simp_all add: level_char_def)

lemma takeWhile_level:
  "list_all level_char l \<Longrightarrow> takeWhile level_char (l @ CHR '']'' # r) = l \<and>
     dropWhile level_char (l @ CHR '']'' # r) = CHR '']'' # r"
  by (induction l) auto

lemma tag_at_iff: "tag_at s = Some (l, m) \<longleftrightarrow> tag_split s [] l m"
proof
  assume "tag_at s = Some (l, m)"
  then obtain t where t: "s = CHR ''['' # t" "takeWhile level_char t = l" "l \<noteq> []"
    "take 2 (dropWhile level_char t) = ''] ''" "drop 2 (dropWhile level_char t) = m"
    by (auto simp: tag_at_def split: list.splits if_splits)
  have "t = l @ dropWhile level_char t" using t(2) takeWhile_dropWhile_id by metis
  also have "dropWhile level_char t = ''] '' @ m"
    using t(4,5) append_take_drop_id [of 2 "dropWhile level_char t"] by simp
  finally have "s = [] @ ''['' @ l @ ''] '' @ m" using t(1) by simp
  moreover have "list_all level_char l"
    using t(2) set_takeWhileD by (fastforce simp: list_all_iff)
  ultimately show "tag_split s [] l m" using t(3) by (simp add: tag_split_def)
next
  assume "tag_split s [] l m"
  then show "tag_at s = Some (l, m)"
    using takeWhile_level [of l "CHR '' '' # m"] by (simp add: tag_split_def tag_at_def)
qed

lemma tag_split_Cons:
  "tag_split (c # s) p l m \<longleftrightarrow> (p = [] \<and> tag_at (c # s) = Some (l, m)) \<or>
     (\<exists>p'. p = c # p' \<and> tag_split s p' l m)"
  by (cases p) (auto simp: tag_at_iff tag_split_def)

lemma last_tag_None: "last_tag s = None \<longleftrightarrow> (\<forall>p l m. \<not> tag_split s p l m)"
proof (induction s)
  case Nil
  then show ?case by (simp add: tag_split_def)
next
  case (Cons c s)
  then show ?case
    by (cases "tag_at (c # s)") (auto simp: tag_split_Cons split: option.splits)
qed

lemma append_drop_prefix:
  "xs @ m = ys @ r \<Longrightarrow> length xs \<le> length ys \<Longrightarrow> m = drop (length xs) ys @ r"
  by (simp add: append_eq_append_conv_if)

text \<open>The tag found is the last one: nothing that follows it in the line has one.\<close>

lemma tag_split_suffix:
  assumes "tag_split s p l m" and "tag_split s p' l' m'" and "length p < length p'"
  shows "\<exists>p''. tag_split m p'' l' m'"
proof -
  let ?t = "''['' @ l @ ''] ''"
  have s: "(p @ ?t) @ m = p' @ (''['' @ l' @ ''] '' @ m')"
    using assms(1,2) by (simp add: tag_split_def)
  have "length (p @ ?t) \<le> length p'"
  proof (rule ccontr)
    assume "\<not> ?thesis"
    then obtain u where u: "p' = p @ u" "length u < length ?t" "0 < length u"
      using s assms(3) by (auto simp: append_eq_append_conv2)
    then obtain c where c: "''['' @ l @ ''] '' @ m = u @ CHR ''['' # c" "u \<noteq> []"
      using s by auto
    obtain k where k: "length u = Suc k" using u(3) by (cases u) auto
    have "CHR ''['' = (CHR ''['' # (l @ ''] '') @ m) ! length u" using c(1) by simp
    also have "\<dots> = ((l @ ''] '') @ m) ! k" unfolding k by simp
    also have "\<dots> = (l @ ''] '') ! k" using u(2) k by (simp only: nth_append) simp
    also have "\<dots> \<in> set (l @ ''] '')" using u(2) k by (intro nth_mem) simp
    finally show False using assms(1) by (auto simp: tag_split_def list_all_iff)
  qed
  then have "m = drop (length (p @ ?t)) p' @ (''['' @ l' @ ''] '' @ m')"
    by (rule append_drop_prefix [OF s])
  then show ?thesis using assms(2) unfolding tag_split_def by blast
qed

lemma tag_split_append: "tag_split m p l m' \<Longrightarrow> tag_split (x @ m) (x @ p) l m'"
  by (simp add: tag_split_def)

lemma last_tag_sound:
  "last_tag s = Some (l, m) \<Longrightarrow> \<exists>p. tag_split s p l m \<and> last_tag m = None"
proof (induction s)
  case Nil
  then show ?case by simp
next
  case (Cons c s)
  show ?case
  proof (cases "last_tag s")
    case None
    then have t: "tag_split (c # s) [] l m" using Cons.prems by (simp add: tag_at_iff)
    then have s: "s = (l @ ''] '') @ m" by (simp add: tag_split_def)
    have "\<not> tag_split m p l' m'" for p l' m'
      using None tag_split_append [of m p l' m' "l @ ''] ''"] unfolding last_tag_None s by blast
    then show ?thesis using t last_tag_None by blast
  next
    case (Some x)
    then have "last_tag s = Some (l, m)" using Cons.prems by simp
    then obtain p where "tag_split s p l m" "last_tag m = None" using Cons.IH by blast
    then show ?thesis using tag_split_Cons [of c s "c # p" l m] by blast
  qed
qed

lemma last_tag_complete:
  assumes "tag_split s p l m" and "last_tag m = None"
  shows "last_tag s = Some (l, m)"
proof -
  have "last_tag s \<noteq> None" using assms(1) last_tag_None by blast
  then obtain l1 m1 where l1: "last_tag s = Some (l1, m1)" by (cases "last_tag s") auto
  obtain p1 where p1: "tag_split s p1 l1 m1" "last_tag m1 = None" using last_tag_sound [OF l1] by blast
  have "\<not> length p < length p1" "\<not> length p1 < length p"
    using tag_split_suffix [OF assms(1) p1(1)] tag_split_suffix [OF p1(1) assms(1)] assms(2) p1(2)
      last_tag_None by blast+
  then have "p1 = p \<and> ''['' @ l @ ''] '' @ m = ''['' @ l1 @ ''] '' @ m1"
    using assms(1) p1(1) by (auto simp: tag_split_def)
  then have "tag_at (''['' @ l @ ''] '' @ m) = Some (l, m)" "tag_at (''['' @ l @ ''] '' @ m) = Some (l1, m1)"
    using assms(1) p1(1) by (auto simp: tag_at_iff tag_split_def)
  then show ?thesis using l1 by simp
qed

subsection \<open>What is logged\<close>

definition level_names :: "(string \<times> level) list" where
  "level_names = [(''DEBUG'', DebugLevel), (''INFO'', InfoLevel), (''WARN'', WarnLevel), (''ERR'', ErrorLevel)]"

lemma Write_found:
  "FindStringSubmatch (TrimSpace b) = Some (lvl, msg) \<Longrightarrow>
     loggerWriter_Write b =
       (case map_of level_names lvl of None \<Rightarrow> [] | Some lv \<Rightarrow> [\<lparr>Level = lv, Message = msg\<rparr>],
        Some (length b))"
  by (simp add: loggerWriter_Write_def level_names_def)

lemma FindStringSubmatch_None:
  "FindStringSubmatch s = None \<longleftrightarrow> CHR 0x0A \<in> set s \<or> (\<forall>p l m. \<not> tag_split s p l m)"
  by (simp add: FindStringSubmatch_def last_tag_None)

text \<open>
  C37: the log of the gossip library. A line in which a message follows a level tag, and in which no
  later tag stands, is logged once, at the level of the tag, without what precedes it; a tag made
  of other letters of the class drops the line. Write returns the number of bytes it was given,
  except that it panics on every line with a line break inside it or without a tag.
\<close>
theorem memberlist_lines:
  "(snd (loggerWriter_Write b) = None \<longleftrightarrow>
      CHR 0x0A \<in> set (TrimSpace b) \<or> (\<forall>p l m. \<not> tag_split (TrimSpace b) p l m)) \<and>
   (\<forall>n. snd (loggerWriter_Write b) = Some n \<longrightarrow> n = length b) \<and>
   (\<forall>p lvl msg. TrimSpace b = p @ ''['' @ lvl @ ''] '' @ msg \<and> lvl \<noteq> [] \<and> list_all level_char lvl \<and>
      CHR 0x0A \<notin> set (TrimSpace b) \<and> (\<forall>p' l' m'. \<not> tag_split msg p' l' m') \<longrightarrow>
      fst (loggerWriter_Write b) =
        (case map_of level_names lvl of None \<Rightarrow> [] | Some lv \<Rightarrow> [\<lparr>Level = lv, Message = msg\<rparr>]))"
proof (intro conjI allI impI)
  show "snd (loggerWriter_Write b) = None \<longleftrightarrow>
      CHR 0x0A \<in> set (TrimSpace b) \<or> (\<forall>p l m. \<not> tag_split (TrimSpace b) p l m)"
    unfolding FindStringSubmatch_None [symmetric]
    by (cases "FindStringSubmatch (TrimSpace b)") (auto simp: Write_found loggerWriter_Write_def)
next
  fix n assume "snd (loggerWriter_Write b) = Some n"
  then show "n = length b"
    by (cases "FindStringSubmatch (TrimSpace b)") (auto simp: Write_found loggerWriter_Write_def)
next
  fix p lvl msg
  assume a: "TrimSpace b = p @ ''['' @ lvl @ ''] '' @ msg \<and> lvl \<noteq> [] \<and> list_all level_char lvl \<and>
      CHR 0x0A \<notin> set (TrimSpace b) \<and> (\<forall>p' l' m'. \<not> tag_split msg p' l' m')"
  then have "tag_split (TrimSpace b) p lvl msg" unfolding tag_split_def by blast
  moreover have "last_tag msg = None" using a last_tag_None by blast
  ultimately have "last_tag (TrimSpace b) = Some (lvl, msg)" by (rule last_tag_complete)
  moreover have "CHR 0x0A \<notin> set (TrimSpace b)" using a by blast
  ultimately have "FindStringSubmatch (TrimSpace b) = Some (lvl, msg)" by (simp add: FindStringSubmatch_def)
  then show "fst (loggerWriter_Write b) =
      (case map_of level_names lvl of None \<Rightarrow> [] | Some lv \<Rightarrow> [\<lparr>Level = lv, Message = msg\<rparr>])"
    by (simp add: Write_found)
qed

theorem memberlist_lines_witness:
  "fst (loggerWriter_Write ''14:00:01 [WARN] memberlist: slow peer'') =
     [\<lparr>Level = WarnLevel, Message = ''memberlist: slow peer''\<rparr>]"
proof -
  let ?b = "''14:00:01 [WARN] memberlist: slow peer''"
  have t: "TrimSpace ?b = ''14:00:01 '' @ ''['' @ ''WARN'' @ ''] '' @ ''memberlist: slow peer''"
    by (simp add: TrimSpace_def is_space_def)
  have "last_tag ''memberlist: slow peer'' = None" by (simp add: tag_at_def)
  then have n: "\<forall>p' l' m'. \<not> tag_split ''memberlist: slow peer'' p' l' m'" by (rule iffD1 [OF last_tag_None])
  have c: "list_all level_char ''WARN''" "CHR 0x0A \<notin> set (TrimSpace ?b)"
    unfolding t by (simp_all add: level_char_def)
  have "fst (loggerWriter_Write ?b) = (case map_of level_names ''WARN'' of None \<Rightarrow> []
      | Some lv \<Rightarrow> [\<lparr>Level = lv, Message = ''memberlist: slow peer''\<rparr>])"
    using memberlist_lines [of ?b] t c n by blast
  then show ?thesis by (simp add: level_names_def)
qed

end
