(* ===== verification/FailureDetector.thy ===== *)
theory FailureDetector
  imports RegistryFacts
begin

text \<open>
  pkg/registry/registry/failuredetector.go. UpdateLiveness visits every member once, in map
  order, and moves its liveness on. \<open>None\<close> is a nil-pointer panic;
  \<open>UpdateLiveness_refines\<close> says when it happens. The version of an update is stamped with the wall
  clock read when the member is processed (\<open>clk i\<close>), not with the timestamp the pass was
  started with (\<open>ts\<close>), as in the source. The decision that a pass takes for one member is
  \<open>liveness_decision\<close>; the pass is shown to implement it whatever the map order.
\<close>

definition updateOwnedMemberLivenessLocked ::
  "(liveness \<Rightarrow> string) \<Rightarrow> int \<Rightarrow> string \<Rightarrow> int \<Rightarrow> registry \<Rightarrow> registry option"
where
  "updateOwnedMemberLivenessLocked ls clk i timestamp r =
     (let seen = (case lastSeen r i of None \<Rightarrow> 0 | Some t \<Rightarrow> t)
      in case members r i of
           None \<Rightarrow> None
         | Some member \<Rightarrow>
             (case Liveness member of
                Liveness_UP \<Rightarrow>
                  if heartbeatTimeout r < sub64 timestamp seen
                  then updateMemberLocked ls clk (State member) Liveness_DOWN
                    (add64 timestamp (reconnectTimeout r)) [] r
                  else Some r
              | Liveness_DOWN \<Rightarrow>
                  if Expiry member < timestamp
                  then updateMemberLocked ls clk (State member) Liveness_LEFT
                    (add64 timestamp (tombstoneTimeout r)) [] r
                  else Some r
              | Liveness_LEFT \<Rightarrow>
                  if Expiry member < timestamp then Some (deleteMemberLocked ls i r) else Some r
              | Liveness_other _ \<Rightarrow> Some r))"

definition updateRemoteMemberLivenessLocked ::
  "(liveness \<Rightarrow> string) \<Rightarrow> int \<Rightarrow> string \<Rightarrow> int \<Rightarrow> registry \<Rightarrow> registry option"
where
  "updateRemoteMemberLivenessLocked ls clk i timestamp r =
     (case members r i of
        None \<Rightarrow> None
      | Some member \<Rightarrow>
          (if Liveness member = Liveness_LEFT \<and> Expiry member < timestamp
           then Some (deleteMemberLocked ls i r)
           else case leftNodes r (OwnerId (Version member)) of
               None \<Rightarrow> Some r
             | Some ownerLastContact \<Rightarrow>
                 if heartbeatTimeout r < sub64 timestamp ownerLastContact
                 then if Liveness member = Liveness_UP
                      then updateMemberLocked ls clk (State member) Liveness_DOWN
                        (add64 timestamp (reconnectTimeout r)) [] r
                      else updateMemberLocked ls clk (State member) (Liveness member)
                        (Expiry member) [] r
                 else Some r))"

definition updateMemberLivenessLocked ::
  "(liveness \<Rightarrow> string) \<Rightarrow> int \<Rightarrow> string \<Rightarrow> int \<Rightarrow> registry \<Rightarrow> registry option"
where
  "updateMemberLivenessLocked ls clk i timestamp r =
     (if i = localID r then Some r
      else case members r i of
          None \<Rightarrow> None
        | Some m \<Rightarrow>
            if OwnerId (Version m) = localID r
            then updateOwnedMemberLivenessLocked ls clk i timestamp r
            else updateRemoteMemberLivenessLocked ls clk i timestamp r)"

definition UpdateLiveness ::
  "(liveness \<Rightarrow> string) \<Rightarrow> (string \<Rightarrow> int) \<Rightarrow> string list \<Rightarrow> int \<Rightarrow> registry \<Rightarrow> registry option"
where
  "UpdateLiveness ls clk ms timestamp r =
     foldM (\<lambda>i. updateMemberLivenessLocked ls (clk i) i timestamp) ms r"

subsection \<open>The decision for one member\<close>

datatype decision = Keep | Remove | Become liveness int

definition liveness_decision :: "registry \<Rightarrow> int \<Rightarrow> string \<Rightarrow> member2 \<Rightarrow> decision" where
  "liveness_decision r ts i m =
     (if i = localID r then Keep
      else if Liveness m = Liveness_LEFT \<and> Expiry m < ts then Remove
      else if OwnerId (Version m) = localID r then
        (if Liveness m = Liveness_UP \<and>
            heartbeatTimeout r < sub64 ts (case lastSeen r i of None \<Rightarrow> 0 | Some t \<Rightarrow> t)
         then Become Liveness_DOWN (add64 ts (reconnectTimeout r))
         else if Liveness m = Liveness_DOWN \<and> Expiry m < ts
         then Become Liveness_LEFT (add64 ts (tombstoneTimeout r))
         else Keep)
      else case leftNodes r (OwnerId (Version m)) of
          None \<Rightarrow> Keep
        | Some t \<Rightarrow>
            if heartbeatTimeout r < sub64 ts t
            then if Liveness m = Liveness_UP
                 then Become Liveness_DOWN (add64 ts (reconnectTimeout r))
                 else Become (Liveness m) (Expiry m)
            else Keep)"

fun apply_decision :: "(liveness \<Rightarrow> string) \<Rightarrow> int \<Rightarrow> string \<Rightarrow> member2 \<Rightarrow> decision \<Rightarrow> registry \<Rightarrow> registry"
where
  "apply_decision ls clk i m Keep r = r"
| "apply_decision ls clk i m Remove r = deleteMemberLocked ls i r"
| "apply_decision ls clk i m (Become l ex) r = update_result ls clk (State m) l ex [] r"

definition decision_panics :: "int \<Rightarrow> member2 \<Rightarrow> decision \<Rightarrow> registry \<Rightarrow> bool" where
  "decision_panics clk m d r \<longleftrightarrow>
     (case d of Become l ex \<Rightarrow> update_panics clk (State m) [] r | _ \<Rightarrow> False)"

lemma updateMemberLiveness_decision:
  assumes "members r i = Some m"
  shows "updateMemberLivenessLocked ls clk i ts r =
    (if decision_panics clk m (liveness_decision r ts i m) r then None
     else Some (apply_decision ls clk i m (liveness_decision r ts i m) r))"
  using assms
  by (auto simp: updateMemberLivenessLocked_def updateOwnedMemberLivenessLocked_def
      updateRemoteMemberLivenessLocked_def liveness_decision_def decision_panics_def updateMemberLocked_eq
      Let_def split: liveness.split option.split)

lemma apply_decision_inv:
  assumes "reg_inv ls r" and "members r i = Some m" and "liveness_decision r ts i m = d"
  shows "reg_inv ls (apply_decision ls clk i m d r)"
proof (cases d)
  case Remove
  then have "i \<noteq> localID r" using assms(3) by (auto simp: liveness_decision_def)
  with Remove show ?thesis using assms(1) by (simp add: reg_inv_delete)
qed (use assms(1) in \<open>simp_all add: reg_inv_update\<close>)

text \<open>Processing one member touches no other member, and nothing another decision reads.\<close>

definition same_context :: "registry \<Rightarrow> registry \<Rightarrow> bool" where
  "same_context r r' \<longleftrightarrow> localID r' = localID r \<and> logger r' = logger r \<and> leftNodes r' = leftNodes r \<and>
     heartbeatTimeout r' = heartbeatTimeout r \<and> reconnectTimeout r' = reconnectTimeout r \<and>
     tombstoneTimeout r' = tombstoneTimeout r"

definition same_entry :: "string \<Rightarrow> registry \<Rightarrow> registry \<Rightarrow> bool" where
  "same_entry i r r' \<longleftrightarrow> members r' i = members r i \<and> lastSeen r' i = lastSeen r i"

lemma decision_cong:
  "same_context r r' \<Longrightarrow> same_entry i r r' \<Longrightarrow> liveness_decision r' ts i m = liveness_decision r ts i m"
  unfolding same_context_def same_entry_def liveness_decision_def
  by (elim conjE) (simp only:)

lemma apply_decision_context: "same_context r (apply_decision ls clk i m d r)"
  by (cases d) (simp_all add: same_context_def)

lemma apply_decision_other:
  assumes "MemberId (State m) = i" and "j \<noteq> i"
  shows "same_entry j r (apply_decision ls clk i m d r)"
  using assms by (cases d)
    (simp_all add: same_entry_def members_update_result lastSeen_update_result)

lemma same_context_trans: "same_context a b \<Longrightarrow> same_context b c \<Longrightarrow> same_context a c"
  by (simp add: same_context_def)

lemma same_entry_trans: "same_entry i a b \<Longrightarrow> same_entry i b c \<Longrightarrow> same_entry i a c"
  by (simp add: same_entry_def)

text \<open>
  A pass over distinct members, all present, treats each member as if it were the only one: there is
  a moment \<open>s\<close> of the pass whose state agrees with the start on the member, and the member ends as
  the decision of the start applied there. If that panics the pass does.
\<close>

definition moment :: "(liveness \<Rightarrow> string) \<Rightarrow> string \<Rightarrow> registry \<Rightarrow> registry \<Rightarrow> bool" where
  "moment ls i r s \<longleftrightarrow> same_context r s \<and> same_entry i r s \<and> reg_inv ls s"

lemma moment_trans:
  "same_context r r1 \<Longrightarrow> same_entry k r r1 \<Longrightarrow> moment ls k r1 s \<Longrightarrow> moment ls k r s"
  unfolding moment_def using same_context_trans same_entry_trans by blast

lemma moment_here: "reg_inv ls r \<Longrightarrow> moment ls i r r"
  by (simp add: moment_def same_context_def same_entry_def)

definition passed ::
  "(liveness \<Rightarrow> string) \<Rightarrow> int \<Rightarrow> int \<Rightarrow> string \<Rightarrow> member2 \<Rightarrow> registry \<Rightarrow> registry \<Rightarrow> bool"
where
  "passed ls clk ts i m r r' \<longleftrightarrow>
     (\<exists>s. moment ls i r s \<and> \<not> decision_panics clk m (liveness_decision r ts i m) s \<and>
        same_entry i (apply_decision ls clk i m (liveness_decision r ts i m) s) r')"

definition panicked ::
  "(liveness \<Rightarrow> string) \<Rightarrow> (string \<Rightarrow> int) \<Rightarrow> string set \<Rightarrow> int \<Rightarrow> registry \<Rightarrow> bool"
where
  "panicked ls clk S ts r \<longleftrightarrow> (\<exists>i \<in> S. \<exists>m s. members r i = Some m \<and> moment ls i r s \<and>
     decision_panics (clk i) m (liveness_decision r ts i m) s)"

lemma liveness_pass:
  assumes "reg_inv ls r" and "distinct ms" and "set ms \<subseteq> dom (members r)"
  shows "case foldM (\<lambda>i. updateMemberLivenessLocked ls (clk i) i ts) ms r of
      None \<Rightarrow> panicked ls clk (set ms) ts r
    | Some r' \<Rightarrow> reg_inv ls r' \<and> same_context r r' \<and> (\<forall>j. j \<notin> set ms \<longrightarrow> same_entry j r r') \<and>
        (\<forall>i m. i \<in> set ms \<longrightarrow> members r i = Some m \<longrightarrow> passed ls (clk i) ts i m r r')"
  using assms
proof (induction ms arbitrary: r)
  case Nil
  then show ?case by (simp add: same_context_def same_entry_def)
next
  case (Cons i ms)
  let ?f = "\<lambda>i. updateMemberLivenessLocked ls (clk i) i ts"
  from Cons.prems(3) obtain m where m: "members r i = Some m" by auto
  let ?d = "liveness_decision r ts i m"
  let ?r1 = "apply_decision ls (clk i) i m ?d r"
  show ?case
  proof (cases "decision_panics (clk i) m ?d r")
    case True
    then have "panicked ls clk (set (i # ms)) ts r"
      using m moment_here [OF Cons.prems(1)] unfolding panicked_def by fastforce
    with True m show ?thesis by (simp add: updateMemberLiveness_decision)
  next
    case False
    then have step: "?f i r = Some ?r1" using m by (simp add: updateMemberLiveness_decision)
    have inv1: "reg_inv ls ?r1" by (rule apply_decision_inv [OF Cons.prems(1) m refl])
    have ctx1: "same_context r ?r1" by (rule apply_decision_context)
    have other1: "same_entry j r ?r1" if "j \<noteq> i" for j
      by (rule apply_decision_other [OF reg_inv_id [OF Cons.prems(1) m] that])
    have at_ms: "members ?r1 k = members r k" "same_entry k r ?r1"
      "liveness_decision ?r1 ts k n = liveness_decision r ts k n" if "k \<in> set ms" for k n
    proof -
      have "k \<noteq> i" using Cons.prems(2) that by auto
      then show s: "same_entry k r ?r1" by (rule other1)
      then show "members ?r1 k = members r k" by (simp add: same_entry_def)
      show "liveness_decision ?r1 ts k n = liveness_decision r ts k n"
        by (rule decision_cong [OF ctx1 s])
    qed
    have "set ms \<subseteq> dom (members ?r1)" using at_ms(1) Cons.prems(3) by (auto simp: domIff)
    note IH = Cons.IH [OF inv1 _ this]
    show ?thesis
    proof (cases "foldM ?f ms ?r1")
      case None
      then have "panicked ls clk (set ms) ts ?r1" using IH Cons.prems(2) by simp
      then have "panicked ls clk (set (i # ms)) ts r"
        using at_ms moment_trans [OF ctx1] unfolding panicked_def
        by (metis list.set_intros(2))
      then show ?thesis using step None by simp
    next
      case (Some r')
      then have rest: "reg_inv ls r'" "same_context ?r1 r'" "\<And>j. j \<notin> set ms \<Longrightarrow> same_entry j ?r1 r'"
        "\<And>k n. k \<in> set ms \<Longrightarrow> members ?r1 k = Some n \<Longrightarrow> passed ls (clk k) ts k n ?r1 r'"
        using IH Cons.prems(2) by auto
      have "passed ls (clk k) ts k n r r'" if k: "k \<in> set (i # ms)" "members r k = Some n" for k n
      proof (cases "k = i")
        case True
        then show ?thesis
          using k m False rest(3) [of i] Cons.prems(2) moment_here [OF Cons.prems(1)]
          by (auto simp: passed_def)
      next
        case False
        then have "k \<in> set ms" using k by simp
        then show ?thesis
          using rest(4) [of k n] at_ms(1,2) [of k] at_ms(3) [of k n] k(2) moment_trans [OF ctx1]
          unfolding passed_def by metis
      qed
      moreover have "same_entry j r r'" if "j \<notin> set (i # ms)" for j
        using other1 [of j] rest(3) [of j] that by (auto intro: same_entry_trans)
      ultimately show ?thesis using step Some rest(1) same_context_trans [OF ctx1 rest(2)] by simp
    qed
  qed
qed

lemma UpdateLiveness_pass:
  assumes "reg_inv ls r" and "iter_order ms (members r)" and "UpdateLiveness ls clk ms ts r = Some r'"
  shows "reg_inv ls r'" "same_context r r'" "members r j = None \<Longrightarrow> same_entry j r r'"
    "members r i = Some m \<Longrightarrow> passed ls (clk i) ts i m r r'"
proof -
  have "distinct ms" and dom: "set ms = dom (members r)"
    using assms(2) by (simp_all add: iter_order_def)
  then have all: "reg_inv ls r' \<and> same_context r r' \<and> (\<forall>j. j \<notin> set ms \<longrightarrow> same_entry j r r') \<and>
        (\<forall>i m. i \<in> set ms \<longrightarrow> members r i = Some m \<longrightarrow> passed ls (clk i) ts i m r r')"
    using liveness_pass [OF assms(1), of ms clk ts] assms(3) by (simp add: UpdateLiveness_def)
  show "reg_inv ls r'" "same_context r r'" using all by blast+
  show "members r j = None \<Longrightarrow> same_entry j r r'" using all dom by auto
  show "members r i = Some m \<Longrightarrow> passed ls (clk i) ts i m r r'" using all dom by auto
qed

text \<open>
  When a pass panics: some member whose liveness it has to change has no locality, and its version is
  stamped no earlier than the clock, so that the update is outdated and the error is logged.
\<close>

definition skewed :: "registry \<Rightarrow> int \<Rightarrow> (string \<Rightarrow> int) \<Rightarrow> string \<Rightarrow> member2 \<Rightarrow> bool" where
  "skewed r ts clk i m \<longleftrightarrow> logger r \<and> members r i = Some m \<and> Locality (State m) = None \<and>
     (\<exists>l ex. liveness_decision r ts i m = Become l ex) \<and> clk i \<le> Timestamp (VTimestamp (Version m))"

lemma decision_panics_skewed:
  assumes "reg_inv ls r" and "members r i = Some m" and "moment ls i r s"
    and "decision_panics (clk i) m (liveness_decision r ts i m) s"
  shows "skewed r ts clk i m"
proof -
  obtain l ex where d: "liveness_decision r ts i m = Become l ex"
    and p: "update_panics (clk i) (State m) [] s"
    using assms(4) by (auto simp: decision_panics_def split: decision.splits)
  have i: "i \<noteq> localID r" using d by (auto simp: liveness_decision_def)
  have s: "localID s = localID r" "logger s = logger r" "members s i = Some m"
    using assms(2,3) by (auto simp: moment_def same_context_def same_entry_def)
  have "update_outdated (clk i) i [] s"
    using p i s(1) reg_inv_id [OF assms(1,2)] by (simp add: update_panics_def)
  then have "\<not> newer (Version m) (update_version (clk i) [] s)" using s(3) by (simp add: update_outdated_def)
  then have "clk i \<le> Timestamp (VTimestamp (Version m))"
    by (cases "OwnerId (Version m) = localID s") (auto simp: newer_iff defaultOptions_def)
  then show ?thesis using d p s(2) assms(2) by (simp add: skewed_def update_panics_def)
qed

lemma UpdateLiveness_panics:
  assumes "reg_inv ls r" and "iter_order ms (members r)" and "UpdateLiveness ls clk ms ts r = None"
  shows "\<exists>i m. skewed r ts clk i m"
proof -
  have "panicked ls clk (set ms) ts r"
    using liveness_pass [OF assms(1), of ms clk ts] assms(2,3)
    by (simp add: UpdateLiveness_def iter_order_def)
  then show ?thesis using decision_panics_skewed [OF assms(1)] unfolding panicked_def by blast
qed

lemma UpdateLiveness_total:
  assumes "reg_inv ls r" and "iter_order ms (members r)" and "\<And>i m. \<not> skewed r ts clk i m"
  shows "\<exists>r'. UpdateLiveness ls clk ms ts r = Some r' \<and> reg_inv ls r' \<and> same_context r r'"
proof (cases "UpdateLiveness ls clk ms ts r")
  case None
  then show ?thesis using UpdateLiveness_panics [OF assms(1,2)] assms(3) by blast
next
  case (Some r')
  then show ?thesis using UpdateLiveness_pass(1,2) [OF assms(1,2)] by blast
qed

lemma skewed_logger [simp]: "\<not> logger r \<Longrightarrow> \<not> skewed r ts clk i m"
  by (simp add: skewed_def)

lemma UpdateLiveness_quiet:
  assumes "reg_inv ls r" and "iter_order ms (members r)" and "\<not> logger r"
  shows "\<exists>r'. UpdateLiveness ls clk ms ts r = Some r'"
  using UpdateLiveness_total [OF assms(1,2)] assms(3) by (auto simp: skewed_def)

lemma UpdateLiveness_skewed:
  assumes "reg_inv ls r" and "iter_order ms (members r)" and "skewed r ts clk i m"
    and "OwnerId (Version m) \<noteq> localID r \<or> clk i < Timestamp (VTimestamp (Version m))"
  shows "UpdateLiveness ls clk ms ts r = None"
proof (rule ccontr)
  assume "UpdateLiveness ls clk ms ts r \<noteq> None"
  then obtain r' where "UpdateLiveness ls clk ms ts r = Some r'" by blast
  from UpdateLiveness_pass(4) [OF assms(1,2) this, of i m] assms(3) obtain s where
    s: "moment ls i r s" "\<not> decision_panics (clk i) m (liveness_decision r ts i m) s"
    by (auto simp: passed_def skewed_def)
  have m: "members r i = Some m" using assms(3) by (simp add: skewed_def)
  have at: "localID s = localID r" "logger s = logger r" "members s i = Some m"
    using s(1) m by (auto simp: moment_def same_context_def same_entry_def)
  have "\<not> newer (Version m) (update_version (clk i) [] s)"
    using assms(3,4) at(1) by (auto simp: skewed_def newer_iff defaultOptions_def)
  then have "update_outdated (clk i) i [] s" using at(3) by (simp add: update_outdated_def)
  then have "update_panics (clk i) (State m) [] s"
    using assms(3) at(2) reg_inv_id [OF assms(1) m] by (simp add: update_panics_def skewed_def)
  then show False using s(2) assms(3) by (auto simp: decision_panics_def skewed_def)
qed

text \<open>How a member that is not the node's own ends up, by decision.\<close>

definition decided :: "string \<Rightarrow> int \<Rightarrow> member2 \<Rightarrow> decision \<Rightarrow> member2 option \<Rightarrow> bool" where
  "decided lid clk m d res \<longleftrightarrow>
     (case d of
        Keep \<Rightarrow> res = Some m
      | Remove \<Rightarrow> res = None
      | Become l ex \<Rightarrow> (\<exists>c. let v = \<lparr>OwnerId = lid, VTimestamp = MonotonicTimestamp clk c\<rparr> in
          res = Some (if newer (Version m) v
                      then \<lparr>State = State m, Liveness = l, Version = v, Expiry = ex\<rparr> else m)))"

lemma apply_decision_decided:
  assumes "members s i = Some m" and "MemberId (State m) = i"
    and "liveness_decision s ts i m = d"
  shows "decided (localID s) clk m d (members (apply_decision ls clk i m d s) i)"
proof (cases d)
  case (Become l ex)
  have "i \<noteq> localID s" using assms(3) Become by (auto simp: liveness_decision_def)
  moreover have "update_version clk [] s = \<lparr>OwnerId = localID s,
      VTimestamp = MonotonicTimestamp clk (Counter (VTimestamp (update_version clk [] s)))\<rparr>"
    by (simp add: update_version_def nextVersionLocked_def Let_def defaultOptions_def)
  ultimately show ?thesis
    using Become assms(1,2)
    by (auto simp: decided_def Let_def members_update_result update_outdated_def
        intro!: exI [of _ "Counter (VTimestamp (update_version clk [] s))"])
qed (use assms in \<open>simp_all add: decided_def\<close>)

lemma UpdateLiveness_entry:
  assumes inv: "reg_inv ls r" and ord: "iter_order ms (members r)"
    and run: "UpdateLiveness ls clk ms ts r = Some r'" and m: "members r i = Some m"
  shows "decided (localID r) (clk i) m (liveness_decision r ts i m) (members r' i)"
proof -
  from UpdateLiveness_pass(4) [OF inv ord run m] obtain s where
    s: "same_context r s" "same_entry i r s" "reg_inv ls s"
    "same_entry i (apply_decision ls (clk i) i m (liveness_decision r ts i m) s) r'"
    by (auto simp: passed_def moment_def)
  have "decided (localID s) (clk i) m (liveness_decision s ts i m)
      (members (apply_decision ls (clk i) i m (liveness_decision s ts i m) s) i)"
    by (rule apply_decision_decided)
      (use s m inv in \<open>simp_all add: same_entry_def reg_inv_id\<close>)
  with s decision_cong [OF s(1,2)] show ?thesis
    by (simp add: same_context_def same_entry_def)
qed

lemma UpdateLiveness_absent:
  assumes "reg_inv ls r" and "iter_order ms (members r)"
    and "UpdateLiveness ls clk ms ts r = Some r'" and "members r i = None"
  shows "members r' i = None"
  using UpdateLiveness_pass(3) [OF assms(1-3)] assms(4) by (simp add: same_entry_def)

subsection \<open>Properties\<close>

text \<open>
  C2: a failure-detector pass implements the per-member decision, whatever order the member map
  is ranged over in: it keeps the registry invariant, invents no member, and each member ends as
  \<open>liveness_decision\<close> says - kept, removed, or given the new liveness and expiry under a version
  of this node stamped with the clock, where that version is newer than the stored one. It panics
  only if it has to change a member without a locality that is stamped no earlier than the clock,
  while the logger writes errors; and then it does panic, unless the node owns the member and both
  stamps fall into the same millisecond, where the counter decides.
\<close>
theorem UpdateLiveness_refines:
  assumes "reg_inv ls r" and "iter_order ms (members r)"
  shows "case UpdateLiveness ls clk ms ts r of
      None \<Rightarrow> (\<exists>i m. skewed r ts clk i m)
    | Some r' \<Rightarrow> reg_inv ls r' \<and>
        (\<forall>i. case members r i of
            None \<Rightarrow> members r' i = None
          | Some m \<Rightarrow> decided (localID r) (clk i) m (liveness_decision r ts i m) (members r' i)) \<and>
        \<not> (\<exists>i m. skewed r ts clk i m \<and>
             (OwnerId (Version m) \<noteq> localID r \<or> clk i < Timestamp (VTimestamp (Version m))))"
proof (cases "UpdateLiveness ls clk ms ts r")
  case None
  then show ?thesis using UpdateLiveness_panics [OF assms] by simp
next
  case (Some r')
  have "\<not> (\<exists>i m. skewed r ts clk i m \<and>
      (OwnerId (Version m) \<noteq> localID r \<or> clk i < Timestamp (VTimestamp (Version m))))"
    using UpdateLiveness_skewed [OF assms] Some by fastforce
  then show ?thesis
    using Some UpdateLiveness_pass(1) [OF assms Some] UpdateLiveness_entry [OF assms Some]
      UpdateLiveness_absent [OF assms Some] by (simp split: option.split)
qed

lemma sample_order [simp, intro]: "iter_order [''m''] (members sample_registry)"
  by (simp add: iter_order_def)

theorem UpdateLiveness_refines_witness:
  "(\<exists>r'. UpdateLiveness sample_text (\<lambda>_. 30000) [''m''] 30000 sample_registry = Some r' \<and>
     decided ''n1'' 30000 (sample_member ''m'' Liveness_UP ''n1'' 100 0)
       (Become Liveness_DOWN 330000) (members r' ''m'')) \<and>
   UpdateLiveness sample_text (\<lambda>_. 50) [''m''] 30000 (sample_registry\<lparr>logger := True\<rparr>) = None"
proof -
  let ?m = "sample_member ''m'' Liveness_UP ''n1'' 100 0" and ?r = "sample_registry\<lparr>logger := True\<rparr>"
  have d: "liveness_decision sample_registry 30000 ''m'' ?m = Become Liveness_DOWN 330000"
    by (simp add: liveness_decision_def sample_member_def go_defs)
  obtain r' where r': "UpdateLiveness sample_text (\<lambda>_. 30000) [''m''] 30000 sample_registry = Some r'"
    using UpdateLiveness_quiet [OF sample_registry_inv sample_order] by auto
  have 1: "decided ''n1'' 30000 ?m (Become Liveness_DOWN 330000) (members r' ''m'')"
    using UpdateLiveness_refines [OF sample_registry_inv sample_order, of 30000 "\<lambda>_. 30000"] r' d
    by (auto dest!: spec [of _ "''m''"])
  have inv: "reg_inv sample_text ?r" and ord: "iter_order [''m''] (members ?r)"
    using sample_registry_inv by (simp_all add: iter_order_def del: sample_registry_inv)
  have late: "skewed ?r 30000 (\<lambda>_. 50) ''m'' ?m" "(50::int) < Timestamp (VTimestamp (Version ?m))"
    by (simp_all add: skewed_def liveness_decision_def sample_member_def zero_state_def go_defs)
  have "UpdateLiveness sample_text (\<lambda>_. 50) [''m''] 30000 ?r = None"
  proof (rule ccontr)
    assume "UpdateLiveness sample_text (\<lambda>_. 50) [''m''] 30000 ?r \<noteq> None"
    then obtain a where "UpdateLiveness sample_text (\<lambda>_. 50) [''m''] 30000 ?r = Some a" by blast
    from UpdateLiveness_refines [OF inv ord, of 30000 "\<lambda>_. 50", unfolded this option.case] late
    show False by blast
  qed
  then show ?thesis using r' 1 by blast
qed

lemma decided_become:
  assumes "decided lid clk m (Become l ex) res" and "Timestamp (VTimestamp (Version m)) < clk"
  shows "\<exists>v. OwnerId v = lid \<and> Timestamp (VTimestamp v) = clk \<and>
    res = Some \<lparr>State = State m, Liveness = l, Version = v, Expiry = ex\<rparr>"
  using assms by (auto simp: decided_def Let_def newer_iff)

lemma pass_become:
  assumes "reg_inv ls r" and "iter_order ms (members r)"
    and "UpdateLiveness ls clk ms ts r = Some r'" and "members r i = Some m"
    and "liveness_decision r ts i m = Become l ex"
    and "Timestamp (VTimestamp (Version m)) < clk i"
  shows "\<exists>v. OwnerId v = localID r \<and> Timestamp (VTimestamp v) = clk i \<and>
    members r' i = Some \<lparr>State = State m, Liveness = l, Version = v, Expiry = ex\<rparr>"
  using UpdateLiveness_entry [OF assms(1-4)] assms(5,6) by (auto dest: decided_become)

lemma pass_context:
  assumes "reg_inv ls r" and "iter_order ms (members r)"
    and "UpdateLiveness ls clk ms ts r = Some r'"
  shows "reg_inv ls r' \<and> same_context r r'"
  using UpdateLiveness_pass(1,2) [OF assms] by blast

text \<open>
  C17: a member that falls silent is eventually removed by its owner: a pass after the heartbeat
  timeout marks it down with the reconnect deadline, a pass after that deadline marks it left
  with the tombstone deadline, and a pass after that removes it - whatever the other members are
  and in whatever order the passes visit them, provided the clock moves forward.
\<close>
theorem silent_member_removed:
  assumes inv: "reg_inv ls r" and m: "members r i = Some m" and i: "i \<noteq> localID r"
    and own: "OwnerId (Version m) = localID r" and up: "Liveness m = Liveness_UP"
    and seen: "lastSeen r i = Some t0" and silent: "heartbeatTimeout r < sub64 t1 t0"
    and clocks: "Timestamp (VTimestamp (Version m)) < clk1 i" "clk1 i < clk2 i"
    and pass1: "iter_order ms1 (members r)" "UpdateLiveness ls clk1 ms1 t1 r = Some r1"
    and pass2: "iter_order ms2 (members r1)" "UpdateLiveness ls clk2 ms2 t2 r1 = Some r2"
    and pass3: "iter_order ms3 (members r2)" "UpdateLiveness ls clk3 ms3 t3 r2 = Some r3"
    and later: "add64 t1 (reconnectTimeout r) < t2" "add64 t2 (tombstoneTimeout r) < t3"
  shows "map_option Liveness (members r1 i) = Some Liveness_DOWN \<and>
    map_option Liveness (members r2 i) = Some Liveness_LEFT \<and> members r3 i = None"
proof -
  have "liveness_decision r t1 i m = Become Liveness_DOWN (add64 t1 (reconnectTimeout r))"
    using i own up seen silent by (simp add: liveness_decision_def)
  from pass_become [OF inv pass1 m this clocks(1)] obtain v1 where
    v1: "OwnerId v1 = localID r" "Timestamp (VTimestamp v1) = clk1 i" and
    m1: "members r1 i = Some \<lparr>State = State m, Liveness = Liveness_DOWN, Version = v1,
           Expiry = add64 t1 (reconnectTimeout r)\<rparr>" (is "_ = Some ?m1") by auto
  from pass_context [OF inv pass1] have r1: "reg_inv ls r1" "same_context r r1" by auto
  have "liveness_decision r1 t2 i ?m1 = Become Liveness_LEFT (add64 t2 (tombstoneTimeout r))"
    using i v1 r1(2) later(1) by (simp add: liveness_decision_def same_context_def)
  from pass_become [OF r1(1) pass2 m1 this] clocks(2) v1 obtain v2 where
    v2: "OwnerId v2 = localID r1" and
    m2: "members r2 i = Some \<lparr>State = State m, Liveness = Liveness_LEFT, Version = v2,
           Expiry = add64 t2 (tombstoneTimeout r)\<rparr>" (is "_ = Some ?m2") by auto
  from pass_context [OF r1(1) pass2] have r2: "reg_inv ls r2" "same_context r1 r2" by auto
  have "liveness_decision r2 t3 i ?m2 = Remove"
    using i r1(2) r2(2) later(2) by (simp add: liveness_decision_def same_context_def)
  with UpdateLiveness_entry [OF r2(1) pass3 m2] have "members r3 i = None"
    by (simp add: decided_def)
  with m1 m2 show ?thesis by simp
qed

lemma sample_member_fields [simp]:
  "State (sample_member i l o' t ex) = zero_state i" "Liveness (sample_member i l o' t ex) = l"
  "OwnerId (Version (sample_member i l o' t ex)) = o'" "Expiry (sample_member i l o' t ex) = ex"
  "VTimestamp (Version (sample_member i l o' t ex)) = MonotonicTimestamp t 0"
  by (simp_all add: sample_member_def)

lemma iter_order_singleton:
  assumes "iter_order [i] m" and "m i = Some v"
  shows "m = [i \<mapsto> v]"
proof
  fix j
  show "m j = [i \<mapsto> v] j"
    using assms by (cases "j = i") (auto simp: iter_order_def domIff)
qed

lemma pass_dom_singleton:
  assumes "reg_inv ls r" and "members r = [i \<mapsto> m]" and "liveness_decision r ts i m = Become l ex"
    and "UpdateLiveness ls clk [i] ts r = Some r'"
  shows "iter_order [i] (members r')"
proof -
  have ord: "iter_order [i] (members r)" by (simp add: assms(2) iter_order_def)
  have "members r' j = None" if "j \<noteq> i" for j
    using UpdateLiveness_absent [OF assms(1) ord assms(4)] that by (simp add: assms(2))
  moreover have "members r' i \<noteq> None"
    using UpdateLiveness_entry [OF assms(1) ord assms(4), of i m] assms(2,3)
    by (auto simp: decided_def Let_def)
  ultimately show ?thesis by (fastforce simp: iter_order_def)
qed

theorem silent_member_removed_witness:
  "\<exists>r1 r2 r3. UpdateLiveness sample_text (\<lambda>_. 30000) [''m''] 30000 sample_registry = Some r1 \<and>
     UpdateLiveness sample_text (\<lambda>_. 400000) [''m''] 400000 r1 = Some r2 \<and>
     UpdateLiveness sample_text (\<lambda>_. 3000000) [''m''] 3000000 r2 = Some r3 \<and>
     members r3 ''m'' = None"
proof -
  let ?m = "sample_member ''m'' Liveness_UP ''n1'' 100 0"
  let ?pass = "\<lambda>t. UpdateLiveness sample_text (\<lambda>_. t) [''m''] t"
  obtain r1 where p1: "?pass 30000 sample_registry = Some r1"
    using UpdateLiveness_quiet [OF sample_registry_inv sample_order] by auto
  note c1 = pass_context [OF sample_registry_inv sample_order p1]
  have d1: "liveness_decision sample_registry 30000 ''m'' ?m = Become Liveness_DOWN 330000"
    by (simp add: liveness_decision_def go_defs)
  note o1 = pass_dom_singleton [OF sample_registry_inv sample_registry_fields(2) d1 p1]
  obtain v1 where v1: "OwnerId v1 = ''n1''" "Timestamp (VTimestamp v1) = 30000"
    "members r1 ''m'' = Some \<lparr>State = State ?m, Liveness = Liveness_DOWN, Version = v1,
       Expiry = 330000\<rparr>" (is "_ = Some ?m1")
    using pass_become [OF sample_registry_inv sample_order p1 _ d1] by auto
  have m1: "members r1 = [''m'' \<mapsto> ?m1]"
    by (rule iter_order_singleton [OF o1 v1(3)])
  obtain r2 where p2: "?pass 400000 r1 = Some r2"
    using UpdateLiveness_quiet [OF conjunct1 [OF c1] o1] c1 by (auto simp: same_context_def)
  have d2: "liveness_decision r1 400000 ''m'' ?m1 = Become Liveness_LEFT 2200000"
    using c1 v1 by (simp add: liveness_decision_def same_context_def go_defs)
  note o2 = pass_dom_singleton [OF conjunct1 [OF c1] m1 d2 p2]
  obtain r3 where p3: "?pass 3000000 r2 = Some r3"
    using UpdateLiveness_quiet [OF _ o2] c1 pass_context [OF conjunct1 [OF c1] o1 p2]
    unfolding same_context_def by (metis sample_registry_fields(10))
  have "members r3 ''m'' = None"
    using silent_member_removed [OF sample_registry_inv, of "''m''" ?m 100 30000 "\<lambda>_. 30000"
        "\<lambda>_. 400000", OF _ _ _ _ _ _ _ _ sample_order p1 o1 p2 o2 p3]
    by (simp add: go_defs)
  with p1 p2 p3 show ?thesis by blast
qed

text \<open>
  A heartbeat keeps a member alive: after a heartbeat at time t for a member that this node
  owns and holds up, the member is unchanged by every pass whose timestamp is at most the
  heartbeat timeout later, and the heartbeat itself changes no member (nothing is propagated).
\<close>
theorem heartbeat_keeps_member:
  assumes "reg_inv ls r" and "members r i = Some m" and "i \<noteq> localID r"
    and "OwnerId (Version m) = localID r" and "Liveness m = Liveness_UP" and "MemberId st = i"
    and "sub64 ts t \<le> heartbeatTimeout r" and "iter_order ms (members r)"
  shows "\<exists>r1. MemberHeartbeat ls clk clk' st [WithNowTime t] r = Some r1 \<and> members r1 = members r \<and>
    (\<forall>r'. UpdateLiveness ls clks ms ts r1 = Some r' \<longrightarrow> members r' i = Some m)"
proof -
  let ?r = "r\<lparr>lastSeen := (lastSeen r)(i \<mapsto> t)\<rparr>"
  have r: "MemberHeartbeat ls clk clk' st [WithNowTime t] r = Some ?r"
    using assms by (auto simp: MemberHeartbeat_Some beating_def)
  have inv: "reg_inv ls ?r" by (rule reg_inv_MemberHeartbeat [OF r assms(1)])
  have ord: "iter_order ms (members ?r)" using assms(8) by simp
  have "liveness_decision ?r ts i m = Keep"
    using assms by (simp add: liveness_decision_def)
  then have "members r' i = Some m" if "UpdateLiveness ls clks ms ts ?r = Some r'" for r'
    using UpdateLiveness_entry [OF inv ord that, of i m] assms(2) by (simp add: decided_def)
  with r show ?thesis by simp
qed

theorem heartbeat_keeps_member_witness:
  "\<exists>r1 r'. MemberHeartbeat sample_text 0 0 (zero_state ''m'') [WithNowTime 25000] sample_registry = Some r1 \<and>
   UpdateLiveness sample_text (\<lambda>_. 40000) [''m''] 40000 r1 = Some r' \<and>
   members r' ''m'' = Some (sample_member ''m'' Liveness_UP ''n1'' 100 0)"
proof -
  let ?r1 = "sample_registry\<lparr>lastSeen := [''m'' \<mapsto> 25000]\<rparr>"
  have r1: "MemberHeartbeat sample_text 0 0 (zero_state ''m'') [WithNowTime 25000] sample_registry = Some ?r1"
    by (simp add: MemberHeartbeat_Some beating_def)
  have "reg_inv sample_text ?r1" "iter_order [''m''] (members ?r1)"
    using reg_inv_MemberHeartbeat [OF r1 sample_registry_inv] by (simp_all add: iter_order_def)
  from UpdateLiveness_quiet [OF this] obtain r' where
    "UpdateLiveness sample_text (\<lambda>_. 40000) [''m''] 40000 ?r1 = Some r'" by auto
  moreover from heartbeat_keeps_member [OF sample_registry_inv _ _ _ _ _ _ sample_order,
      of "''m''" "sample_member ''m'' Liveness_UP ''n1'' 100 0" "zero_state ''m''" 40000 25000 0 0 "\<lambda>_. 40000"]
  have "members r' ''m'' = Some (sample_member ''m'' Liveness_UP ''n1'' 100 0)"
    using r1 calculation by (simp add: go_defs)
  ultimately show ?thesis using r1 by blast
qed

text \<open>
  C18: the members of a node that left are taken over. Once the heartbeat timeout has passed since
  OnNodeLeave, a pass makes this node the owner of each of its members - an up member goes down
  with a reconnect deadline, a down or still remembered left member keeps its liveness and
  deadline - unless the stored version was stamped at or after this node's clock. If the node
  joined again in between, nothing is taken over.
\<close>
theorem departed_owner_takeover:
  assumes "reg_inv ls r" and "members r i = Some m" and "i \<noteq> localID r"
    and "OwnerId (Version m) = n" and "n \<noteq> localID r" and "leftNodes r n = Some t"
    and "heartbeatTimeout r < sub64 ts t" and "\<not> (Liveness m = Liveness_LEFT \<and> Expiry m < ts)"
    and "Timestamp (VTimestamp (Version m)) < clk i" and "iter_order ms (members r)"
    and "UpdateLiveness ls clk ms ts r = Some r'"
    and "UpdateLiveness ls clk ms ts (OnNodeJoin n r) = Some r''"
  shows "(\<exists>v. OwnerId v = localID r \<and> newer (Version m) v \<and> members r' i = Some
      (if Liveness m = Liveness_UP
       then \<lparr>State = State m, Liveness = Liveness_DOWN, Version = v,
             Expiry = add64 ts (reconnectTimeout r)\<rparr>
       else m\<lparr>Version := v\<rparr>)) \<and>
    members r'' i = Some m"
proof
  have "liveness_decision r ts i m = (if Liveness m = Liveness_UP
      then Become Liveness_DOWN (add64 ts (reconnectTimeout r))
      else Become (Liveness m) (Expiry m))"
    using assms(3-8) by (auto simp: liveness_decision_def)
  then show "\<exists>v. OwnerId v = localID r \<and> newer (Version m) v \<and> members r' i = Some
      (if Liveness m = Liveness_UP
       then \<lparr>State = State m, Liveness = Liveness_DOWN, Version = v,
             Expiry = add64 ts (reconnectTimeout r)\<rparr>
       else m\<lparr>Version := v\<rparr>)"
    using pass_become [OF assms(1,10,11,2) _ assms(9)] assms(9)
    by (cases "Liveness m = Liveness_UP") (auto simp: newer_iff)
next
  have "liveness_decision (OnNodeJoin n r) ts i m = Keep"
    using assms(3-5,8) by (auto simp: liveness_decision_def OnNodeJoin_def)
  then show "members r'' i = Some m"
    using UpdateLiveness_entry [OF reg_inv_OnNodeJoin [OF assms(1)] _ assms(12), of i m] assms(2,10)
    by (simp add: OnNodeJoin_def decided_def)
qed

theorem departed_owner_takeover_witness:
  "\<exists>r r' r'' v. UpdateLiveness sample_text (\<lambda>_. 70000) [''m''] 70000 r = Some r' \<and>
     UpdateLiveness sample_text (\<lambda>_. 70000) [''m''] 70000 (OnNodeJoin ''n2'' r) = Some r'' \<and>
     members r' ''m'' = Some \<lparr>State = zero_state ''m'', Liveness = Liveness_DOWN, Version = v,
       Expiry = 370000\<rparr> \<and>
     members r'' ''m'' = Some (sample_member ''m'' Liveness_UP ''n2'' 500 0)"
proof -
  let ?m = "sample_member ''m'' Liveness_UP ''n2'' 500 0"
  let ?s = "RemoteUpdate sample_text ?m sample_registry"
  let ?r = "OnNodeLeave [''m''] 0 ''n2'' [WithNowTime 1000] ?s"
  have acc: "remote_accepted sample_registry ?m"
    by (simp add: remote_accepted_def newer_iff)
  then have mem: "members ?s = [''m'' \<mapsto> ?m]" by (simp add: members_RemoteUpdate)
  have r: "?r = ?s\<lparr>leftNodes := [''n2'' \<mapsto> 1000]\<rparr>"
    by (simp add: OnNodeLeave_def membersForOwnerLocked_def mem List.map_filter_simps)
  have fields: "members ?r = [''m'' \<mapsto> ?m]" "localID ?r = ''n1''" "leftNodes ?r ''n2'' = Some 1000"
    "heartbeatTimeout ?r = 20000" "reconnectTimeout ?r = 300000"
    by (simp_all add: r mem)
  have quiet: "\<not> logger ?r" by (simp add: r)
  have inv: "reg_inv sample_text ?r"
    by (intro reg_inv_OnNodeLeave reg_inv_RemoteUpdate sample_registry_inv)
  have ord: "iter_order [''m''] (members ?r)" by (simp add: fields iter_order_def)
  obtain r' where p: "UpdateLiveness sample_text (\<lambda>_. 70000) [''m''] 70000 ?r = Some r'"
    using UpdateLiveness_quiet [OF inv ord] quiet by blast
  have ord': "iter_order [''m''] (members (OnNodeJoin ''n2'' ?r))"
    by (simp add: OnNodeJoin_def fields iter_order_def)
  obtain r'' where q:
    "UpdateLiveness sample_text (\<lambda>_. 70000) [''m''] 70000 (OnNodeJoin ''n2'' ?r) = Some r''"
    using UpdateLiveness_quiet [OF reg_inv_OnNodeJoin [OF inv] ord'] quiet by (auto simp: OnNodeJoin_def)
  have "(\<exists>v. members r' ''m'' = Some \<lparr>State = zero_state ''m'', Liveness = Liveness_DOWN,
      Version = v, Expiry = 370000\<rparr>) \<and> members r'' ''m'' = Some ?m"
    using departed_owner_takeover [OF inv, of "''m''" ?m "''n2''" 1000 70000 "\<lambda>_. 70000",
        OF _ _ _ _ _ _ _ _ ord p q]
    by (auto simp: fields go_defs)
  with p q show ?thesis by blast
qed

end
