(* ===== verification/Subscriptions.thy ===== *)
theory Subscriptions
  imports FailureDetector
begin

text \<open>
  Subscriptions of pkg/registry/registry/registry.go: SubscribeLocal, Subscribe with its
  unsubscribe function, Updates and the two functions that compute what a subscriber misses. The
  two loops of those functions range over the member map (order \<open>ms\<close>) and over the
  subscriber's known members (order \<open>ks\<close>). A nil request of Subscribe is \<open>None\<close>; a
  nil KnownMembers map is the empty map, as in the source.
\<close>

subsection \<open>Missed updates\<close>

definition left_update :: "string \<Rightarrow> version2 \<Rightarrow> member2" where
  "left_update i knownVersion =
     \<lparr>State = zero_state i, Liveness = Liveness_LEFT,
      Version = \<lparr>OwnerId = OwnerId knownVersion,
        VTimestamp = MonotonicTimestamp (Timestamp (VTimestamp knownVersion))
          (Counter (VTimestamp knownVersion) + 1)\<rparr>, Expiry = 0\<rparr>"

definition ownerOnlyUpdatesLocked ::
  "string list \<Rightarrow> string list \<Rightarrow> (string \<rightharpoonup> version2) \<Rightarrow> registry \<Rightarrow> member2 list"
where
  "ownerOnlyUpdatesLocked ms ks knownMembers r =
     List.map_filter (\<lambda>i. case members r i of
         None \<Rightarrow> None
       | Some m \<Rightarrow>
           (case knownMembers i of
              Some knownVersion \<Rightarrow>
                if OwnerId (Version m) = localID r \<or> OwnerId knownVersion = localID r
                then if compareVersions knownVersion (Version m) > 0 then Some m else None
                else None
            | None \<Rightarrow> if OwnerId (Version m) = localID r then Some m else None)) ms @
     List.map_filter (\<lambda>i. case knownMembers i of
         None \<Rightarrow> None
       | Some knownVersion \<Rightarrow>
           if members r i \<noteq> None then None
           else if OwnerId knownVersion \<noteq> localID r then None
           else Some (left_update i knownVersion)) ks"

definition allUpdatesLocked ::
  "string list \<Rightarrow> string list \<Rightarrow> (string \<rightharpoonup> version2) \<Rightarrow> registry \<Rightarrow> member2 list"
where
  "allUpdatesLocked ms ks knownMembers r =
     List.map_filter (\<lambda>i. case members r i of
         None \<Rightarrow> None
       | Some m \<Rightarrow>
           (case knownMembers i of
              Some knownVersion \<Rightarrow>
                if compareVersions knownVersion (Version m) > 0 then Some m else None
            | None \<Rightarrow> Some m)) ms @
     List.map_filter (\<lambda>i. case knownMembers i of
         None \<Rightarrow> None
       | Some knownVersion \<Rightarrow>
           if members r i \<noteq> None then None else Some (left_update i knownVersion)) ks"

definition updatesLocked ::
  "string list \<Rightarrow> string list \<Rightarrow> subscribe_request \<Rightarrow> registry \<Rightarrow> member2 list"
where
  "updatesLocked ms ks req r =
     (if OwnerOnly req then ownerOnlyUpdatesLocked ms ks (KnownMembers req) r
      else allUpdatesLocked ms ks (KnownMembers req) r)"

definition Updates ::
  "string list \<Rightarrow> string list \<Rightarrow> subscribe_request \<Rightarrow> registry \<Rightarrow> member2 list"
where
  "Updates ms ks req r = updatesLocked ms ks req r"

subsection \<open>Subscribing\<close>

definition SubscribeLocal :: "registry \<Rightarrow> nat \<times> registry" where
  "SubscribeLocal r =
     (let handle = nextHandle r
      in (handle, r\<lparr>nextHandle := handle + 1, subs := (subs r)(handle \<mapsto> \<lparr>ownerOnly = True\<rparr>)\<rparr>))"

definition Subscribe ::
  "string list \<Rightarrow> string list \<Rightarrow> subscribe_request option \<Rightarrow> registry \<Rightarrow> nat \<times> registry"
where
  "Subscribe ms ks req r =
     (let req' = (case req of None \<Rightarrow> \<lparr>KnownMembers = Map.empty, OwnerOnly = False\<rparr> | Some q \<Rightarrow> q);
          handle = nextHandle r;
          r1 = r\<lparr>nextHandle := handle + 1,
                 subs := (subs r)(handle \<mapsto> \<lparr>ownerOnly = OwnerOnly req'\<rparr>)\<rparr>
      in (handle, r1\<lparr>inbox := (inbox r1)(handle := fold (\<lambda>update sent. sent @ [update])
             (updatesLocked ms ks req' r1) (inbox r1 handle))\<rparr>))"

definition unsubscribe :: "nat \<Rightarrow> registry \<Rightarrow> registry" where
  "unsubscribe handle r = r\<lparr>subs := (subs r)(handle := None)\<rparr>"

lemma fold_snoc: "fold (\<lambda>u l. l @ [u]) us l = l @ us"
  by (induction us arbitrary: l) simp_all

lemma updatesLocked_frame [simp]:
  "updatesLocked ms ks req (r\<lparr>nextHandle := h, subs := s\<rparr>) = updatesLocked ms ks req r"
  by (simp add: updatesLocked_def ownerOnlyUpdatesLocked_def allUpdatesLocked_def
      cong: option.case_cong if_cong)

lemma Subscribe_eq:
  "Subscribe ms ks req r =
     (let q = (case req of None \<Rightarrow> \<lparr>KnownMembers = Map.empty, OwnerOnly = False\<rparr> | Some q \<Rightarrow> q)
      in (nextHandle r, r\<lparr>nextHandle := nextHandle r + 1,
            subs := (subs r)(nextHandle r \<mapsto> \<lparr>ownerOnly = OwnerOnly q\<rparr>),
            inbox := (inbox r)(nextHandle r := inbox r (nextHandle r) @ updatesLocked ms ks q r)\<rparr>))"
  by (simp add: Subscribe_def Let_def fold_snoc)

lemma Subscribe_fields [simp]:
  "fst (Subscribe ms ks req r) = nextHandle r"
  "localID (snd (Subscribe ms ks req r)) = localID r"
  "members (snd (Subscribe ms ks req r)) = members r"
  "lastVersion (snd (Subscribe ms ks req r)) = lastVersion r"
  by (simp_all add: Subscribe_eq Let_def)

lemma reg_inv_subs:
  assumes "reg_inv ls r"
  shows "reg_inv ls (snd (SubscribeLocal r))" "reg_inv ls (snd (Subscribe ms ks req r))"
    "reg_inv ls (unsubscribe h r)"
  using assms
  by (auto simp: SubscribeLocal_def Subscribe_eq unsubscribe_def Let_def reg_inv_def reg_inv_defs)

subsection \<open>What a subscriber misses\<close>

lemma left_update_fields [simp]:
  "State (left_update i kv) = zero_state i" "Liveness (left_update i kv) = Liveness_LEFT"
  by (simp_all add: left_update_def)

lemma set_allUpdates:
  assumes "iter_order ms (members r)" and "iter_order ks known"
  shows "u \<in> set (allUpdatesLocked ms ks known r) \<longleftrightarrow>
    (\<exists>i. members r i = Some u \<and> (\<forall>kv. known i = Some kv \<longrightarrow> newer kv (Version u))) \<or>
    (\<exists>i kv. known i = Some kv \<and> members r i = None \<and> u = left_update i kv)"
proof -
  have "(case known i of Some kv \<Rightarrow> if newer kv (Version m) then Some m else None | None \<Rightarrow> Some m)
      = Some u \<longleftrightarrow> m = u \<and> (\<forall>kv. known i = Some kv \<longrightarrow> newer kv (Version u))" for i m
    by (cases "known i") auto
  moreover have "(if members r i \<noteq> None then None else Some (left_update i kv)) = Some u \<longleftrightarrow>
      members r i = None \<and> u = left_update i kv" for i kv by auto
  ultimately show ?thesis
    by (simp only: allUpdatesLocked_def set_append Un_iff set_map_loop [OF assms(1)]
        set_map_loop [OF assms(2)]) blast
qed

lemma set_ownerOnlyUpdates:
  assumes "iter_order ms (members r)" and "iter_order ks known"
  shows "u \<in> set (ownerOnlyUpdatesLocked ms ks known r) \<longleftrightarrow>
    (\<exists>i. members r i = Some u \<and>
      (case known i of None \<Rightarrow> OwnerId (Version u) = localID r
       | Some kv \<Rightarrow> (OwnerId (Version u) = localID r \<or> OwnerId kv = localID r) \<and>
           newer kv (Version u))) \<or>
    (\<exists>i kv. known i = Some kv \<and> members r i = None \<and> OwnerId kv = localID r \<and>
      u = left_update i kv)"
proof -
  have "(case known i of
        Some kv \<Rightarrow>
          if OwnerId (Version m) = localID r \<or> OwnerId kv = localID r
          then if newer kv (Version m) then Some m else None else None
      | None \<Rightarrow> if OwnerId (Version m) = localID r then Some m else None) = Some u \<longleftrightarrow>
    m = u \<and> (case known i of None \<Rightarrow> OwnerId (Version u) = localID r
      | Some kv \<Rightarrow> (OwnerId (Version u) = localID r \<or> OwnerId kv = localID r) \<and>
          newer kv (Version u))" for i m
    by (cases "known i") auto
  moreover have "(if members r i \<noteq> None then None
      else if OwnerId kv \<noteq> localID r then None else Some (left_update i kv)) = Some u \<longleftrightarrow>
    members r i = None \<and> OwnerId kv = localID r \<and> u = left_update i kv" for i kv by auto
  ultimately show ?thesis
    by (simp only: ownerOnlyUpdatesLocked_def set_append Un_iff set_map_loop [OF assms(1)]
        set_map_loop [OF assms(2)]) blast
qed

lemma updates_distinct_ids:
  assumes "iter_order ms (members r)" and "iter_order ks (KnownMembers req)"
    and "\<And>i m. members r i = Some m \<Longrightarrow> MemberId (State m) = i"
  shows "distinct (map (\<lambda>m. MemberId (State m)) (updatesLocked ms ks req r))"
proof -
  let ?key = "\<lambda>m :: member2. MemberId (State m)"
  have app: "distinct (map ?key (List.map_filter f ms @ List.map_filter g ks))"
    if f: "\<And>i m. f i = Some m \<Longrightarrow> members r i = Some m"
      and g: "\<And>i m. g i = Some m \<Longrightarrow> members r i = None \<and> ?key m = i" for f g
  proof -
    have "?key ` set (List.map_filter f ms) \<subseteq> dom (members r)"
      using f assms(3) by (fastforce simp: set_map_filter)
    moreover have "?key ` set (List.map_filter g ks) \<inter> dom (members r) = {}"
      using g by (fastforce simp: set_map_filter)
    moreover have "distinct (map ?key (List.map_filter f ms))"
      by (rule map_filter_distinct_key) (use assms(1,3) f in auto)
    moreover have "distinct (map ?key (List.map_filter g ks))"
      by (rule map_filter_distinct_key) (use assms(2) g in auto)
    ultimately show ?thesis by auto
  qed
  show ?thesis
    unfolding updatesLocked_def ownerOnlyUpdatesLocked_def allUpdatesLocked_def
    by (cases "OwnerOnly req"; simp only: if_True if_False; rule app)
      (auto split: option.splits if_splits)
qed

lemma set_Updates:
  assumes "reg_inv ls r" and "iter_order ms (members r)" and "iter_order ks known"
    and "req = \<lparr>KnownMembers = known, OwnerOnly = oo\<rparr>"
  shows "set (Updates ms ks req r) =
    {u. \<exists>i. members r i = Some u \<and>
         (case known i of
            None \<Rightarrow> oo \<longrightarrow> OwnerId (Version u) = localID r
          | Some kv \<Rightarrow> newer kv (Version u) \<and>
              (oo \<longrightarrow> OwnerId (Version u) = localID r \<or> OwnerId kv = localID r))} \<union>
    {u. \<exists>i kv. known i = Some kv \<and> members r i = None \<and> u = left_update i kv \<and>
         (oo \<longrightarrow> OwnerId kv = localID r)}"
proof (cases oo)
  case True
  then show ?thesis
    using set_ownerOnlyUpdates [OF assms(2,3)]
    by (simp add: Updates_def updatesLocked_def assms(4) set_eq_iff conj_commute
        cong: conj_cong split: option.split)
next
  case False
  have "(case known i of
          None \<Rightarrow> oo \<longrightarrow> OwnerId (Version u) = localID r
        | Some kv \<Rightarrow> newer kv (Version u) \<and>
            (oo \<longrightarrow> OwnerId (Version u) = localID r \<or> OwnerId kv = localID r)) \<longleftrightarrow>
      (\<forall>kv. known i = Some kv \<longrightarrow> newer kv (Version u))" for i and u :: member2
    using False by (cases "known i") auto
  then show ?thesis
    using set_allUpdates [OF assms(2,3)] False
    by (simp only: set_eq_iff) (simp add: Updates_def updatesLocked_def assms(4))
qed

text \<open>
  C9: the updates sent to a (re)connecting subscriber are exactly those it misses. A full
  subscription gets each stored member it does not know or knows an older version of, and a left
  update for each member it knows that is gone; an owner-only subscription gets the same
  restricted to members that this node owns now or that the subscriber believes it owns. No
  member is named twice.
\<close>
theorem Updates_exact:
  assumes "reg_inv ls r" and "iter_order ms (members r)" and "iter_order ks known"
    and "req = \<lparr>KnownMembers = known, OwnerOnly = oo\<rparr>"
  shows "distinct (map (\<lambda>m. MemberId (State m)) (Updates ms ks req r)) \<and>
    set (Updates ms ks req r) =
      {u. \<exists>i. members r i = Some u \<and>
         (case known i of
            None \<Rightarrow> oo \<longrightarrow> OwnerId (Version u) = localID r
          | Some kv \<Rightarrow> newer kv (Version u) \<and>
              (oo \<longrightarrow> OwnerId (Version u) = localID r \<or> OwnerId kv = localID r))} \<union>
      {u. \<exists>i kv. known i = Some kv \<and> members r i = None \<and> u = left_update i kv \<and>
         (oo \<longrightarrow> OwnerId kv = localID r)}"
proof
  show "distinct (map (\<lambda>m. MemberId (State m)) (Updates ms ks req r))"
    unfolding Updates_def using assms by (intro updates_distinct_ids) (auto intro: reg_inv_id)
  show "set (Updates ms ks req r) =
      {u. \<exists>i. members r i = Some u \<and>
         (case known i of
            None \<Rightarrow> oo \<longrightarrow> OwnerId (Version u) = localID r
          | Some kv \<Rightarrow> newer kv (Version u) \<and>
              (oo \<longrightarrow> OwnerId (Version u) = localID r \<or> OwnerId kv = localID r))} \<union>
      {u. \<exists>i kv. known i = Some kv \<and> members r i = None \<and> u = left_update i kv \<and>
         (oo \<longrightarrow> OwnerId kv = localID r)}"
    by (rule set_Updates [OF assms])
qed

theorem Updates_exact_witness:
  "set (Updates [''m''] [''gone''] \<lparr>KnownMembers = [''gone'' \<mapsto>
       \<lparr>OwnerId = ''n2'', VTimestamp = MonotonicTimestamp 7 0\<rparr>], OwnerOnly = False\<rparr> sample_registry) =
     {sample_member ''m'' Liveness_UP ''n1'' 100 0,
      left_update ''gone'' \<lparr>OwnerId = ''n2'', VTimestamp = MonotonicTimestamp 7 0\<rparr>}"
proof -
  let ?k = "[''gone'' \<mapsto> \<lparr>OwnerId = ''n2'', VTimestamp = MonotonicTimestamp 7 0\<rparr>]"
  have "iter_order [''gone''] ?k" by (simp add: iter_order_def)
  from Updates_exact [OF sample_registry_inv sample_order this refl, of False]
  show ?thesis by (auto split: if_splits)
qed

text \<open>
  The left update made up for a member that this node no longer knows does what its comment
  promises: unless the known counter is the greatest 64-bit value, its version is newer than
  the one the subscriber knows, and it is the smallest such version - every other version newer
  than the known one, from any owner, is newer than the left update too, so it cannot override
  it. At the greatest counter the increment wraps to 0 and the subscriber ignores the update.
\<close>
theorem left_update_minimal:
  "(Counter (VTimestamp kv) \<noteq> - 1 \<longleftrightarrow> newer kv (Version (left_update i kv))) \<and>
   (newer kv v \<and> Counter (VTimestamp kv) \<noteq> - 1 \<longrightarrow>
      v = Version (left_update i kv) \<or> newer (Version (left_update i kv)) v)"
proof -
  let ?c = "Counter (VTimestamp kv)"
  have wrap: "?c < ?c + 1 \<longleftrightarrow> ?c \<noteq> - 1"
  proof
    show "?c \<noteq> - 1" if "?c < ?c + 1" using that by auto
    assume "?c \<noteq> - 1"
    then have "1 + ?c \<noteq> 0" by (simp add: add_eq_0_iff)
    from unatSuc [OF this] show "?c < ?c + 1" by (simp add: word_less_nat_alt add.commute)
  qed
  have next_le: "?c + 1 \<le> d" if "?c < d" for d
  proof -
    have "?c \<noteq> - 1" using that word_n1_ge [of d] by auto
    then have "1 + ?c \<noteq> 0" by (simp add: add_eq_0_iff)
    from unatSuc [OF this] that show ?thesis
      by (simp add: word_less_nat_alt word_le_nat_alt add.commute)
  qed
  have "v = Version (left_update i kv) \<or> newer (Version (left_update i kv)) v" if "newer kv v"
  proof (cases "Timestamp (VTimestamp kv) < Timestamp (VTimestamp v)")
    case True
    then show ?thesis by (simp add: newer_iff left_update_def)
  next
    case False
    with that have same: "OwnerId kv = OwnerId v"
      "Timestamp (VTimestamp kv) = Timestamp (VTimestamp v)" "?c < Counter (VTimestamp v)"
      by (auto simp: newer_iff)
    from next_le [OF same(3)] consider "?c + 1 = Counter (VTimestamp v)"
      | "?c + 1 < Counter (VTimestamp v)" by (auto simp: le_less)
    then show ?thesis
      by cases (use same in \<open>auto simp: newer_iff left_update_def intro!: version2.equality
          monotonic_timestamp.expand\<close>)
  qed
  then show ?thesis by (auto simp: newer_iff left_update_def wrap)
qed

theorem left_update_minimal_witness:
  "newer (Version (left_update ''m'' \<lparr>OwnerId = ''n1'', VTimestamp = MonotonicTimestamp 5 3\<rparr>))
     \<lparr>OwnerId = ''n1'', VTimestamp = MonotonicTimestamp 5 9\<rparr>"
  using left_update_minimal [of "\<lparr>OwnerId = ''n1'', VTimestamp = MonotonicTimestamp 5 3\<rparr>" "''m''"
      "\<lparr>OwnerId = ''n1'', VTimestamp = MonotonicTimestamp 5 9\<rparr>"]
  by (auto simp: newer_iff left_update_def)

subsection \<open>Following a store through its notifications\<close>

text \<open>
  The contract between a store and a listener: each step of the store either puts an entry and
  logs it (an entry the listener does not keep hides the one before), or silently drops an entry
  that is known to be gone. A listener that replays the log then shows the store's entries, and
  besides them only entries that are gone.
\<close>

inductive change ::
  "('m \<Rightarrow> string) \<Rightarrow> ('m \<Rightarrow> bool) \<Rightarrow> ('m \<Rightarrow> bool) \<Rightarrow>
     (string \<rightharpoonup> 'm) \<times> 'm list \<Rightarrow> (string \<rightharpoonup> 'm) \<times> 'm list \<Rightarrow> bool"
  for ident keep gone
where
  change_put: "change ident keep gone (m, l)
     (m(ident u := if keep u then Some u else None), l @ [u])"
| change_drop: "m i = Some x \<Longrightarrow> gone x \<Longrightarrow> change ident keep gone (m, l) (m(i := None), l)"

inductive_cases change_cases: "change ident keep gone (m, l) (m', l')"

definition view :: "('m \<Rightarrow> string) \<Rightarrow> ('m \<Rightarrow> bool) \<Rightarrow> (string \<rightharpoonup> 'm) \<Rightarrow> 'm list \<Rightarrow> (string \<rightharpoonup> 'm)" where
  "view ident keep v0 l = fold (\<lambda>u v. v(ident u := if keep u then Some u else None)) l v0"

definition follows :: "('m \<Rightarrow> bool) \<Rightarrow> (string \<rightharpoonup> 'm) \<Rightarrow> (string \<rightharpoonup> 'm) \<Rightarrow> bool" where
  "follows gone m v \<longleftrightarrow> (\<forall>i. (\<forall>x. m i = Some x \<longrightarrow> v i = Some x) \<and>
     (m i = None \<longrightarrow> (\<forall>x. v i = Some x \<longrightarrow> gone x)))"

lemma view_snoc [simp]:
  "view ident keep v0 (l @ [u]) =
     (view ident keep v0 l)(ident u := if keep u then Some u else None)"
  by (simp add: view_def)

lemma view_append: "view ident keep v0 (l @ l') = view ident keep (view ident keep v0 l) l'"
  by (simp add: view_def)

lemma view_distinct:
  assumes "distinct (map ident l)"
  shows "(u \<in> set l \<longrightarrow> view ident keep v0 l (ident u) = (if keep u then Some u else None)) \<and>
    (i \<notin> ident ` set l \<longrightarrow> view ident keep v0 l i = v0 i)"
  using assms
proof (induction l rule: rev_induct)
  case Nil
  then show ?case by (simp add: view_def)
next
  case (snoc x l)
  then show ?case by (cases "ident u = ident x") (auto simp: rev_image_eqI)
qed

lemma change_follows:
  assumes "change ident keep gone (m, l) (m', l')" and "follows gone m (view ident keep v0 l)"
  shows "follows gone m' (view ident keep v0 l')"
  using assms by (auto simp: follows_def elim!: change_cases split: if_splits)

locale feed =
  fixes ident :: "'m \<Rightarrow> string" and keep gone :: "'m \<Rightarrow> bool"
    and entries :: "'r \<Rightarrow> string \<rightharpoonup> 'm" and log :: "'r \<Rightarrow> 'm list" and step :: "'r \<Rightarrow> 'r \<Rightarrow> bool"
  assumes step_changes: "step r r' \<Longrightarrow>
    (change ident keep gone)\<^sup>*\<^sup>* (entries r, log r) (entries r', log r')"
begin

lemma changes_follow:
  assumes "(change ident keep gone)\<^sup>*\<^sup>* s s'" and "follows gone (fst s) (view ident keep v0 (snd s))"
  shows "follows gone (fst s') (view ident keep v0 (snd s'))"
  using assms
proof (induction rule: rtranclp_induct)
  case (step s' s'')
  then show ?case
    using change_follows [of ident keep gone "fst s'" "snd s'" "fst s''" "snd s''"] by simp
qed

lemma steps_follow:
  assumes "step\<^sup>*\<^sup>* r r'" and "follows gone (entries r) (view ident keep v0 (log r))"
  shows "follows gone (entries r') (view ident keep v0 (log r'))"
  using assms
proof (induction rule: rtranclp_induct)
  case (step r' r'')
  then show ?case using changes_follow [OF step_changes [OF step.hyps(2)]] by simp
qed

end

end
