(* ===== verification/MemberStore.thy ===== *)
theory MemberStore
  imports RegistryFacts
begin

text \<open>
  What replication relies on: a registry as a store of members to which updates from other
  replicas are applied, each kept only if its version is fresher than the stored one. The locale
  \<open>member_store\<close> states this contract over any freshness order; inside it, updates are
  idempotent, never take a member back to an older version, commute, and so two replicas that
  received the same updates in different orders agree. The registries (this one and registryv2)
  interpret it with their handler for remote updates.
\<close>

definition put_fresher ::
  "('v \<Rightarrow> 'v \<Rightarrow> bool) \<Rightarrow> ('m \<Rightarrow> string) \<Rightarrow> ('m \<Rightarrow> 'v) \<Rightarrow> ('m \<Rightarrow> 'm) \<Rightarrow> bool \<Rightarrow> 'm \<Rightarrow>
     (string \<rightharpoonup> 'm) \<Rightarrow> (string \<rightharpoonup> 'm)"
where
  "put_fresher fr ident ver norm ok u m =
     (if ok \<and> (\<forall>e. m (ident u) = Some e \<longrightarrow> fr (ver e) (ver u)) then m(ident u \<mapsto> norm u) else m)"

locale member_store = freshness fresher for fresher :: "'v \<Rightarrow> 'v \<Rightarrow> bool" +
  fixes ident :: "'m \<Rightarrow> string" and ver :: "'m \<Rightarrow> 'v" and norm :: "'m \<Rightarrow> 'm"
    and entries :: "'r \<Rightarrow> string \<rightharpoonup> 'm" and admits :: "'r \<Rightarrow> 'm \<Rightarrow> bool"
    and apply_update :: "'m \<Rightarrow> 'r \<Rightarrow> 'r"
  assumes ver_norm: "ver (norm u) = ver u"
    and entries_apply:
      "entries (apply_update u r) = put_fresher fresher ident ver norm (admits r u) u (entries r)"
    and admits_apply: "admits (apply_update u r) = admits r"
begin

lemma apply_idempotent: "entries (apply_update u (apply_update u r)) = entries (apply_update u r)"
  by (auto simp: entries_apply admits_apply put_fresher_def ver_norm fresher_irrefl)

lemma apply_monotone:
  assumes "entries r i = Some e"
  shows "\<exists>e'. entries (apply_update u r) i = Some e' \<and> (e' = e \<or> fresher (ver e) (ver e'))"
  using assms by (auto simp: entries_apply put_fresher_def ver_norm)

lemma put_commute:
  assumes "ident u = ident v \<Longrightarrow> u = v \<or> fresher (ver u) (ver v) \<or> fresher (ver v) (ver u)"
  shows "put_fresher fresher ident ver norm (adm u) u
           (put_fresher fresher ident ver norm (adm v) v m) =
         put_fresher fresher ident ver norm (adm v) v
           (put_fresher fresher ident ver norm (adm u) u m)"
proof (cases "ident u = ident v")
  case False
  then show ?thesis by (auto simp: put_fresher_def fun_upd_twist)
next
  case True
  with assms consider "u = v" | "fresher (ver u) (ver v)" | "fresher (ver v) (ver u)" by blast
  then show ?thesis
  proof cases
    case 1
    then show ?thesis by simp
  next
    case 2
    with True fresher_asym [OF 2] show ?thesis
      by (cases "m (ident v)")
        (auto simp: put_fresher_def ver_norm intro: fresher_trans)
  next
    case 3
    with True fresher_asym [OF 3] show ?thesis
      by (cases "m (ident v)")
        (auto simp: put_fresher_def ver_norm intro: fresher_trans)
  qed
qed

lemma entries_fold:
  "entries (fold apply_update us r) =
     fold (\<lambda>u. put_fresher fresher ident ver norm (admits r u) u) us (entries r)"
proof (induction us arbitrary: r)
  case Nil
  then show ?case by simp
next
  case (Cons u us)
  then show ?case by (simp add: entries_apply admits_apply)
qed

lemma converge:
  assumes same: "mset us = mset ws"
    and start: "entries r = entries r'" and adm: "admits r = admits r'"
    and ordered: "\<And>u v. u \<in> set us \<Longrightarrow> v \<in> set us \<Longrightarrow> ident u = ident v \<Longrightarrow>
      u = v \<or> fresher (ver u) (ver v) \<or> fresher (ver v) (ver u)"
  shows "entries (fold apply_update us r) = entries (fold apply_update ws r')"
proof -
  let ?f = "\<lambda>u. put_fresher fresher ident ver norm (admits r u) u"
  have "fold ?f us = fold ?f ws"
  proof (rule fold_multiset_equiv [OF _ same])
    fix u v assume "u \<in> set us" "v \<in> set us"
    then have "?f u (?f v m) = ?f v (?f u m)" for m
      by (intro put_commute [where adm = "admits r"] ordered)
    then show "?f u \<circ> ?f v = ?f v \<circ> ?f u" by (simp add: comp_def)
  qed
  then show ?thesis by (simp add: entries_fold start adm)
qed

lemma fold_monotone:
  assumes "entries r i = Some e"
  shows "\<exists>e'. entries (fold apply_update us r) i = Some e' \<and> (e' = e \<or> fresher (ver e) (ver e'))"
  using assms
proof (induction us arbitrary: r e)
  case Nil
  then show ?case by simp
next
  case (Cons u us)
  from apply_monotone [OF Cons.prems, of u] obtain e1 where
    "entries (apply_update u r) i = Some e1" "e1 = e \<or> fresher (ver e) (ver e1)" by blast
  with Cons.IH [of "apply_update u r" e1] show ?case by (auto intro: fresher_trans)
qed

text \<open>An admitted update is in the store afterwards, or something at least as fresh is.\<close>

lemma apply_delivers:
  assumes "admits r u"
  shows "\<exists>e. entries (apply_update u r) (ident u) = Some e \<and>
    (e = norm u \<or> \<not> fresher (ver e) (ver u))"
  using assms by (cases "entries r (ident u)") (auto simp: entries_apply put_fresher_def)

lemma apply_not_older:
  assumes "admits r u"
  shows "\<exists>e. entries (apply_update u r) (ident u) = Some e \<and> \<not> fresher (ver e) (ver u)"
  using assms fresher_irrefl
  by (cases "entries r (ident u)") (auto simp: entries_apply put_fresher_def ver_norm)

lemma fold_not_older:
  assumes "entries r i = Some e" and "\<not> fresher (ver e) v"
  shows "\<exists>e'. entries (fold apply_update us r) i = Some e' \<and> \<not> fresher (ver e') v"
  using fold_monotone [OF assms(1), of us] assms(2) fresher_trans by blast

lemma fold_frame:
  "\<forall>u \<in> set us. ident u \<noteq> i \<Longrightarrow> entries (fold apply_update us r) i = entries r i"
  by (induction us arbitrary: r) (auto simp: entries_apply put_fresher_def)

lemma fold_delivers:
  assumes "u \<in> set us" and "admits r u"
  shows "\<exists>e. entries (fold apply_update us r) (ident u) = Some e \<and> \<not> fresher (ver e) (ver u)"
  using assms
proof (induction us arbitrary: r)
  case Nil
  then show ?case by simp
next
  case (Cons w us)
  show ?case
  proof (cases "w = u")
    case True
    from apply_not_older [OF Cons.prems(2)] obtain e where
      "entries (apply_update u r) (ident u) = Some e" "\<not> fresher (ver e) (ver u)" by blast
    then show ?thesis using True fold_not_older by simp
  next
    case False
    then show ?thesis using Cons by (simp add: admits_apply)
  qed
qed

end

subsection \<open>The registry as a member store\<close>

definition member_id :: "member2 \<Rightarrow> string" where
  "member_id m = MemberId (State m)"

definition admits_remote :: "registry \<Rightarrow> member2 \<Rightarrow> bool" where
  "admits_remote r u \<longleftrightarrow> member_id u \<noteq> localID r \<and> OwnerId (Version u) \<noteq> localID r"

interpretation store: member_store newer member_id Version "\<lambda>m. m" members admits_remote
  "RemoteUpdate ls" for ls
proof
  show "members (RemoteUpdate ls u r) =
      put_fresher newer member_id Version (\<lambda>m. m) (admits_remote r u) u (members r)" for u r
    by (auto simp: members_RemoteUpdate put_fresher_def remote_accepted_def admits_remote_def
        member_id_def)
  show "admits_remote (RemoteUpdate ls u r) = admits_remote r" for u r
    by (simp add: admits_remote_def fun_eq_iff)
qed simp

text \<open>
  C5: replicas converge. Two registries with the same members on the same node that apply the
  same remote updates, in any two orders, end with the same members, provided that no two
  different updates to one member were stamped by different owners in the same millisecond (nor
  twice by one owner). Forwarded updates may therefore be reordered freely.
\<close>
theorem RemoteUpdate_converges:
  assumes "mset us = mset ws" and "members r = members r'" and "localID r = localID r'"
    and "\<forall>u \<in> set us. \<forall>v \<in> set us. MemberId (State u) = MemberId (State v) \<longrightarrow>
      u = v \<or> newer (Version u) (Version v) \<or> newer (Version v) (Version u)"
  shows "members (fold (RemoteUpdate ls) us r) = members (fold (RemoteUpdate ls) ws r')"
proof (rule store.converge [OF assms(1,2)])
  show "admits_remote r = admits_remote r'"
    using assms(3) by (simp add: admits_remote_def fun_eq_iff)
  show "u = v \<or> newer (Version u) (Version v) \<or> newer (Version v) (Version u)"
    if "u \<in> set us" "v \<in> set us" "member_id u = member_id v" for u v
    using assms(4) that by (auto simp: member_id_def)
qed

theorem RemoteUpdate_converges_witness:
  "members (fold (RemoteUpdate sample_text)
     [sample_member ''x'' Liveness_UP ''n2'' 5 0, sample_member ''x'' Liveness_DOWN ''n3'' 9 0]
     sample_registry) =
   members (fold (RemoteUpdate sample_text)
     [sample_member ''x'' Liveness_DOWN ''n3'' 9 0, sample_member ''x'' Liveness_UP ''n2'' 5 0]
     sample_registry)"
  by (rule RemoteUpdate_converges) (simp_all add: sample_member_def newer_iff)

text \<open>
  A remote update is idempotent and never takes a member back: applying it twice leaves the
  members as applying it once, a member known before is still known afterwards, unchanged or
  under a strictly newer version, and an update that names neither the local member nor the
  local node as owner is either stored or superseded by what is stored.
\<close>
theorem RemoteUpdate_idempotent_monotone:
  "members (RemoteUpdate ls u (RemoteUpdate ls u r)) = members (RemoteUpdate ls u r) \<and>
   (\<forall>i e. members r i = Some e \<longrightarrow> (\<exists>e'. members (RemoteUpdate ls u r) i = Some e' \<and>
      (e' = e \<or> newer (Version e) (Version e')))) \<and>
   (MemberId (State u) \<noteq> localID r \<and> OwnerId (Version u) \<noteq> localID r \<longrightarrow>
      (\<exists>e. members (RemoteUpdate ls u r) (MemberId (State u)) = Some e \<and>
         (e = u \<or> \<not> newer (Version e) (Version u))))"
proof (intro conjI allI impI)
  show "members (RemoteUpdate ls u (RemoteUpdate ls u r)) = members (RemoteUpdate ls u r)"
    by (rule store.apply_idempotent)
  show "\<exists>e'. members (RemoteUpdate ls u r) i = Some e' \<and> (e' = e \<or> newer (Version e) (Version e'))"
    if "members r i = Some e" for i e
    using that by (rule store.apply_monotone)
  show "\<exists>e. members (RemoteUpdate ls u r) (MemberId (State u)) = Some e \<and>
      (e = u \<or> \<not> newer (Version e) (Version u))"
    if "MemberId (State u) \<noteq> localID r \<and> OwnerId (Version u) \<noteq> localID r"
    using that store.apply_delivers [of r u ls] by (simp add: admits_remote_def member_id_def)
qed

theorem RemoteUpdate_idempotent_monotone_witness:
  "\<exists>e. members (RemoteUpdate sample_text (sample_member ''m'' Liveness_DOWN ''n2'' 200 7)
      sample_registry) ''m'' = Some e \<and>
    (e = sample_member ''m'' Liveness_DOWN ''n2'' 200 7 \<or>
     \<not> newer (Version e) (Version (sample_member ''m'' Liveness_DOWN ''n2'' 200 7)))"
  using RemoteUpdate_idempotent_monotone [of sample_text
      "sample_member ''m'' Liveness_DOWN ''n2'' 200 7" sample_registry]
  by (simp add: sample_member_def)

text \<open>
  Conflicts within a millisecond are not resolved by forwarding. If two nodes hold the same
  member under versions of different owners with one timestamp, then each discards the other's
  version, in both directions, so exchanging the members leaves the two registries different
  until some later update.
\<close>
theorem same_millisecond_conflict_stays:
  assumes "members r1 i = Some m1" and "members r2 i = Some m2"
    and "MemberId (State m1) = i" and "MemberId (State m2) = i"
    and "OwnerId (Version m1) \<noteq> OwnerId (Version m2)"
    and "Timestamp (VTimestamp (Version m1)) = Timestamp (VTimestamp (Version m2))"
  shows "RemoteUpdate ls m2 r1 = r1 \<and> RemoteUpdate ls m1 r2 = r2 \<and>
    members (RemoteUpdate ls m2 r1) i \<noteq> members (RemoteUpdate ls m1 r2) i"
proof -
  have "RemoteUpdate ls m2 r1 = r1" and "RemoteUpdate ls m1 r2 = r2"
    using assms by (simp_all add: RemoteUpdate_eq remote_accepted_def newer_iff)
  then show ?thesis using assms(1,2,5) by auto
qed

theorem same_millisecond_conflict_stays_witness:
  "RemoteUpdate sample_text (sample_member ''m'' Liveness_DOWN ''n2'' 100 0) sample_registry =
     sample_registry"
proof -
  let ?m1 = "sample_member ''m'' Liveness_UP ''n1'' 100 0"
  let ?m2 = "sample_member ''m'' Liveness_DOWN ''n2'' 100 0"
  let ?r2 = "RemoteUpdate sample_text ?m2 (NewRegistry sample_text 0 ''n3'' [])"
  have "members ?r2 ''m'' = Some ?m2"
    using members_NewRegistry_plain [of "[]" 0 sample_text "''n3''"]
    by (simp add: members_RemoteUpdate remote_accepted_def sample_member_def defaultOptions_def)
  moreover have "members sample_registry ''m'' = Some ?m1" by simp
  ultimately show ?thesis
    using same_millisecond_conflict_stays [of sample_registry "''m''" ?m1 ?r2 ?m2 sample_text]
    by (simp add: sample_member_def)
qed

end
