(* ===== verification/ReplicaRepair.thy ===== *)
theory ReplicaRepair
  imports FailureDetector MemberStore
begin

text \<open>
  pkg/registry/registry/replicarepair.go and the member copies of registry.go. A digest (a Go
  map from member id to timestamp) is an association list with distinct ids: its length is the
  length of the map, and its order the order in which the receiver happens to iterate. The two
  loops of Digest are \<open>digest_priority\<close> and \<open>digest_members\<close>, each with the early
  return when the limit is reached; the loop of Delta is \<open>delta_loop\<close>. The loops read the
  member map through the argument \<open>lk\<close>, so that registryv2, whose MembersDigest and
  MembersDelta have the same loops, uses them too. The random permutation of rand.Perm is an
  argument.
\<close>

type_synonym digest = "(string \<times> monotonic_timestamp) list"

definition copyMemberState :: "member_state \<Rightarrow> member_state" where
  "copyMemberState m = \<lparr>MemberId = MemberId m, Status = Status m, Service = Service m,
     Locality = Locality m, Started = Started m, Revision = Revision m,
     Metadata = (\<lambda>k. Metadata m k)\<rparr>"

definition copyMember :: "member2 \<Rightarrow> member2" where
  "copyMember m = \<lparr>State = copyMemberState (State m), Liveness = Liveness m,
     Version = copyVersion (Version m), Expiry = 0\<rparr>"

definition shuffleStrings :: "nat list \<Rightarrow> string list \<Rightarrow> string list" where
  "shuffleStrings perm src =
     fold (\<lambda>(i, v) res. res[v := src ! i]) (enumerate 0 perm) (replicate (length src) '''')"

definition digest_entry :: "(string \<rightharpoonup> member2) \<Rightarrow> string \<Rightarrow> monotonic_timestamp" where
  "digest_entry lk i = (case lk i of
     None \<Rightarrow> MonotonicTimestamp 0 0
   | Some m \<Rightarrow> MonotonicTimestamp (Timestamp (VTimestamp (Version m)))
       (Counter (VTimestamp (Version m))))"

fun digest_priority ::
  "(string \<rightharpoonup> member2) \<Rightarrow> int \<Rightarrow> string list \<Rightarrow> digest \<Rightarrow> string set \<Rightarrow> digest \<times> string set \<times> bool"
where
  "digest_priority lk limit [] digest prio = (digest, prio, False)"
| "digest_priority lk limit (i # ps) digest prio =
     (let digest' = AList.update i (digest_entry lk i) digest;
          prio' = prio - {i}
      in if limit \<le> int (length digest') then (digest', prio', True)
         else digest_priority lk limit ps digest' prio')"

fun digest_members :: "(string \<rightharpoonup> member2) \<Rightarrow> int \<Rightarrow> string list \<Rightarrow> digest \<Rightarrow> digest" where
  "digest_members lk limit [] digest = digest"
| "digest_members lk limit (i # ids) digest =
     (let digest' = AList.update i (digest_entry lk i) digest
      in if limit \<le> int (length digest') then digest'
         else digest_members lk limit ids digest')"

definition digest_of ::
  "(string \<rightharpoonup> member2) \<Rightarrow> string list \<Rightarrow> string list \<Rightarrow> nat list \<Rightarrow> int \<Rightarrow> string set \<Rightarrow>
     digest \<times> string set"
where
  "digest_of lk ps ms perm limit prio =
     (let (digest, prio', full) = digest_priority lk limit ps [] prio
      in if full then (digest, prio')
         else (digest_members lk limit (shuffleStrings perm ms) digest, prio'))"

definition Digest ::
  "string list \<Rightarrow> string list \<Rightarrow> nat list \<Rightarrow> int \<Rightarrow> registry \<Rightarrow> digest \<times> registry"
where
  "Digest ps ms perm limit r =
     (let (digest, prio) = digest_of (members r) ps ms perm limit (priorityMembers r)
      in (digest, r\<lparr>priorityMembers := prio\<rparr>))"

fun delta_loop ::
  "(string \<rightharpoonup> member2) \<Rightarrow> digest \<Rightarrow> member2 list \<Rightarrow> string set \<Rightarrow> member2 list \<times> string set"
where
  "delta_loop lk [] ms prio = (ms, prio)"
| "delta_loop lk ((i, timestamp) # digest) ms prio =
     (case lk i of
        Some m \<Rightarrow>
          if 0 < compareTimestamps timestamp (VTimestamp (Version m))
          then delta_loop lk digest (ms @ [copyMember m]) prio
          else delta_loop lk digest ms (insert i prio)
      | None \<Rightarrow> delta_loop lk digest ms (insert i prio))"

definition Delta :: "digest \<Rightarrow> registry \<Rightarrow> member2 list \<times> registry" where
  "Delta digest r =
     (let (ms, prio) = delta_loop (members r) digest [] (priorityMembers r)
      in (ms, r\<lparr>priorityMembers := prio\<rparr>))"

subsection \<open>Copies\<close>

lemma copyMemberState_id [simp]: "copyMemberState m = m"
  by (cases m) (simp add: copyMemberState_def)

lemma copyMember_fields [simp]:
  "State (copyMember m) = State m" "Liveness (copyMember m) = Liveness m"
  "Version (copyMember m) = Version m" "Expiry (copyMember m) = 0"
  by (simp_all add: copyMember_def)

subsection \<open>shuffleStrings\<close>

definition valid_perm :: "nat list \<Rightarrow> 'a list \<Rightarrow> bool" where
  "valid_perm perm src \<longleftrightarrow> mset perm = mset [0..<length src]"

lemma fold_set_nth:
  assumes "distinct (map snd ivs)" and "\<forall>(i, v) \<in> set ivs. v < length res"
  shows "length (fold (\<lambda>(i, v) res. res[v := f i]) ivs res) = length res \<and>
    (\<forall>(i, v) \<in> set ivs. fold (\<lambda>(i, v) res. res[v := f i]) ivs res ! v = f i) \<and>
    (\<forall>v. v \<notin> snd ` set ivs \<longrightarrow> fold (\<lambda>(i, v) res. res[v := f i]) ivs res ! v = res ! v)"
  using assms
proof (induction ivs arbitrary: res)
  case Nil
  then show ?case by simp
next
  case (Cons iv ivs)
  obtain i v where iv: "iv = (i, v)" by fastforce
  from Cons.IH [of "res[v := f i]"] Cons.prems show ?case
    by (force simp: iv nth_list_update)
qed

lemma shuffle_mset:
  assumes "mset perm = mset [0..<length src]"
  shows "mset (shuffleStrings perm src) = mset src"
proof -
  let ?res = "shuffleStrings perm src"
  have len: "length perm = length src" using assms by (metis length_upt minus_nat.diff_0 size_mset)
  have dist: "distinct perm" using assms by (metis distinct_upt mset_eq_imp_distinct_iff)
  have "set perm = {0..<length src}" using assms by (metis atLeastLessThan_upt mset_eq_setD)
  then have range: "\<forall>v \<in> set perm. v < length src" by auto
  have "map snd (enumerate 0 perm) = perm" by simp
  then have "distinct (map snd (enumerate 0 perm))"
    and "\<forall>(i, v) \<in> set (enumerate 0 perm). v < length (replicate (length src) '''')"
    using dist range by (auto simp: in_set_enumerate_eq)
  from fold_set_nth [OF this, of "\<lambda>i. src ! i"]
  have res: "length ?res = length src"
    "\<And>i v. (i, v) \<in> set (enumerate 0 perm) \<Longrightarrow> ?res ! v = src ! i"
    by (auto simp: shuffleStrings_def)
  have "map ((!) ?res) perm = src"
    by (rule nth_equalityI) (use len res(2) in \<open>auto simp: in_set_enumerate_eq\<close>)
  then have "mset src = image_mset ((!) ?res) (mset perm)" by (metis mset_map)
  also have "\<dots> = mset (map ((!) ?res) [0..<length ?res])" by (simp add: assms res(1))
  finally show ?thesis by (simp add: map_nth)
qed

text \<open>
  ShuffleStrings returns its input in another order, for every permutation that rand.Perm
  can return: nothing is lost or repeated, so an untruncated digest still covers all members.
\<close>
theorem shuffleStrings_permutes:
  assumes "mset perm = mset [0..<length src]"
  shows "mset (shuffleStrings perm src) = mset src"
  using assms by (rule shuffle_mset)

theorem shuffleStrings_permutes_witness:
  "mset (shuffleStrings [2, 0, 1] [''a'', ''b'', ''c'']) = mset [''a'', ''b'', ''c'']"
  by (rule shuffleStrings_permutes) simp

lemma shuffle_set: "mset perm = mset [0..<length src] \<Longrightarrow> set (shuffleStrings perm src) = set src"
  by (metis shuffle_mset mset_eq_setD)

subsection \<open>The two loops of Digest\<close>

text \<open>Distinct ids, each with the timestamp of the stored member or zero.\<close>

definition good_digest :: "(string \<rightharpoonup> member2) \<Rightarrow> digest \<Rightarrow> bool" where
  "good_digest lk d \<longleftrightarrow> distinct (map fst d) \<and> (\<forall>(i, t) \<in> set d. t = digest_entry lk i)"

lemma set_update_subset: "set (AList.update k v al) \<subseteq> insert (k, v) (set al)"
  by (induction al) auto

lemma good_digest_update:
  assumes "good_digest lk d"
  shows "good_digest lk (AList.update i (digest_entry lk i) d)"
proof -
  have "\<forall>(j, t) \<in> set (AList.update i (digest_entry lk i) d). t = digest_entry lk j"
    using assms set_update_subset [of i "digest_entry lk i" d] by (fastforce simp: good_digest_def)
  then show ?thesis using assms by (simp add: good_digest_def AList.distinct_update)
qed

lemma length_update: "length (AList.update k v al) \<le> Suc (length al)"
  by (induction al) auto

lemma update_room:
  assumes "int (length d) < max 1 limit"
  shows "int (length (AList.update i v d)) \<le> max 1 limit"
  using assms length_update [of i v d] by linarith

definition digest_ids :: "digest \<Rightarrow> string set" where
  "digest_ids d = fst ` set d"

lemma digest_ids_update [simp]: "digest_ids (AList.update i t d) = insert i (digest_ids d)"
  by (simp add: digest_ids_def AList.dom_update)

lemma digest_ids_Nil [simp]: "digest_ids [] = {}"
  by (simp add: digest_ids_def)

lemma digest_priority_spec:
  assumes "digest_priority lk limit ps d prio = (d', prio', full)" and "good_digest lk d"
    and "int (length d) < max 1 limit"
  shows "good_digest lk d' \<and> int (length d') \<le> max 1 limit \<and>
    (\<exists>k. digest_ids d' = digest_ids d \<union> set (take k ps) \<and> prio' = prio - set (take k ps) \<and>
      (full \<longrightarrow> limit \<le> int (length d') \<and> d' \<noteq> []) \<and>
      (\<not> full \<longrightarrow> set (take k ps) = set ps \<and> int (length d') < max 1 limit))"
  using assms
proof (induction ps arbitrary: d prio)
  case Nil
  then show ?case by auto
next
  case (Cons i ps)
  let ?d = "AList.update i (digest_entry lk i) d"
  have good: "good_digest lk ?d" by (rule good_digest_update [OF Cons.prems(2)])
  show ?case
  proof (cases "limit \<le> int (length ?d)")
    case True
    then show ?thesis
      using Cons.prems good update_room [OF Cons.prems(3), of i "digest_entry lk i"]
      by (auto intro!: exI [of _ 1])
  next
    case False
    then have "digest_priority lk limit ps ?d (prio - {i}) = (d', prio', full)"
      and "int (length ?d) < max 1 limit"
      using Cons.prems(1) by (simp_all add: Let_def)
    from Cons.IH [OF this(1) good this(2)] obtain k where
      k: "good_digest lk d'" "int (length d') \<le> max 1 limit"
      "digest_ids d' = digest_ids ?d \<union> set (take k ps)" "prio' = prio - {i} - set (take k ps)"
      "full \<longrightarrow> limit \<le> int (length d') \<and> d' \<noteq> []"
      "\<not> full \<longrightarrow> set (take k ps) = set ps \<and> int (length d') < max 1 limit" by blast
    have "digest_ids d' = digest_ids d \<union> set (take (Suc k) (i # ps))"
      and "prio' = prio - set (take (Suc k) (i # ps))"
      using k(3,4) by auto
    moreover have "set (take k ps) = set ps \<Longrightarrow> set (take (Suc k) (i # ps)) = set (i # ps)" by simp
    ultimately show ?thesis using k(1,2,5,6) by metis
  qed
qed

lemma digest_members_spec:
  assumes "good_digest lk d" and "int (length d) < max 1 limit"
  shows "good_digest lk (digest_members lk limit ids d) \<and>
    int (length (digest_members lk limit ids d)) \<le> max 1 limit \<and>
    digest_ids d \<subseteq> digest_ids (digest_members lk limit ids d) \<and>
    digest_ids (digest_members lk limit ids d) \<subseteq> digest_ids d \<union> set ids \<and>
    (ids \<noteq> [] \<longrightarrow> digest_members lk limit ids d \<noteq> []) \<and>
    (int (length (digest_members lk limit ids d)) < limit \<longrightarrow>
       set ids \<subseteq> digest_ids (digest_members lk limit ids d))"
  using assms
proof (induction ids arbitrary: d)
  case Nil
  then show ?case by simp
next
  case (Cons i ids)
  let ?d = "AList.update i (digest_entry lk i) d"
  have good: "good_digest lk ?d" by (rule good_digest_update [OF Cons.prems(1)])
  show ?case
  proof (cases "limit \<le> int (length ?d)")
    case True
    then show ?thesis
      using good update_room [OF Cons.prems(2), of i "digest_entry lk i"]
      by (auto simp: Let_def)
  next
    case False
    then have "int (length ?d) < max 1 limit" by simp
    from Cons.IH [OF good this] False show ?thesis
      by (cases "digest_members lk limit ids ?d") (auto simp: Let_def)
  qed
qed

text \<open>Both loops together, from the empty digest.\<close>

lemma digest_of_spec:
  assumes "digest_of lk ps ms perm limit prio = (d, prio')"
    and "set ps = prio" and "mset perm = mset [0..<length ms]"
  shows "good_digest lk d \<and> int (length d) \<le> max 1 limit \<and> digest_ids d \<subseteq> prio \<union> set ms \<and>
    (int (length d) < limit \<longrightarrow> digest_ids d = prio \<union> set ms) \<and>
    (prio \<union> set ms \<noteq> {} \<longrightarrow> d \<noteq> []) \<and> prio' = prio - digest_ids d \<and>
    (prio' \<noteq> {} \<longrightarrow> digest_ids d \<subseteq> prio)"
proof -
  obtain d1 full where p: "digest_priority lk limit ps [] prio = (d1, prio', full)"
    and d: "d = (if full then d1 else digest_members lk limit (shuffleStrings perm ms) d1)"
    using assms(1) by (auto simp: digest_of_def split: prod.splits if_splits)
  from digest_priority_spec [OF p] obtain k where
    k: "good_digest lk d1" "int (length d1) \<le> max 1 limit" "digest_ids d1 = set (take k ps)"
    "prio' = prio - set (take k ps)" "full \<longrightarrow> limit \<le> int (length d1) \<and> d1 \<noteq> []"
    "\<not> full \<longrightarrow> set (take k ps) = set ps \<and> int (length d1) < max 1 limit"
    by (auto simp: good_digest_def less_max_iff_disj)
  have sub: "set (take k ps) \<subseteq> prio" using assms(2) set_take_subset by fast
  show ?thesis
  proof (cases full)
    case True
    then show ?thesis using k d sub by auto
  next
    case False
    let ?d = "digest_members lk limit (shuffleStrings perm ms) d1"
    have "int (length d1) < max 1 limit" using k(6) False by blast
    note s = digest_members_spec [OF k(1) this, of "shuffleStrings perm ms",
        unfolded shuffle_set [OF assms(3)]]
    have "prio' = {}" and "digest_ids d1 = prio" using k(3,4,6) False assms(2) by auto
    moreover have "?d \<noteq> []" if "prio \<union> set ms \<noteq> {}"
    proof (cases "ms = []")
      case True
      then have "prio \<noteq> {}" using that by simp
      then show ?thesis using s \<open>digest_ids d1 = prio\<close> by auto
    next
      case False
      then have "shuffleStrings perm ms \<noteq> []"
        using shuffle_set [OF assms(3)] by auto
      then show ?thesis using s by blast
    qed
    ultimately show ?thesis using s d False by auto
  qed
qed

text \<open>
  C15: what Digest sends. The digest names distinct members, each with the timestamp of the
  stored version, or zero when the member is unknown; it names only priority members and stored
  members, and all of them unless the limit is reached; it is never longer than the limit, except
  that a limit below one still lets one entry through; it is not empty when there is something to
  name; the priority members it names are struck off the list, and while any is left over the
  digest names nothing else; and the rest of the registry is unchanged.
\<close>
theorem Digest_spec:
  assumes "Digest ps ms perm limit r = (d, r')" and "set ps = priorityMembers r"
    and "iter_order ms (members r)" and "mset perm = mset [0..<length ms]"
  shows "distinct (map fst d) \<and>
    (\<forall>(i, t) \<in> set d. t = (case members r i of None \<Rightarrow> MonotonicTimestamp 0 0
       | Some m \<Rightarrow> VTimestamp (Version m))) \<and>
    digest_ids d \<subseteq> priorityMembers r \<union> dom (members r) \<and>
    (int (length d) < limit \<longrightarrow> digest_ids d = priorityMembers r \<union> dom (members r)) \<and>
    int (length d) \<le> max 1 limit \<and>
    (priorityMembers r \<union> dom (members r) \<noteq> {} \<longrightarrow> d \<noteq> []) \<and>
    (priorityMembers r' \<noteq> {} \<longrightarrow> digest_ids d \<subseteq> priorityMembers r) \<and>
    r' = r\<lparr>priorityMembers := priorityMembers r - digest_ids d\<rparr>"
proof -
  have dom: "set ms = dom (members r)" by (rule iter_order_set [OF assms(3)])
  obtain prio' where "digest_of (members r) ps ms perm limit (priorityMembers r) = (d, prio')"
    and r': "r' = r\<lparr>priorityMembers := prio'\<rparr>"
    using assms(1) by (auto simp: Digest_def split: prod.splits)
  from digest_of_spec [OF this(1) assms(2,4)] show ?thesis
    by (auto simp: r' dom good_digest_def digest_entry_def split: option.splits)
qed

theorem Digest_spec_witness:
  "Digest [''x''] [''m''] [0] 5 (sample_registry\<lparr>priorityMembers := {''x''}\<rparr>) =
     ([(''x'', MonotonicTimestamp 0 0), (''m'', MonotonicTimestamp 100 0)], sample_registry) \<and>
   digest_ids [(''x'', MonotonicTimestamp 0 0), (''m'', MonotonicTimestamp 100 0)] = {''x'', ''m''}"
proof -
  let ?r = "sample_registry\<lparr>priorityMembers := {''x''}\<rparr>"
  let ?d = "[(''x'', MonotonicTimestamp 0 0), (''m'', MonotonicTimestamp 100 0)]"
  have "sample_registry\<lparr>priorityMembers := {}\<rparr> = sample_registry"
    using sample_registry_fields(5) by (metis registry.surjective registry.update_convs(9))
  then have run: "Digest [''x''] [''m''] [0] 5 ?r = (?d, sample_registry)"
    by (simp add: Digest_def digest_of_def digest_entry_def shuffleStrings_def sample_member_def)
  then show ?thesis
    using Digest_spec [OF run] by (auto simp: iter_order_def digest_ids_def)
qed

subsection \<open>Delta\<close>

lemma digest_ids_card:
  assumes "good_digest lk d"
  shows "length d = card (digest_ids d)"
proof -
  have "card (set (map fst d)) = length (map fst d)"
    using assms by (intro distinct_card) (simp add: good_digest_def)
  then show ?thesis by (simp add: digest_ids_def)
qed


lemma digest_entry_at:
  assumes "good_digest lk d" and "i \<in> digest_ids d"
  shows "(i, digest_entry lk i) \<in> set d"
  using assms by (auto simp: good_digest_def digest_ids_def)

definition delta_answer :: "(string \<rightharpoonup> member2) \<Rightarrow> string \<times> monotonic_timestamp \<Rightarrow> member2 option" where
  "delta_answer lk = (\<lambda>(i, t). case lk i of None \<Rightarrow> None
     | Some m \<Rightarrow> if t < VTimestamp (Version m) then Some (copyMember m) else None)"

lemma delta_loop_eq:
  "delta_loop lk d ms prio =
     (ms @ List.map_filter (delta_answer lk) d,
      prio \<union> {i. \<exists>t. (i, t) \<in> set d \<and> delta_answer lk (i, t) = None})"
proof (induction lk d ms prio rule: delta_loop.induct)
  case (1 lk ms prio)
  then show ?case by simp
next
  case (2 lk i t d ms prio)
  show ?case
  proof (cases "delta_answer lk (i, t)")
    case None
    have step: "delta_loop lk ((i, t) # d) ms prio = delta_loop lk d ms (insert i prio)"
      using None by (auto simp: delta_answer_def compareTimestamps_iff split: option.splits if_splits)
    have "delta_loop lk d ms (insert i prio) = (ms @ List.map_filter (delta_answer lk) d,
        insert i prio \<union> {i. \<exists>t. (i, t) \<in> set d \<and> delta_answer lk (i, t) = None})"
    proof (cases "lk i")
      case None
      then show ?thesis by (rule 2)
    next
      case (Some m)
      then show ?thesis
        using None by (intro 2) (auto simp: delta_answer_def compareTimestamps_iff split: if_splits)
    qed
    with step None show ?thesis by auto
  next
    case (Some m')
    then obtain m where m: "lk i = Some m" "t < VTimestamp (Version m)" "m' = copyMember m"
      by (auto simp: delta_answer_def split: option.splits if_splits)
    then have "delta_loop lk ((i, t) # d) ms prio = delta_loop lk d (ms @ [m']) prio"
      by (simp add: compareTimestamps_iff)
    also have "\<dots> = ((ms @ [copyMember m]) @ List.map_filter (delta_answer lk) d,
        prio \<union> {i. \<exists>t. (i, t) \<in> set d \<and> delta_answer lk (i, t) = None})"
      unfolding m(3) by (rule 2) (use m in \<open>simp_all add: compareTimestamps_iff\<close>)
    finally show ?thesis using Some m(3) by auto
  qed
qed

lemma Delta_eq:
  "Delta d r = (List.map_filter (delta_answer (members r)) d,
     r\<lparr>priorityMembers := priorityMembers r \<union>
        {i. \<exists>t. (i, t) \<in> set d \<and> delta_answer (members r) (i, t) = None}\<rparr>)"
  by (simp add: Delta_def delta_loop_eq)

lemma delta_answer_Some:
  "delta_answer lk (i, t) = Some m' \<longleftrightarrow>
     (\<exists>m. lk i = Some m \<and> t < VTimestamp (Version m) \<and> m' = copyMember m)"
  by (auto simp: delta_answer_def split: option.splits)

lemma delta_answer_None:
  "delta_answer lk (i, t) = None \<longleftrightarrow> \<not> (\<exists>m. lk i = Some m \<and> t < VTimestamp (Version m))"
  by (auto simp: delta_answer_def split: option.splits)

lemma set_fst_Delta:
  "m' \<in> set (fst (Delta d r)) \<longleftrightarrow>
     (\<exists>i t m. (i, t) \<in> set d \<and> members r i = Some m \<and> t < VTimestamp (Version m) \<and>
        m' = copyMember m)"
  by (force simp: Delta_eq set_map_filter delta_answer_Some)

lemma Delta_frame [simp]:
  "members (snd (Delta d r)) = members r" "localID (snd (Delta d r)) = localID r"
  "reg_inv ls (snd (Delta d r)) = reg_inv ls r"
  by (simp_all add: Delta_eq)

text \<open>
  C16: how a node answers a digest. It sends, in digest order, a copy of exactly the members it
  stores under a later timestamp than the digest's; every other id of the digest - unknown here,
  older here, and also those on which both sides already agree - is added to the priority
  members for the next digest; nothing else changes.
\<close>
theorem Delta_spec:
  "fst (Delta d r) = map (\<lambda>(i, t). copyMember (the (members r i)))
     (filter (\<lambda>(i, t). \<exists>m. members r i = Some m \<and> t < VTimestamp (Version m)) d) \<and>
   snd (Delta d r) = r\<lparr>priorityMembers := priorityMembers r \<union>
     {i. \<exists>t. (i, t) \<in> set d \<and> \<not> (\<exists>m. members r i = Some m \<and> t < VTimestamp (Version m))}\<rparr>"
proof
  show "fst (Delta d r) = map (\<lambda>(i, t). copyMember (the (members r i)))
     (filter (\<lambda>(i, t). \<exists>m. members r i = Some m \<and> t < VTimestamp (Version m)) d)"
    unfolding Delta_eq fst_conv
    by (induction d) (auto simp: delta_answer_def split: option.splits if_splits)
qed (simp add: Delta_eq delta_answer_None)

subsection \<open>A repaired tombstone\<close>

text \<open>
  C40: repair forgets tombstone deadlines. copyMember does not copy the expiry, so a member that
  left and is sent by Delta arrives with expiry 0: a node that accepts it drops the tombstone on
  its next failure-detector pass, although the sender keeps it until the real deadline.
\<close>
theorem repaired_tombstone_dropped:
  assumes "members r2 i = Some m" and "MemberId (State m) = i" and "Liveness m = Liveness_LEFT"
    and "t < VTimestamp (Version m)" and "ts \<le> Expiry m" and "0 < ts"
    and "reg_inv ls r1" and "remote_accepted r1 m"
    and "iter_order ms (members (fold (RemoteUpdate ls) (fst (Delta [(i, t)] r2)) r1))"
    and "UpdateLiveness ls clk ms ts (fold (RemoteUpdate ls) (fst (Delta [(i, t)] r2)) r1) = Some r'"
  shows "members (fold (RemoteUpdate ls) (fst (Delta [(i, t)] r2)) r1) i = Some (m\<lparr>Expiry := 0\<rparr>) \<and>
    members r' i = None \<and> \<not> Expiry m < ts"
proof -
  let ?m = "copyMember m"
  have c: "?m = m\<lparr>Expiry := 0\<rparr>" by (simp add: copyMember_def)
  have sent: "fst (Delta [(i, t)] r2) = [?m]"
    using assms(1,4) by (simp add: Delta_eq delta_answer_def List.map_filter_simps)
  have acc: "remote_accepted r1 ?m" using assms(8) by (simp add: remote_accepted_def)
  let ?r = "RemoteUpdate ls ?m r1"
  have stored: "members ?r i = Some ?m" using acc assms(2) by (simp add: members_RemoteUpdate)
  have "i \<noteq> localID r1" using assms(2,8) by (simp add: remote_accepted_def)
  then have "liveness_decision ?r ts i ?m = Remove"
    using assms(3,6) by (simp add: liveness_decision_def)
  moreover have "reg_inv ls ?r" by (rule reg_inv_RemoteUpdate [OF assms(7)])
  ultimately have "members r' i = None"
    using UpdateLiveness_entry [of ls ?r ms clk ts r' i ?m] assms(9,10) stored
    by (simp add: sent decided_def)
  then show ?thesis using stored assms(5) by (simp add: sent c [symmetric])
qed

text \<open>A node n1 that has seen member g of node n2, and n2's tombstone for it.\<close>

theorem repaired_tombstone_dropped_witness:
  "\<exists>r'. UpdateLiveness sample_text (\<lambda>_. 60) [''m'', ''g''] 60
     (fold (RemoteUpdate sample_text)
       (fst (Delta [(''g'', MonotonicTimestamp 0 0)]
          (sample_registry\<lparr>members := [''g'' \<mapsto> sample_member ''g'' Liveness_LEFT ''n2'' 50 9000]\<rparr>)))
       sample_registry) = Some r' \<and> members r' ''g'' = None"
proof -
  let ?m = "sample_member ''g'' Liveness_LEFT ''n2'' 50 9000"
  let ?r2 = "sample_registry\<lparr>members := [''g'' \<mapsto> ?m]\<rparr>"
  let ?r = "fold (RemoteUpdate sample_text) (fst (Delta [(''g'', MonotonicTimestamp 0 0)] ?r2))
    sample_registry"
  have acc: "remote_accepted sample_registry ?m"
    by (simp add: remote_accepted_def sample_member_def)
  have "members ?r = [''m'' \<mapsto> sample_member ''m'' Liveness_UP ''n1'' 100 0,
      ''g'' \<mapsto> copyMember ?m]"
    using acc by (simp add: Delta_eq delta_answer_def List.map_filter_simps members_RemoteUpdate
        remote_accepted_def) (simp add: sample_member_def timestamp_order members_RemoteUpdate
        remote_accepted_def)
  then have ord: "iter_order [''m'', ''g''] (members ?r)" by (auto simp: iter_order_def)
  have inv: "reg_inv sample_text ?r"
    by (rule reg_inv_fold_RemoteUpdate) simp
  have quiet: "\<not> logger ?r" by simp
  from UpdateLiveness_quiet [OF inv ord quiet] obtain r' where
    run: "UpdateLiveness sample_text (\<lambda>_. 60) [''m'', ''g''] 60 ?r = Some r'" by blast
  have "members r' ''g'' = None"
    using repaired_tombstone_dropped [OF _ _ _ _ _ _ _ acc ord run]
    by (simp add: sample_member_def timestamp_order sample_registry_inv)
  with run show ?thesis by blast
qed

end
