(* ===== verification/RegistrySteps.thy ===== *)
theory RegistrySteps
  imports Subscriptions ReplicaRepair
begin

text \<open>
  The registry as a state machine: every public method that changes the registry is a step, with
  any argument, any clock reading and any map order; a call that panics has no next state, for the
  process ends. The invariant of RegistryFacts holds in every
  reachable state; subscribers follow the member map (the contract \<open>feed\<close>); versions
  given out grow as long as the clock does not go back.
\<close>

subsection \<open>Steps\<close>

datatype reg_event =
    Ev_add string | Ev_heartbeat string | Ev_remove string | Ev_remote member2
  | Ev_join string | Ev_leave string | Ev_liveness int
  | Ev_subscribe nat | Ev_unsubscribe nat | Ev_digest | Ev_delta

inductive reg_step :: "(liveness \<Rightarrow> string) \<Rightarrow> reg_event \<Rightarrow> registry \<Rightarrow> registry \<Rightarrow> bool"
  for ls
where
  step_add: "AddMember ls clk st opts r = Some r' \<Longrightarrow> reg_step ls (Ev_add (MemberId st)) r r'"
| step_heartbeat: "MemberHeartbeat ls clk clk' st opts r = Some r' \<Longrightarrow>
    reg_step ls (Ev_heartbeat (MemberId st)) r r'"
| step_remove: "RemoveMember ls clk clk' i opts r = Some r' \<Longrightarrow> reg_step ls (Ev_remove i) r r'"
| step_remote: "reg_step ls (Ev_remote u) r (RemoteUpdate ls u r)"
| step_join: "reg_step ls (Ev_join i) r (OnNodeJoin i r)"
| step_leave: "iter_order ms (members r) \<Longrightarrow>
    reg_step ls (Ev_leave i) r (OnNodeLeave ms clk i opts r)"
| step_liveness: "iter_order ms (members r) \<Longrightarrow> UpdateLiveness ls clks ms ts r = Some r' \<Longrightarrow>
    reg_step ls (Ev_liveness ts) r r'"
| step_subscribe_local: "SubscribeLocal r = (h, r') \<Longrightarrow> reg_step ls (Ev_subscribe h) r r'"
| step_subscribe: "iter_order ms (members r) \<Longrightarrow>
    (\<forall>q. req = Some q \<longrightarrow> iter_order ks (KnownMembers q)) \<Longrightarrow>
    Subscribe ms ks req r = (h, r') \<Longrightarrow> reg_step ls (Ev_subscribe h) r r'"
| step_unsubscribe: "reg_step ls (Ev_unsubscribe h) r (unsubscribe h r)"
| step_digest: "set ps = priorityMembers r \<Longrightarrow> iter_order ms (members r) \<Longrightarrow>
    mset perm = mset [0..<length ms] \<Longrightarrow> Digest ps ms perm limit r = (d, r') \<Longrightarrow>
    reg_step ls Ev_digest r r'"
| step_delta: "Delta d r = (us, r') \<Longrightarrow> reg_step ls Ev_delta r r'"

inductive reachable :: "(liveness \<Rightarrow> string) \<Rightarrow> registry \<Rightarrow> bool" for ls where
  reach_new: "reachable ls (NewRegistry ls clk lid opts)"
| reach_step: "reachable ls r \<Longrightarrow> reg_step ls e r r' \<Longrightarrow> reachable ls r'"

inductive_cases unsubscribe_stepE: "reg_step ls (Ev_unsubscribe h) r r'"
inductive_cases liveness_stepE: "reg_step ls (Ev_liveness ts) r r'"
inductive_simps remote_step_iff: "reg_step ls (Ev_remote u) r r'"

lemma Digest_frame:
  assumes "Digest ps ms perm limit r = (d, r')"
  shows "\<exists>prio. r' = r\<lparr>priorityMembers := prio\<rparr>"
  using assms by (auto simp: Digest_def split: prod.splits)

lemma reg_step_inv: "reg_step ls e r r' \<Longrightarrow> reg_inv ls r \<Longrightarrow> reg_inv ls r'"
proof (induction rule: reg_step.induct)
  case (step_liveness ms r clks ts r')
  then show ?case using pass_context by blast
next
  case (step_subscribe_local r h r')
  then show ?case using reg_inv_subs(1) by (metis snd_conv)
next
  case (step_subscribe ms r req ks h r')
  then show ?case using reg_inv_subs(2) by (metis snd_conv)
next
  case (step_digest ps r ms perm limit d r')
  then show ?case using Digest_frame by (metis reg_inv_frame(2))
next
  case (step_delta d r us r')
  then show ?case by (metis Delta_frame(3) snd_conv)
qed (auto intro: reg_inv_public reg_inv_subs)

lemma reachable_inv: "reachable ls r \<Longrightarrow> reg_inv ls r"
  by (induction rule: reachable.induct) (auto intro: reg_inv_NewRegistry reg_step_inv)

text \<open>The node id and the timeouts never change; neither does the entry of the node itself.\<close>

lemma AddMember_fields:
  "AddMember ls clk st opts r = Some r' \<Longrightarrow> localID r' = localID r \<and> subs r' = subs r"
  by (simp add: AddMember_Some)

lemma MemberHeartbeat_fields:
  "MemberHeartbeat ls clk clk' st opts r = Some r' \<Longrightarrow> localID r' = localID r \<and> subs r' = subs r"
  by (auto simp: MemberHeartbeat_Some split: if_splits)

lemma RemoveMember_fields:
  "RemoveMember ls clk clk' i opts r = Some r' \<Longrightarrow> localID r' = localID r \<and> subs r' = subs r"
  by (auto simp: RemoveMember_Some split: option.splits)

lemma members_MemberHeartbeat_own:
  "MemberHeartbeat ls clk clk' st opts r = Some r' \<Longrightarrow> members r' (localID r) = members r (localID r)"
  by (auto simp: MemberHeartbeat_Some members_update_result split: if_splits)

lemma members_RemoveMember_own:
  assumes "reg_inv ls r" and "RemoveMember ls clk clk' i opts r = Some r'"
  shows "members r' (localID r) = members r (localID r)"
  using reg_inv_id [OF assms(1)] assms(2)
  by (auto simp: RemoveMember_Some members_update_result split: option.splits)

lemma reg_step_own:
  assumes "reg_step ls e r r'" and "reg_inv ls r"
  shows "localID r' = localID r \<and> members r' (localID r) = members r (localID r)"
  using assms
proof (induction rule: reg_step.induct)
  case (step_add clk st opts r r')
  then show ?case by (simp add: AddMember_Some members_update_result)
next
  case (step_heartbeat clk clk' st opts r r')
  then show ?case using members_MemberHeartbeat_own MemberHeartbeat_fields by blast
next
  case (step_remove clk clk' i opts r r')
  then show ?case using members_RemoveMember_own RemoveMember_fields by blast
next
  case (step_remote u r)
  then show ?case by (simp add: members_RemoteUpdate remote_accepted_def)
next
  case (step_liveness ms r clks ts r')
  have ctx: "same_context r r'" using pass_context [OF step_liveness(3,1,2)] by blast
  have "members r' (localID r) = members r (localID r)"
  proof (cases "members r (localID r)")
    case None
    then show ?thesis using UpdateLiveness_absent [OF step_liveness(3,1,2)] by simp
  next
    case (Some m)
    then show ?thesis
      using UpdateLiveness_entry [OF step_liveness(3,1,2) Some]
      by (simp add: liveness_decision_def decided_def)
  qed
  with ctx show ?case by (simp add: same_context_def)
next
  case (step_digest ps r ms perm limit d r')
  from Digest_frame [OF this(4)] show ?case by auto
next
  case (step_delta d r us r')
  then show ?case by (metis Delta_frame(1,2) snd_conv)
qed (auto simp: OnNodeJoin_def OnNodeLeave_def SubscribeLocal_def Subscribe_eq unsubscribe_def Let_def)

subsection \<open>Subscribers\<close>

text \<open>
  What a subscription is about: every member for a full subscription, the members that the node
  owns for an owner-only one. A left member counts as gone.
\<close>

definition visible :: "subHandle \<Rightarrow> string \<Rightarrow> member2 \<Rightarrow> bool" where
  "visible s lid m \<longleftrightarrow> (ownerOnly s \<longrightarrow> OwnerId (Version m) = lid)"

definition visible_part :: "subHandle \<Rightarrow> string \<Rightarrow> (string \<rightharpoonup> member2) \<Rightarrow> string \<rightharpoonup> member2" where
  "visible_part s lid mm = (\<lambda>i. case mm i of None \<Rightarrow> None
     | Some m \<Rightarrow> if visible s lid m then Some m else None)"

definition has_left :: "member2 \<Rightarrow> bool" where
  "has_left m \<longleftrightarrow> Liveness m = Liveness_LEFT"

definition feeds :: "subHandle \<Rightarrow> nat \<Rightarrow> registry \<Rightarrow> registry \<Rightarrow> bool" where
  "feeds s h r r' \<longleftrightarrow> subs r' h = subs r h \<and> localID r' = localID r \<and>
     (change member_id (visible s (localID r)) has_left)\<^sup>*\<^sup>*
       (visible_part s (localID r) (members r), inbox r h)
       (visible_part s (localID r) (members r'), inbox r' h)"

lemma feeds_trans:
  assumes "feeds s h a b" and "feeds s h b c"
  shows "feeds s h a c"
proof -
  have id: "localID b = localID a" using assms(1) by (simp add: feeds_def)
  show ?thesis
    using assms unfolding feeds_def id by (elim conjE, intro conjI) (simp, simp, rule rtranclp_trans)
qed

lemma feeds_same:
  "subs r' h = subs r h \<Longrightarrow> localID r' = localID r \<Longrightarrow> members r' = members r \<Longrightarrow>
   inbox r' h = inbox r h \<Longrightarrow> feeds s h r r'"
  by (simp add: feeds_def)

lemma visible_part_upd:
  "visible_part s lid (mm(i \<mapsto> m)) =
     (visible_part s lid mm)(i := if visible s lid m then Some m else None)"
  "visible_part s lid (mm(i := None)) = (visible_part s lid mm)(i := None)"
  by (auto simp: visible_part_def)

lemma feeds_put:
  assumes "subs r h = Some s" and "members r0 = members r" and "localID r0 = localID r"
    and "subs r0 = subs r" and "inbox r0 = inbox r"
    and owner: "b \<longleftrightarrow> OwnerId (Version u) = localID r \<or>
      (\<exists>e. members r (MemberId (State u)) = Some e \<and> OwnerId (Version e) = localID r)"
  shows "feeds s h r (notifySubscribersLocked u b (setMemberLocked ls u r0))"
    (is "feeds s h r ?r'")
proof (cases "ownerOnly s \<longrightarrow> b")
  case True
  then have "inbox ?r' h = inbox r h @ [u]" using assms(1,4,5) by (simp add: inbox_notify)
  moreover have "visible_part s (localID r) (members ?r') =
      (visible_part s (localID r) (members r))
        (member_id u := if visible s (localID r) u then Some u else None)"
    using assms(2) by (simp add: visible_part_upd member_id_def)
  ultimately have "change member_id (visible s (localID r)) has_left
       (visible_part s (localID r) (members r), inbox r h)
       (visible_part s (localID r) (members ?r'), inbox ?r' h)"
    by (simp add: change_put)
  then show ?thesis using assms(3,4) by (simp add: feeds_def r_into_rtranclp)
next
  case False
  then have "visible_part s (localID r) (members ?r') = visible_part s (localID r) (members r)"
    using assms(2) owner
    by (auto simp: visible_part_def visible_def fun_eq_iff split: option.split)
  moreover have "inbox ?r' h = inbox r h" using False assms(1,4,5) by (simp add: inbox_notify)
  ultimately show ?thesis using assms(3,4) by (simp add: feeds_def)
qed

lemma feeds_update:
  assumes "subs r h = Some s"
  shows "feeds s h r (update_result ls clk st lv ex opts r)"
proof -
  let ?r1 = "snd (nextVersionLocked (opt_now (get_options clk opts)) r)"
  have "feeds s h r (notifySubscribersLocked
      \<lparr>State = st, Liveness = lv, Version = update_version clk opts r, Expiry = ex\<rparr> True
      (setMemberLocked ls
        \<lparr>State = st, Liveness = lv, Version = update_version clk opts r, Expiry = ex\<rparr> ?r1))"
    by (rule feeds_put [OF assms]) simp_all
  moreover have "feeds s h r ?r1" by (rule feeds_same) simp_all
  moreover have "feeds s h r r" by (rule feeds_same) simp_all
  ultimately show ?thesis by (simp add: update_result_def Let_def)
qed

lemma feeds_RemoteUpdate:
  assumes "subs r h = Some s"
  shows "feeds s h r (RemoteUpdate ls u r)"
  using feeds_put [OF assms, of r "lost_ownership r u" u ls] feeds_same [of r h r s]
  by (auto simp: RemoteUpdate_eq remote_accepted_def lost_ownership_def)

lemma feeds_delete:
  assumes "members r i = Some m" and "Liveness m = Liveness_LEFT"
  shows "feeds s h r (deleteMemberLocked ls i r)"
proof (cases "visible s (localID r) m")
  case True
  then have "change member_id (visible s (localID r)) has_left
       (visible_part s (localID r) (members r), inbox r h)
       ((visible_part s (localID r) (members r))(i := None), inbox r h)"
    using assms by (intro change_drop [of _ _ m]) (simp_all add: visible_part_def has_left_def)
  then show ?thesis by (simp add: feeds_def visible_part_upd r_into_rtranclp)
next
  case False
  then have "(visible_part s (localID r) (members r))(i := None) =
      visible_part s (localID r) (members r)"
    using assms(1) by (auto simp: visible_part_def)
  then show ?thesis by (simp add: feeds_def visible_part_upd)
qed

lemma feeds_liveness_member:
  assumes "subs r h = Some s" and "updateMemberLivenessLocked ls clk i ts r = Some r'"
  shows "feeds s h r r'"
proof (cases "members r i")
  case None
  then have "r' = r" using assms(2) by (simp add: updateMemberLivenessLocked_def split: if_splits)
  then show ?thesis by (simp add: feeds_same)
next
  case (Some m)
  have r': "r' = apply_decision ls clk i m (liveness_decision r ts i m) r"
    using updateMemberLiveness_decision [of r i m ls clk ts] Some assms(2) by (simp split: if_splits)
  show ?thesis
  proof (cases "liveness_decision r ts i m")
    case Keep
    then show ?thesis by (simp add: r' feeds_same)
  next
    case Remove
    then have "Liveness m = Liveness_LEFT"
      by (auto simp: liveness_decision_def split: if_splits option.splits)
    then show ?thesis using feeds_delete [OF Some] Remove by (simp add: r')
  next
    case (Become l ex)
    then show ?thesis using feeds_update [OF assms(1)] by (simp add: r')
  qed
qed

lemma feeds_liveness:
  assumes "subs r h = Some s" and "UpdateLiveness ls clks ms ts r = Some r'"
  shows "feeds s h r r'"
proof -
  have step: "subs y h = Some s \<and> feeds s h r y"
    if "updateMemberLivenessLocked ls (clks i) i ts x = Some y" "subs x h = Some s \<and> feeds s h r x"
    for i x y
  proof -
    have xy: "feeds s h x y" using that by (blast intro: feeds_liveness_member)
    then have "feeds s h r y" using that(2) by (blast intro: feeds_trans)
    with xy that(2) show ?thesis by (simp add: feeds_def [of s h x y])
  qed
  have start: "subs r h = Some s \<and> feeds s h r r" using assms(1) by (simp add: feeds_same)
  have "subs r' h = Some s \<and> feeds s h r r'"
    by (rule foldM_invariant [where P = "\<lambda>x. subs x h = Some s \<and> feeds s h r x",
          OF _ assms(2) [unfolded UpdateLiveness_def] start]) (erule (1) step)
  then show ?thesis by blast
qed

lemma reg_step_feeds:
  assumes "reg_step ls e r r'" and "reg_inv ls r" and "subs r h = Some s"
    and "e \<noteq> Ev_unsubscribe h"
  shows "feeds s h r r'"
  using assms
proof (induction rule: reg_step.induct)
  case (step_add clk st opts r r')
  then show ?case by (simp add: AddMember_Some feeds_update)
next
  case (step_heartbeat clk clk' st opts r r')
  then show ?case by (auto simp: MemberHeartbeat_Some feeds_update intro: feeds_same split: if_splits)
next
  case (step_remove clk clk' i opts r r')
  then show ?case
    by (auto simp: RemoveMember_Some feeds_update intro: feeds_same split: option.splits)
next
  case (step_remote u r)
  then show ?case by (simp add: feeds_RemoteUpdate)
next
  case (step_liveness ms r clks ts r')
  then show ?case by (blast intro: feeds_liveness)
next
  case (step_subscribe_local r h' r')
  then have "h \<noteq> nextHandle r" by (auto simp: reg_inv_def inv_handles_def)
  then show ?case using step_subscribe_local(1) by (auto simp: SubscribeLocal_def Let_def intro: feeds_same)
next
  case (step_subscribe ms r req ks h' r')
  then have "h \<noteq> nextHandle r" by (auto simp: reg_inv_def inv_handles_def)
  then show ?case using step_subscribe(3) by (auto simp: Subscribe_eq Let_def intro: feeds_same)
next
  case (step_digest ps r ms perm limit d r')
  from Digest_frame [OF this(4)] show ?case by (auto intro: feeds_same)
next
  case (step_delta d r us r')
  then show ?case by (auto simp: Delta_eq intro: feeds_same)
qed (auto simp: OnNodeJoin_def OnNodeLeave_def unsubscribe_def Let_def intro: feeds_same)

text \<open>The steps of a node while handle \<open>h\<close> is subscribed as \<open>s\<close>.\<close>

definition subscribed_step ::
  "(liveness \<Rightarrow> string) \<Rightarrow> string \<Rightarrow> subHandle \<Rightarrow> nat \<Rightarrow> registry \<Rightarrow> registry \<Rightarrow> bool"
where
  "subscribed_step ls lid s h r r' \<longleftrightarrow> localID r = lid \<and> subs r h = Some s \<and> reg_inv ls r \<and>
     (\<exists>e. reg_step ls e r r' \<and> e \<noteq> Ev_unsubscribe h)"

interpretation subscription: feed member_id "visible s lid" has_left
  "\<lambda>r. visible_part s lid (members r)" "\<lambda>r. inbox r h" "subscribed_step ls lid s h" for s lid h ls
proof
  fix r r' assume "subscribed_step ls lid s h r r'"
  then have "feeds s h r r'" and "localID r = lid"
    by (auto simp: subscribed_step_def reg_step_feeds)
  then show "(change member_id (visible s lid) has_left)\<^sup>*\<^sup>*
      (visible_part s lid (members r), inbox r h) (visible_part s lid (members r'), inbox r' h)"
    by (simp add: feeds_def)
qed

text \<open>A run of the registry during which a handle is not unsubscribed.\<close>

inductive run_without :: "(liveness \<Rightarrow> string) \<Rightarrow> nat \<Rightarrow> registry \<Rightarrow> registry \<Rightarrow> bool" for ls h where
  run_refl: "run_without ls h r r"
| run_step: "run_without ls h r r' \<Longrightarrow> reg_step ls e r' r'' \<Longrightarrow> e \<noteq> Ev_unsubscribe h \<Longrightarrow>
    run_without ls h r r''"

lemma run_subscribed:
  assumes "run_without ls h r r'" and "reg_inv ls r" and "subs r h = Some s"
  shows "(subscribed_step ls (localID r) s h)\<^sup>*\<^sup>* r r' \<and> reg_inv ls r' \<and> subs r' h = Some s \<and>
    localID r' = localID r"
  using assms
proof (induction rule: run_without.induct)
  case (run_refl r)
  then show ?case by simp
next
  case (run_step r r' e r'')
  then have IH: "(subscribed_step ls (localID r) s h)\<^sup>*\<^sup>* r r'" "reg_inv ls r'"
    "subs r' h = Some s" "localID r' = localID r" by blast+
  have "subscribed_step ls (localID r) s h r' r''"
    using IH run_step.hyps by (auto simp: subscribed_step_def)
  moreover have "feeds s h r' r''" using reg_step_feeds [OF run_step.hyps(2)] IH run_step.hyps(3) by blast
  moreover have "reg_inv ls r''" using reg_step_inv [OF run_step.hyps(2) IH(2)] .
  ultimately show ?case using IH by (simp add: feeds_def)
qed

text \<open>What a (re)connecting subscriber knows right after Subscribe.\<close>

lemma visible_part_at: "visible_part s lid mm i =
    (case mm i of None \<Rightarrow> None | Some m \<Rightarrow> if visible s lid m then Some m else None)"
  by (simp add: visible_part_def)

lemma missed_updates_follow:
  assumes inv: "reg_inv ls r" and ms: "iter_order ms (members r)" and ks: "iter_order ks known"
    and known: "known = (\<lambda>i. map_option Version (v0 i))"
    and behind: "\<And>i u m. v0 i = Some u \<Longrightarrow> members r i = Some m \<Longrightarrow>
      u = m \<or> newer (Version u) (Version m)"
    and s: "s = \<lparr>ownerOnly = oo\<rparr>"
  shows "follows has_left (visible_part s (localID r) (members r))
    (view member_id (visible s (localID r)) (visible_part s (localID r) v0)
      (Updates ms ks \<lparr>KnownMembers = known, OwnerOnly = oo\<rparr> r))"
proof -
  let ?l = "Updates ms ks \<lparr>KnownMembers = known, OwnerOnly = oo\<rparr> r"
  let ?vis = "visible s (localID r)"
  let ?view = "view member_id ?vis (visible_part s (localID r) v0) ?l"
  have dist: "distinct (map member_id ?l)"
    using updates_distinct_ids [OF ms, of ks "\<lparr>KnownMembers = known, OwnerOnly = oo\<rparr>"] ks
      reg_inv_id [OF inv] by (simp add: Updates_def member_id_def [abs_def])
  note sent = set_Updates [OF inv ms ks refl, of oo]
  have "visible_part s (localID r) (members r) i = ?view i \<or>
      (members r i = None \<and> (\<forall>x. ?view i = Some x \<longrightarrow> has_left x))" for i
  proof (cases "\<exists>u \<in> set ?l. member_id u = i")
    case True
    then obtain u where u: "u \<in> set ?l" "member_id u = i" by blast
    then have v: "?view i = (if ?vis u then Some u else None)" using view_distinct [OF dist] by blast
    from u(1) sent consider i' where "members r i' = Some u"
      | i' kv where "members r i' = None" "u = left_update i' kv" by blast
    then show ?thesis
    proof cases
      case 1
      then have "members r i = Some u" using reg_inv_id [OF inv 1] u(2) by (simp add: member_id_def)
      then show ?thesis by (simp add: v visible_part_at)
    next
      case 2
      then have "members r i = None" using u(2) by (simp add: member_id_def)
      then show ?thesis using 2(2) by (simp add: v has_left_def)
    qed
  next
    case False
    then have "i \<notin> member_id ` set ?l" by (simp add: image_iff) metis
    then have v: "?view i = visible_part s (localID r) v0 i"
      by (rule conjunct2 [OF view_distinct [OF dist], rule_format])
    show ?thesis
    proof (cases "members r i")
      case None
      have "\<not> (oo \<longrightarrow> OwnerId (Version w) = localID r)" if "v0 i = Some w" for w
      proof
        assume "oo \<longrightarrow> OwnerId (Version w) = localID r"
        then have "left_update i (Version w) \<in> set ?l"
          using that None unfolding sent by (auto simp: known)
        then show False using False by (auto simp: member_id_def)
      qed
      then show ?thesis using None v by (auto simp: visible_part_at visible_def s split: option.split)
    next
      case (Some m)
      have m: "member_id m = i" using reg_inv_id [OF inv Some] by (simp add: member_id_def)
      with False have "m \<notin> set ?l" by blast
      then have not_sent: "\<not> (case known i of
            None \<Rightarrow> oo \<longrightarrow> OwnerId (Version m) = localID r
          | Some kv \<Rightarrow> newer kv (Version m) \<and>
              (oo \<longrightarrow> OwnerId (Version m) = localID r \<or> OwnerId kv = localID r))"
        using Some unfolding sent by blast
      have "visible_part s (localID r) (members r) i = visible_part s (localID r) v0 i"
      proof (cases "v0 i")
        case None
        then show ?thesis using not_sent Some
          by (simp add: known visible_part_at visible_def s)
      next
        case (Some u)
        with behind [OF Some \<open>members r i = Some m\<close>] show ?thesis
          using not_sent \<open>members r i = Some m\<close>
          by (auto simp: known visible_part_at visible_def s)
      qed
      then show ?thesis using v by simp
    qed
  qed
  note agree = this
  show ?thesis unfolding follows_def
  proof (intro allI conjI impI)
    fix i x
    show "?view i = Some x" if "visible_part s (localID r) (members r) i = Some x"
      using agree [of i] that by (auto simp: visible_part_at [of s "localID r" "members r"])
    show "has_left x"
      if "visible_part s (localID r) (members r) i = None" and "?view i = Some x"
      using agree [of i] that by auto
  qed
qed

text \<open>
  C1: a subscriber stays up to date. Take any registry state, and a client that reconnects with
  what it knew before (v0, nothing of it fresher than the registry). If it applies each update
  it is sent to its own copy, then after any further steps of the registry - updates, remote
  updates, failure-detector passes, other subscriptions - that copy agrees with the registry on
  every member of the subscription, and any other member it shows has left. For an owner-only
  subscription the members are those the node owns, so the client also learns of each one the
  node loses.
\<close>
theorem subscriber_up_to_date:
  assumes inv: "reg_inv ls r" and orders: "iter_order ms (members r)" "iter_order ks known"
    and known: "known = (\<lambda>i. map_option Version (v0 i))"
    and behind: "\<forall>i u m. v0 i = Some u \<longrightarrow> members r i = Some m \<longrightarrow>
      u = m \<or> newer (Version u) (Version m)"
    and sub: "Subscribe ms ks (Some \<lparr>KnownMembers = known, OwnerOnly = oo\<rparr>) r = (h, r1)"
    and run: "run_without ls h r1 r2" and s: "s = \<lparr>ownerOnly = oo\<rparr>"
  shows "follows has_left (visible_part s (localID r) (members r2))
    (view member_id (visible s (localID r)) (visible_part s (localID r) v0) (inbox r2 h))"
proof -
  have h: "h = nextHandle r" and fields: "localID r1 = localID r" "members r1 = members r"
    "subs r1 h = Some s"
    using sub by (auto simp: Subscribe_eq s)
  have "inbox r (nextHandle r) = []" using inv by (simp add: reg_inv_def inv_handles_def)
  then have "inbox r1 h = Updates ms ks \<lparr>KnownMembers = known, OwnerOnly = oo\<rparr> r"
    using sub by (auto simp: Subscribe_eq Updates_def)
  then have start: "follows has_left (visible_part s (localID r) (members r1))
    (view member_id (visible s (localID r)) (visible_part s (localID r) v0) (inbox r1 h))"
    using missed_updates_follow [OF inv orders known _ s] behind by (simp add: fields)
  have "reg_inv ls r1" using reg_inv_subs(2) [OF inv] sub by (metis snd_conv)
  from run_subscribed [OF run this fields(3)]
  have "(subscribed_step ls (localID r) s h)\<^sup>*\<^sup>* r1 r2" by (simp add: fields)
  from subscription.steps_follow [OF this start] show ?thesis .
qed

theorem subscriber_up_to_date_witness:
  "\<exists>h r1 r2. Subscribe [''m''] [] (Some \<lparr>KnownMembers = Map.empty, OwnerOnly = False\<rparr>)
       sample_registry = (h, r1) \<and>
     r2 = RemoteUpdate sample_text (sample_member ''x'' Liveness_UP ''n2'' 5 0) r1 \<and>
     follows has_left (visible_part \<lparr>ownerOnly = False\<rparr> ''n1'' (members r2))
       (view member_id (visible \<lparr>ownerOnly = False\<rparr> ''n1'') Map.empty (inbox r2 h))"
proof -
  obtain h r1 where sub: "Subscribe [''m''] [] (Some \<lparr>KnownMembers = Map.empty, OwnerOnly = False\<rparr>)
       sample_registry = (h, r1)" by fastforce
  let ?u = "sample_member ''x'' Liveness_UP ''n2'' 5 0"
  let ?r2 = "RemoteUpdate sample_text ?u r1"
  have run: "run_without sample_text h r1 ?r2"
    by (rule run_step [OF run_refl step_remote]) simp
  have empty: "iter_order [] Map.empty" by (simp add: iter_order_def)
  have v: "visible_part \<lparr>ownerOnly = False\<rparr> ''n1'' Map.empty = Map.empty"
    by (simp add: visible_part_def)
  have "follows has_left (visible_part \<lparr>ownerOnly = False\<rparr> ''n1'' (members ?r2))
       (view member_id (visible \<lparr>ownerOnly = False\<rparr> ''n1'') Map.empty (inbox ?r2 h))"
    using subscriber_up_to_date [OF sample_registry_inv sample_order empty _ _ sub run refl,
        of Map.empty] by (simp add: v)
  with sub show ?thesis by blast
qed

end
