(* ===== verification/Ownership.thy ===== *)
theory Ownership
  imports RegistrySteps
begin

text \<open>
  Properties of the registry that combine its operations: what every reachable state satisfies,
  the versions a node gives out, and how the ownership of a member moves between nodes and ends.
\<close>

subsection \<open>Every reachable state\<close>

text \<open>
  C8: in every state that any sequence of registry operations reaches from a new registry:
  members are filed under their own id; lastSeen has an entry for exactly the members this node
  owns; the node's own entry is up and its own; and the two gauges read, for every member the
  registry could label, the exact number of stored (owned) members with these labels.
\<close>
theorem reachable_consistent:
  assumes "reachable ls r"
  shows "(\<forall>i m. members r i = Some m \<longrightarrow> MemberId (State m) = i) \<and>
    (\<forall>i. lastSeen r i \<noteq> None \<longleftrightarrow>
       (\<exists>m. members r i = Some m \<and> OwnerId (Version m) = localID r)) \<and>
    (\<forall>m. members r (localID r) = Some m \<longrightarrow>
       Liveness m = Liveness_UP \<and> OwnerId (Version m) = localID r) \<and>
    (\<forall>x. Gauge_Value (labelsToLowercase (count_labels ls x)) (MembersCount (metrics r)) =
       int (card {i. \<exists>m. members r i = Some m \<and>
         metric_key (count_labels ls m) = metric_key (count_labels ls x)})) \<and>
    (\<forall>x. Gauge_Value (labelsToLowercase (owned_labels ls x)) (MembersOwned (metrics r)) =
       int (card {i. \<exists>m. members r i = Some m \<and> OwnerId (Version m) = localID r \<and>
         metric_key (owned_labels ls m) = metric_key (owned_labels ls x)}))"
  using reachable_inv [OF assms]
  by (simp add: reg_inv_def reg_inv_defs Gauge_Value_cell metric_key_def population_def)

theorem reachable_consistent_witness:
  "lastSeen (RemoteUpdate sample_text (sample_member ''x'' Liveness_UP ''n2'' 5 0) sample_registry)
     ''x'' = None"
proof -
  let ?u = "sample_member ''x'' Liveness_UP ''n2'' 5 0"
  let ?r = "RemoteUpdate sample_text ?u sample_registry"
  have "reachable sample_text sample_registry"
    by (rule reach_step [OF reach_new step_add [OF sample_registry_added]])
  then have "reachable sample_text ?r" by (rule reach_step [OF _ step_remote])
  note seen = conjunct1 [OF conjunct2 [OF reachable_consistent [OF this]]]
  have "members ?r ''x'' = Some ?u"
    by (simp add: members_RemoteUpdate remote_accepted_def)
  then show ?thesis using spec [OF seen, of "''x''"] by simp
qed

text \<open>
  The node's own member never changes: whatever is written, received, expired or taken over,
  the entry that NewRegistry made for the local member stays as it was, up and first in version.
\<close>
theorem local_member_fixed:
  assumes "localMember (get_options clk opts) = Some st" and "MemberId st = lid"
    and "(\<lambda>a b. \<exists>e. reg_step ls e a b)\<^sup>*\<^sup>* (NewRegistry ls clk lid opts) r"
  shows "members r lid = Some \<lparr>State = st, Liveness = Liveness_UP,
    Version = \<lparr>OwnerId = lid, VTimestamp = MonotonicTimestamp (opt_now (get_options clk opts)) 0\<rparr>,
    Expiry = 0\<rparr>"
proof -
  let ?n = "NewRegistry ls clk lid opts"
  have "localID r = lid \<and> members r lid = members ?n lid \<and> reg_inv ls r"
    using assms(3)
  proof (induction rule: rtranclp_induct)
    case base
    then show ?case by (simp add: reg_inv_NewRegistry)
  next
    case (step y z)
    then obtain e where e: "reg_step ls e y z" by blast
    from reg_step_own [OF e] reg_step_inv [OF e] step.IH show ?case by simp
  qed
  then show ?thesis using assms(1,2) by (simp add: NewRegistry_def Let_def nextVersionLocked_def)
qed

theorem local_member_fixed_witness:
  "members (RemoteUpdate sample_text (sample_member ''n1'' Liveness_LEFT ''n2'' 900 0)
      (NewRegistry sample_text 10 ''n1'' [WithLocalMember (zero_state ''n1'')])) ''n1'' =
   Some (sample_member ''n1'' Liveness_UP ''n1'' 10 0)"
proof -
  let ?n = "NewRegistry sample_text 10 ''n1'' [WithLocalMember (zero_state ''n1'')]"
  let ?u = "sample_member ''n1'' Liveness_LEFT ''n2'' 900 0"
  have "(\<lambda>a b. \<exists>e. reg_step sample_text e a b)\<^sup>*\<^sup>* ?n (RemoteUpdate sample_text ?u ?n)"
    by (rule r_into_rtranclp) (blast intro: step_remote)
  from local_member_fixed [OF _ _ this, of "zero_state ''n1''"] show ?thesis
    by (simp add: defaultOptions_def sample_member_def)
qed

subsection \<open>The versions a node gives out\<close>

fun issue_versions :: "int list \<Rightarrow> registry \<Rightarrow> version2 list \<times> registry" where
  "issue_versions [] r = ([], r)"
| "issue_versions (now # nows) r =
     (let (v, r1) = nextVersionLocked now r; (vs, r2) = issue_versions nows r1 in (v # vs, r2))"

lemma nextVersion_newer:
  assumes "lastVersion r = Some lv" and "OwnerId lv = localID r"
    and "Timestamp (VTimestamp lv) \<le> now" and "unat (Counter (VTimestamp lv)) + 1 < 2 ^ 64"
  shows "newer lv (fst (nextVersionLocked now r)) \<and>
    unat (Counter (VTimestamp (fst (nextVersionLocked now r)))) \<le>
      unat (Counter (VTimestamp lv)) + 1"
proof -
  have "unat (Counter (VTimestamp lv) + 1) = unat (Counter (VTimestamp lv)) + 1"
    using assms(4) by (simp add: unat_word_ariths(1))
  then show ?thesis
    using assms by (auto simp: nextVersionLocked_def Let_def newer_iff word_less_nat_alt)
qed

lemma issue_versions_newer:
  assumes "lastVersion r = Some lv" and "OwnerId lv = localID r"
    and "sorted (Timestamp (VTimestamp lv) # nows)"
    and "unat (Counter (VTimestamp lv)) + length nows < 2 ^ 64"
  shows "sorted_wrt newer (lv # fst (issue_versions nows r))"
  using assms
proof (induction nows arbitrary: r lv)
  case Nil
  then show ?case by simp
next
  case (Cons n ns)
  let ?v = "fst (nextVersionLocked n r)" and ?r = "snd (nextVersionLocked n r)"
  from Cons.prems have new: "newer lv ?v"
    "unat (Counter (VTimestamp ?v)) \<le> unat (Counter (VTimestamp lv)) + 1"
    using nextVersion_newer [of r lv n] by auto
  have "sorted_wrt newer (?v # fst (issue_versions ns ?r))"
    by (rule Cons.IH) (use Cons.prems new(2) in auto)
  moreover have "fst (issue_versions (n # ns) r) = ?v # fst (issue_versions ns ?r)"
    by (simp add: Let_def case_prod_beta)
  ultimately show ?case using new(1) versions.fresher_trans by auto
qed

text \<open>
  C20: the versions of one node are strictly increasing. If the clock readings never go back (they
  may repeat, as many updates fall into one millisecond), each version given out is newer than
  every earlier one, so no two updates of a node share a version and later ones win; the 64-bit
  counter is enough for 2 ^ 64 - 1 updates in a row.
\<close>
theorem versions_increase:
  assumes "lastVersion r = None" and "sorted nows" and "length nows < 2 ^ 64"
  shows "sorted_wrt newer (fst (issue_versions nows r))"
proof (cases nows)
  case Nil
  then show ?thesis by simp
next
  case (Cons n ns)
  let ?v = "fst (nextVersionLocked n r)" and ?r = "snd (nextVersionLocked n r)"
  have "Counter (VTimestamp ?v) = 0"
    using assms(1) by (simp add: nextVersionLocked_def Let_def)
  then have "sorted_wrt newer (?v # fst (issue_versions ns ?r))"
    using assms Cons by (intro issue_versions_newer) auto
  then show ?thesis by (simp add: Cons Let_def case_prod_beta)
qed

theorem versions_increase_witness:
  "sorted_wrt newer (fst (issue_versions [5, 5, 9] (NewRegistry sample_text 0 ''n1'' [])))"
  using members_NewRegistry_plain [of "[]" 0 sample_text "''n1''"]
  by (intro versions_increase) (simp_all add: defaultOptions_def)

text \<open>
  Only the last reading is remembered, so a clock that steps back lets versions repeat: the
  readings t, t', t with t' before t give the first and the third update the same version, and
  the other registries discard the third one as outdated when both are for the same member.
\<close>
theorem version_repeats_after_clock_step:
  assumes "lastVersion r = None" and "t' < t"
  shows "\<exists>v v'. fst (issue_versions [t, t', t] r) = [v, v', v] \<and>
    (\<forall>r2 m1 m3. MemberId (State m1) = MemberId (State m3) \<and> Version m1 = v \<and> Version m3 = v \<and>
       remote_accepted r2 m1 \<longrightarrow>
       RemoteUpdate ls m3 (RemoteUpdate ls m1 r2) = RemoteUpdate ls m1 r2)"
proof -
  have "fst (issue_versions [t, t', t] r) =
      [\<lparr>OwnerId = localID r, VTimestamp = MonotonicTimestamp t 0\<rparr>,
       \<lparr>OwnerId = localID r, VTimestamp = MonotonicTimestamp t' 0\<rparr>,
       \<lparr>OwnerId = localID r, VTimestamp = MonotonicTimestamp t 0\<rparr>]"
    using assms by (simp add: Let_def nextVersionLocked_def)
  moreover have "RemoteUpdate ls m3 (RemoteUpdate ls m1 r2) = RemoteUpdate ls m1 r2"
    if "MemberId (State m1) = MemberId (State m3)" "Version m1 = Version m3"
      "remote_accepted r2 m1" for r2 m1 m3
    using that versions.fresher_irrefl [of "Version m3"]
    by (subst RemoteUpdate_eq) (simp add: remote_accepted_def [of _ m3] members_RemoteUpdate)
  ultimately show ?thesis by (intro exI conjI) auto
qed

theorem version_repeats_after_clock_step_witness:
  "\<exists>v v'. fst (issue_versions [9, 4, 9] (NewRegistry sample_text 0 ''n1'' [])) = [v, v', v]"
proof -
  have "lastVersion (NewRegistry sample_text 0 ''n1'' []) = None"
    using members_NewRegistry_plain [of "[]" 0 sample_text "''n1''"]
    by (simp add: defaultOptions_def)
  moreover have "(4 :: int) < 9" by simp
  ultimately show ?thesis
    using version_repeats_after_clock_step [of "NewRegistry sample_text 0 ''n1'' []" 4 9] by blast
qed

subsection \<open>Ownership\<close>

text \<open>
  A heartbeat takes a member back. Node r1 lost member i to another node and then hears from
  the client: it becomes the owner again, the member is up, and when its update reaches a node
  r2 that still holds the other version - the node that took the member over, for one - that node
  gives the member up: it stores the update and no longer watches its heartbeats.
\<close>
theorem heartbeat_reclaims:
  assumes "members r1 (MemberId st) = Some m" and "MemberId st \<noteq> localID r1"
    and "OwnerId (Version m) \<noteq> localID r1" and "Timestamp (VTimestamp (Version m)) < t"
    and "members r2 (MemberId st) = Some m" and "MemberId st \<noteq> localID r2"
    and "localID r1 \<noteq> localID r2"
  shows "\<exists>r1' u. MemberHeartbeat ls clk clk' st [WithNowTime t] r1 = Some r1' \<and>
    members r1' (MemberId st) = Some u \<and> OwnerId (Version u) = localID r1 \<and>
    Liveness u = Liveness_UP \<and> State u = st \<and> lastSeen r1' (MemberId st) = Some t \<and>
    members (RemoteUpdate ls u r2) (MemberId st) = Some u \<and>
    lastSeen (RemoteUpdate ls u r2) (MemberId st) = None"
proof -
  let ?v = "update_version clk' [WithNowTime t] r1"
  let ?u = "\<lparr>State = st, Liveness = Liveness_UP, Version = ?v, Expiry = 0\<rparr>"
  let ?r1 = "update_result ls clk' st Liveness_UP 0 [WithNowTime t] r1"
  have new: "newer (Version m) ?v" using assms(4) by (simp add: newer_iff)
  then have fresh: "\<not> update_outdated clk' (MemberId st) [WithNowTime t] r1"
    using assms(1) by (simp add: update_outdated_def)
  then have "MemberHeartbeat ls clk clk' st [WithNowTime t] r1 = Some ?r1"
    using assms(1-3) by (simp add: MemberHeartbeat_Some beating_def update_panics_def)
  moreover have "members ?r1 (MemberId st) = Some ?u" "lastSeen ?r1 (MemberId st) = Some t"
    using assms(2) fresh by (simp_all add: members_update_result lastSeen_update_result)
  moreover have "remote_accepted r2 ?u"
    using assms(5-7) new by (simp add: remote_accepted_def)
  ultimately show ?thesis
    using assms(7) by (intro exI [of _ ?r1] exI [of _ ?u]) (simp add: RemoteUpdate_eq)
qed

theorem heartbeat_reclaims_witness:
  "\<exists>r u. MemberHeartbeat sample_text 0 0 (zero_state ''m'') [WithNowTime 700]
       (RemoteUpdate sample_text (sample_member ''m'' Liveness_DOWN ''n2'' 500 0) sample_registry) = Some r \<and>
     members r ''m'' = Some u \<and> OwnerId (Version u) = ''n1'' \<and> Liveness u = Liveness_UP"
proof -
  let ?m = "sample_member ''m'' Liveness_DOWN ''n2'' 500 0"
  let ?r1 = "RemoteUpdate sample_text ?m sample_registry"
  let ?r2 = "sample_registry\<lparr>localID := ''n2'', members := [''m'' \<mapsto> ?m]\<rparr>"
  have "members ?r1 ''m'' = Some ?m"
    by (simp add: members_RemoteUpdate remote_accepted_def newer_iff)
  then show ?thesis
    using heartbeat_reclaims [of ?r1 "zero_state ''m''" ?m 700 ?r2 sample_text 0 0] by auto
qed

text \<open>
  Removing a member leaves a tombstone. RemoveMember marks a known member left, owned by this
  node, with the tombstone deadline; passes up to the deadline keep it and a pass after the
  deadline deletes it; the member is gone for lookups only then. An unknown member is ignored.
\<close>
theorem removed_member_tombstone:
  assumes "reg_inv ls r" and "members r i = Some m" and "i \<noteq> localID r"
    and "Timestamp (VTimestamp (Version m)) < t"
    and "RemoveMember ls clk clk' i [WithNowTime t] r = Some r'" and "iter_order ms (members r')"
    and "UpdateLiveness ls clks ms ts r' = Some r''"
  shows "\<exists>u. members r' i = Some u \<and> State u = State m \<and> Liveness u = Liveness_LEFT \<and>
    OwnerId (Version u) = localID r \<and> Expiry u = add64 t (tombstoneTimeout r) \<and>
    LookupMember i r'' = (if add64 t (tombstoneTimeout r) < ts then None else Some u)"
proof -
  let ?v = "update_version clk' [WithNowTime t] r"
  let ?u = "\<lparr>State = State m, Liveness = Liveness_LEFT, Version = ?v,
    Expiry = add64 t (tombstoneTimeout r)\<rparr>"
  have id: "MemberId (State m) = i" by (rule reg_inv_id [OF assms(1,2)])
  have "newer (Version m) ?v" using assms(4) by (simp add: newer_iff)
  then have u: "members r' i = Some ?u"
    using assms(2,3,5) id
    by (simp add: RemoveMember_Some members_update_result update_outdated_def)
  have inv: "reg_inv ls r'" and lid: "localID r' = localID r"
    using reg_inv_RemoveMember [OF assms(5,1)] RemoveMember_fields [OF assms(5)] by simp_all
  have "liveness_decision r' ts i ?u =
      (if add64 t (tombstoneTimeout r) < ts then Remove else Keep)"
    using assms(3) lid by (simp add: liveness_decision_def)
  with UpdateLiveness_entry [OF inv assms(6,7) u]
  have "members r'' i = (if add64 t (tombstoneTimeout r) < ts then None else Some ?u)"
    by (simp add: decided_def split: if_splits)
  with u show ?thesis by (intro exI [of _ ?u]) (simp add: LookupMember_def)
qed

theorem removed_member_tombstone_witness:
  "\<exists>r' u r''. RemoveMember sample_text 0 0 ''m'' [WithNowTime 200] sample_registry = Some r' \<and>
     UpdateLiveness sample_text (\<lambda>_. 900) [''m''] 900 r' = Some r'' \<and>
     LookupMember ''m'' r'' = Some u \<and> Liveness u = Liveness_LEFT \<and> Expiry u = 1800200"
proof -
  let ?m = "sample_member ''m'' Liveness_UP ''n1'' 100 0"
  obtain r' where r': "RemoveMember sample_text 0 0 ''m'' [WithNowTime 200] sample_registry = Some r'"
    by (simp add: RemoveMember_Some)
  then have "r' = update_result sample_text 0 (zero_state ''m'') Liveness_LEFT (add64 200 1800000)
      [WithNowTime 200] sample_registry" by (simp add: RemoveMember_Some)
  then have "members r' j \<noteq> None \<longleftrightarrow> j = ''m''" and quiet: "\<not> logger r'" for j
    by (simp_all add: members_update_result)
  then have ord: "iter_order [''m''] (members r')" by (auto simp: iter_order_def)
  obtain r'' where run: "UpdateLiveness sample_text (\<lambda>_. 900) [''m''] 900 r' = Some r''"
    using UpdateLiveness_quiet [OF reg_inv_RemoveMember [OF r' sample_registry_inv] ord quiet] by blast
  have "add64 200 1800000 = 1800200" by (simp add: go_defs)
  then show ?thesis
    using removed_member_tombstone [OF sample_registry_inv _ _ _ r' ord run, of ?m] run r' by auto
qed

end
