(* ===== verification/PendingUpdates.thy ===== *)
theory PendingUpdates
  imports Messages "HOL-Library.Sublist"
begin

text \<open>
  The queue of updates waiting to be forwarded (pendingUpdates of
  pkg/registry/client/replicaclient.go). Push is \<open>None\<close> where Go panics (it drops the
  first element of an empty slice when the limit is negative). Take blocks on an empty open
  queue: \<open>Blocked\<close> is the state in which the goroutine waits on the condition variable.
\<close>

record pendingUpdates =
  limit :: int
  pending :: "member2 list"
  closed :: bool

datatype take_result = Blocked | Closed | Taken member2 pendingUpdates

definition newPendingUpdates :: "int \<Rightarrow> pendingUpdates" where
  "newPendingUpdates l = \<lparr>limit = l, pending = [], closed = False\<rparr>"

definition Push :: "member2 \<Rightarrow> pendingUpdates \<Rightarrow> pendingUpdates option" where
  "Push u p =
     (case (if limit p < int (length (pending p))
            then (case pending p of [] \<Rightarrow> None | _ # rest \<Rightarrow> Some (p\<lparr>pending := rest\<rparr>))
            else Some p) of
        None \<Rightarrow> None
      | Some p1 \<Rightarrow> if closed p1 then Some p1 else Some (p1\<lparr>pending := pending p1 @ [u]\<rparr>))"

definition Take :: "pendingUpdates \<Rightarrow> take_result" where
  "Take p =
     (if pending p = [] \<and> \<not> closed p then Blocked
      else if closed p then Closed
      else Taken (hd (pending p)) (p\<lparr>pending := tl (pending p)\<rparr>))"

definition Close :: "pendingUpdates \<Rightarrow> pendingUpdates" where
  "Close p = p\<lparr>closed := True\<rparr>"

subsection \<open>A bounded queue that drops the oldest\<close>

text \<open>
  The contract of such a queue: pushing appends and keeps the newest elements up to the capacity,
  taking returns the oldest one. Inside the locale: what a run of pushes and takes delivers, plus
  what is left, is in order, a subsequence of what was pushed, and loses nothing as long as the
  queue does not overflow.
\<close>

definition newest :: "nat \<Rightarrow> 'a list \<Rightarrow> 'a list" where
  "newest n xs = drop (length xs - n) xs"

lemma length_newest: "length (newest n xs) = min n (length xs)"
  by (simp add: newest_def min_def)

lemma newest_all: "length xs \<le> n \<Longrightarrow> newest n xs = xs"
  by (simp add: newest_def)

lemma newest_newest_append: "newest n (newest n xs @ ys) = newest n (xs @ ys)"
proof (cases "length xs \<le> n")
  case True
  then show ?thesis by (simp add: newest_all)
next
  case False
  then show ?thesis
    by (simp add: newest_def) (metis diff_diff_left diff_diff_cancel drop_append le_add_diff_inverse2
        add_diff_cancel_right' drop_drop length_drop nat_le_linear diff_add_assoc2 add.commute)
qed

lemma subseq_newest: "subseq (newest n xs) xs"
  by (simp add: newest_def suffix_drop suffix_imp_subseq)

datatype 'a queue_op = Op_push 'a | Op_take

fun pushed :: "'a queue_op list \<Rightarrow> 'a list" where
  "pushed [] = []"
| "pushed (Op_push x # ops) = x # pushed ops"
| "pushed (Op_take # ops) = pushed ops"

fun run_queue :: "('a \<Rightarrow> 'q \<Rightarrow> 'q) \<Rightarrow> ('q \<Rightarrow> ('a \<times> 'q) option) \<Rightarrow> 'a queue_op list \<Rightarrow> 'q \<Rightarrow> 'a list \<times> 'q"
where
  "run_queue psh tk [] q = ([], q)"
| "run_queue psh tk (Op_push x # ops) q = run_queue psh tk ops (psh x q)"
| "run_queue psh tk (Op_take # ops) q =
     (case tk q of None \<Rightarrow> run_queue psh tk ops q
      | Some (x, q') \<Rightarrow> (let (out, q'') = run_queue psh tk ops q' in (x # out, q'')))"

lemma run_queue_append:
  "run_queue psh tk (ops @ ops') q =
     (case run_queue psh tk ops q of (out, q1) \<Rightarrow>
        (case run_queue psh tk ops' q1 of (out', q2) \<Rightarrow> (out @ out', q2)))"
  by (induction psh tk ops q rule: run_queue.induct) (auto split: prod.split option.split)

lemma run_queue_pushes: "run_queue psh tk (map Op_push xs) q = ([], fold psh xs q)"
  by (induction xs arbitrary: q) simp_all

lemma run_queue_empty: "tk q = None \<Longrightarrow> run_queue psh tk (replicate k Op_take) q = ([], q)"
  by (induction k) simp_all

lemma pushed_append [simp]: "pushed (ops @ ops') = pushed ops @ pushed ops'"
  by (induction ops rule: pushed.induct) simp_all

lemma pushed_pushes [simp]: "pushed (map Op_push xs) = xs"
  by (induction xs) simp_all

lemma pushed_takes [simp]: "pushed (replicate k Op_take) = []"
  by (induction k) simp_all

locale lossy_queue =
  fixes psh :: "'a \<Rightarrow> 'q \<Rightarrow> 'q" and tk :: "'q \<Rightarrow> ('a \<times> 'q) option"
    and contents :: "'q \<Rightarrow> 'a list" and ok :: "'q \<Rightarrow> bool" and cap :: "'q \<Rightarrow> nat"
  assumes push_ok: "ok q \<Longrightarrow> ok (psh x q) \<and> cap (psh x q) = cap q"
    and push_contents: "ok q \<Longrightarrow> contents (psh x q) = newest (cap q) (contents q @ [x])"
    and take_ok: "ok q \<Longrightarrow> tk q = Some (x, q') \<Longrightarrow> ok q' \<and> cap q' = cap q"
    and take_contents: "ok q \<Longrightarrow> map_option (\<lambda>(x, q'). x # contents q') (tk q) =
      (if contents q = [] then None else Some (contents q))"
    and within: "ok q \<Longrightarrow> length (contents q) \<le> cap q"
begin

lemma take_cases:
  assumes "ok q"
  obtains "tk q = None" "contents q = []"
    | x q' where "tk q = Some (x, q')" "contents q = x # contents q'" "ok q'" "cap q' = cap q"
proof (cases "tk q")
  case None
  then show ?thesis using take_contents [OF assms] that(1) by (simp split: if_splits)
next
  case (Some xq)
  obtain x q' where "xq = (x, q')" by fastforce
  then show ?thesis
    using take_contents [OF assms] take_ok [OF assms] Some that(2) by (simp split: if_splits)
qed

lemma run_ok: "ok q \<Longrightarrow> ok (snd (run_queue psh tk ops q)) \<and> cap (snd (run_queue psh tk ops q)) = cap q"
proof (induction ops arbitrary: q)
  case Nil
  then show ?case by simp
next
  case (Cons op ops)
  show ?case
  proof (cases op)
    case (Op_push x)
    then show ?thesis using Cons.IH [of "psh x q"] push_ok [OF Cons.prems] by simp
  next
    case Op_take
    from Cons.prems show ?thesis
      by (cases rule: take_cases) (use Cons Op_take in \<open>auto simp: case_prod_beta Let_def\<close>)
  qed
qed

lemma pushes_keep_newest:
  "ok q \<Longrightarrow> contents (fold psh xs q) = newest (cap q) (contents q @ xs)"
proof (induction xs arbitrary: q)
  case Nil
  then show ?case using within by (simp add: newest_all)
next
  case (Cons x xs)
  have "contents (fold psh (x # xs) q) = newest (cap q) (contents (psh x q) @ xs)"
    using Cons push_ok by simp
  also have "\<dots> = newest (cap q) ((contents q @ [x]) @ xs)"
    unfolding push_contents [OF Cons.prems] by (rule newest_newest_append)
  finally show ?case by simp
qed

lemma run_in_order:
  "ok q \<Longrightarrow> subseq (fst (run_queue psh tk ops q) @ contents (snd (run_queue psh tk ops q)))
    (contents q @ pushed ops)"
proof (induction ops arbitrary: q)
  case Nil
  then show ?case by simp
next
  case (Cons op ops)
  show ?case
  proof (cases op)
    case (Op_push x)
    let ?res = "run_queue psh tk ops (psh x q)"
    have "subseq (fst ?res @ contents (snd ?res)) (contents (psh x q) @ pushed ops)"
      using Cons.IH push_ok [OF Cons.prems] by blast
    also have "subseq (contents (psh x q) @ pushed ops) ((contents q @ [x]) @ pushed ops)"
      unfolding push_contents [OF Cons.prems] by (intro list_emb_append_mono subseq_newest) simp
    finally show ?thesis by (simp add: Op_push)
  next
    case Op_take
    from Cons.prems show ?thesis
      by (cases rule: take_cases) (use Cons.IH [of q] Cons.IH Op_take Cons.prems in \<open>auto simp: case_prod_beta Let_def\<close>)
  qed
qed

lemma run_no_loss:
  "ok q \<Longrightarrow> length (contents q) + length (pushed ops) \<le> cap q \<Longrightarrow>
    fst (run_queue psh tk ops q) @ contents (snd (run_queue psh tk ops q)) = contents q @ pushed ops"
proof (induction ops arbitrary: q)
  case Nil
  then show ?case by simp
next
  case (Cons op ops)
  show ?case
  proof (cases op)
    case (Op_push x)
    have "contents (psh x q) = contents q @ [x]"
      using push_contents [OF Cons.prems(1)] Cons.prems(2) Op_push by (simp add: newest_all)
    then show ?thesis using Cons.IH [of "psh x q"] push_ok [OF Cons.prems(1)] Cons.prems(2)
      by (simp add: Op_push)
  next
    case Op_take
    from Cons.prems(1) show ?thesis
      by (cases rule: take_cases) (use Cons.IH Cons.prems Op_take in \<open>auto simp: case_prod_beta Let_def\<close>)
  qed
qed

end

subsection \<open>pendingUpdates is such a queue\<close>

definition push_open :: "member2 \<Rightarrow> pendingUpdates \<Rightarrow> pendingUpdates" where
  "push_open u p = the (Push u p)"

definition take_open :: "pendingUpdates \<Rightarrow> (member2 \<times> pendingUpdates) option" where
  "take_open p = (case Take p of Taken u p' \<Rightarrow> Some (u, p') | _ \<Rightarrow> None)"

definition queue_ok :: "pendingUpdates \<Rightarrow> bool" where
  "queue_ok p \<longleftrightarrow> \<not> closed p \<and> 0 \<le> limit p \<and> int (length (pending p)) \<le> limit p + 1"

definition queue_cap :: "pendingUpdates \<Rightarrow> nat" where
  "queue_cap p = nat (limit p + 1)"

lemma newest_snoc:
  assumes "length xs \<le> n" and "0 < n"
  shows "newest n (xs @ [x]) = (if length xs = n then tl xs @ [x] else xs @ [x])"
  using assms by (cases xs) (auto simp: newest_def)

lemma Push_open:
  assumes "queue_ok p"
  shows "Push u p = Some (p\<lparr>pending := newest (queue_cap p) (pending p @ [u])\<rparr>)"
proof -
  have cap: "length (pending p) \<le> queue_cap p" "0 < queue_cap p"
    "limit p < int (length (pending p)) \<longleftrightarrow> length (pending p) = queue_cap p"
    using assms by (auto simp: queue_ok_def queue_cap_def)
  show ?thesis
  proof (cases "length (pending p) = queue_cap p")
    case True
    then obtain a rest where "pending p = a # rest" using cap(2) by (cases "pending p") auto
    then show ?thesis
      using True assms cap(3) newest_snoc [OF cap(1,2), of u]
      by (simp add: Push_def queue_ok_def)
  next
    case False
    then show ?thesis
      using assms cap(3) newest_snoc [OF cap(1,2), of u] by (simp add: Push_def queue_ok_def)
  qed
qed

lemma queue_ok_push:
  assumes "queue_ok p"
  shows "queue_ok (p\<lparr>pending := newest (queue_cap p) (pending p @ [u])\<rparr>)"
  using assms by (auto simp: queue_ok_def queue_cap_def length_newest)

interpretation pending_queue: lossy_queue push_open take_open pending queue_ok queue_cap
proof
  fix p :: pendingUpdates and u assume ok: "queue_ok p"
  show "queue_ok (push_open u p) \<and> queue_cap (push_open u p) = queue_cap p"
    using queue_ok_push [OF ok] by (simp add: push_open_def Push_open [OF ok] queue_cap_def)
  show "pending (push_open u p) = newest (queue_cap p) (pending p @ [u])"
    by (simp add: push_open_def Push_open [OF ok])
  show "queue_ok p' \<and> queue_cap p' = queue_cap p" if "take_open p = Some (u, p')" for p'
    using ok that by (auto simp: take_open_def Take_def queue_ok_def queue_cap_def split: if_splits)
  show "map_option (\<lambda>(x, q'). x # pending q') (take_open p) =
      (if pending p = [] then None else Some (pending p))"
    using ok by (auto simp: take_open_def Take_def queue_ok_def)
  show "length (pending p) \<le> queue_cap p"
    using ok by (auto simp: queue_ok_def queue_cap_def)
qed

lemma queue_ok_new: "0 \<le> l \<Longrightarrow> queue_ok (newPendingUpdates l) \<and> queue_cap (newPendingUpdates l) = nat (l + 1)"
  by (simp add: queue_ok_def queue_cap_def newPendingUpdates_def)

lemma foldM_Push:
  assumes "queue_ok p"
  shows "foldM Push us p = Some (fold push_open us p)"
  using assms
proof (induction us arbitrary: p)
  case Nil
  then show ?case by simp
next
  case (Cons u us)
  then show ?case using pending_queue.push_ok [OF Cons.prems, of u]
    by (simp add: push_open_def Push_open [OF Cons.prems])
qed

definition update_named :: "string \<Rightarrow> member2" where
  "update_named i = \<lparr>State = zero_state i, Liveness = Liveness_UP,
     Version = \<lparr>OwnerId = ''n'', VTimestamp = MonotonicTimestamp 1 0\<rparr>, Expiry = 0\<rparr>"

text \<open>
  C19: the queue of updates to forward is bounded and drops the oldest first: pushing any updates
  on a new queue with a limit of at least 0 never panics and keeps exactly the last limit + 1 of
  them, in order (one more than the limit that the comment on Push names).
\<close>
theorem pending_keeps_newest:
  assumes "0 \<le> l"
  shows "\<exists>p. foldM Push us (newPendingUpdates l) = Some p \<and>
    pending p = newest (nat l + 1) us \<and> length (pending p) \<le> nat l + 1"
proof -
  have ok: "queue_ok (newPendingUpdates l)" and cap: "queue_cap (newPendingUpdates l) = nat l + 1"
    using queue_ok_new [OF assms] assms by auto
  show ?thesis
    using foldM_Push [OF ok, of us] pending_queue.pushes_keep_newest [OF ok, of us]
    unfolding cap by (simp add: length_newest) (simp add: newPendingUpdates_def)
qed

theorem pending_keeps_newest_witness:
  "\<exists>p. foldM Push [update_named ''a'', update_named ''b'', update_named ''c'']
     (newPendingUpdates 1) = Some p \<and> pending p = [update_named ''b'', update_named ''c'']"
  using pending_keeps_newest [of 1 "[update_named ''a'', update_named ''b'', update_named ''c'']"]
  by (auto simp: newest_def)

text \<open>
  Whatever the interleaving of pushes and takes, the updates taken, followed by those still
  waiting, are a subsequence of the updates pushed, in the order pushed; and nothing is lost while
  no more than limit + 1 updates are pushed.
\<close>
theorem pending_fifo:
  assumes "0 \<le> l" and "run_queue push_open take_open ops (newPendingUpdates l) = (out, p)"
  shows "subseq (out @ pending p) (pushed ops) \<and>
    (length (pushed ops) \<le> nat l + 1 \<longrightarrow> out @ pending p = pushed ops)"
proof -
  have ok: "queue_ok (newPendingUpdates l)" and cap: "queue_cap (newPendingUpdates l) = nat l + 1"
    and empty: "pending (newPendingUpdates l) = []"
    using queue_ok_new [OF assms(1)] assms(1) by (auto simp: newPendingUpdates_def)
  show ?thesis
    using pending_queue.run_in_order [OF ok, of ops] pending_queue.run_no_loss [OF ok, of ops]
    by (simp add: assms(2) cap empty)
qed

theorem pending_fifo_witness:
  "\<exists>out p. run_queue push_open take_open [Op_push (update_named ''a''), Op_take, Op_push (update_named ''b''), Op_take] (newPendingUpdates 0) =
     (out, p) \<and> subseq (out @ pending p) [update_named ''a'', update_named ''b'']"
proof -
  obtain out p where run: "run_queue push_open take_open [Op_push (update_named ''a''), Op_take, Op_push (update_named ''b''), Op_take]
      (newPendingUpdates 0) = (out, p)" by fastforce
  then show ?thesis using pending_fifo [OF order_refl run] by auto
qed

text \<open>
  Closing. Take waits exactly on an open empty queue; once closed it always reports closed,
  so a loop that takes stops even with updates left, and Push then adds nothing; with a negative
  limit, Push on an empty queue panics.
\<close>
theorem pending_close:
  "(Take p = Blocked \<longleftrightarrow> pending p = [] \<and> \<not> closed p) \<and> Take (Close p) = Closed \<and>
   (\<forall>q. Push u (Close p) = Some q \<longrightarrow> Take q = Closed \<and> set (pending q) \<subseteq> set (pending p)) \<and>
   (Push u p = None \<longleftrightarrow> pending p = [] \<and> limit p < 0)"
  by (cases "pending p") (auto simp: Take_def Close_def Push_def split: if_splits option.splits)

theorem pending_close_witness:
  "\<exists>q. Push (update_named ''a'') (Close (newPendingUpdates 1)) = Some q \<and> Take q = Closed"
proof -
  have "Push (update_named ''a'') (Close (newPendingUpdates 1)) = Some (Close (newPendingUpdates 1))"
    by (simp add: Push_def Close_def newPendingUpdates_def)
  then show ?thesis using pending_close [of "newPendingUpdates 1" "update_named ''a''"] by blast
qed

end
