(* ===== verification/ReplicaClient.thy ===== *)
theory ReplicaClient
  imports PendingUpdates ReplicaRepair
begin

text \<open>
  pkg/registry/client: the client through which a node forwards updates to one other node and
  repairs its registry from it. The counters are shared by all clients of a node, and the
  registry by the whole node, so both are arguments. An RPC is a parameter: the outcome of each
  Update call (\<open>True\<close> for success) is an element of a list, and Sync takes the function
  \<open>call\<close> from request to response, \<open>None\<close> for an error. The two records of
  requests are fuddle-rpc messages.
\<close>

record update_request =
  UpdMember :: member2
  UpdSourceNodeId :: string

record sync_request =
  SyncDigest :: digest
  SyncSourceNodeId :: string

record replica_client_metrics =
  ReplicaUpdatesOutbound :: counter
  RepairUpdatesInbound :: counter

definition NewReplicaClientMetrics :: replica_client_metrics where
  "NewReplicaClientMetrics = \<lparr>ReplicaUpdatesOutbound = NewCounter, RepairUpdatesInbound = NewCounter\<rparr>"

record client_options =
  pendingUpdatesLimit :: int
  opt_updateTimeout :: int
  opt_digestLimit :: int

datatype client_option =
  WithPendingUpdatesLimit int | WithUpdateTimeoutOption int | WithDigestLimit int

definition client_defaultOptions :: client_options where
  "client_defaultOptions = \<lparr>pendingUpdatesLimit = 128, opt_updateTimeout = 1000000000 * 20,
     opt_digestLimit = 0\<rparr>"

fun apply_client_option :: "client_option \<Rightarrow> client_options \<Rightarrow> client_options" where
  "apply_client_option (WithPendingUpdatesLimit l) opts = opts\<lparr>pendingUpdatesLimit := l\<rparr>"
| "apply_client_option (WithUpdateTimeoutOption t) opts = opts\<lparr>opt_updateTimeout := t\<rparr>"
| "apply_client_option (WithDigestLimit l) opts = opts\<lparr>opt_digestLimit := l\<rparr>"

record replica_client =
  targetID :: string
  digestLimit :: int
  pendingQ :: pendingUpdates
  updateTimeout :: int

text \<open>\<open>dial_ok\<close> is the success of grpc.Dial.\<close>

definition ReplicaConnect :: "bool \<Rightarrow> string \<Rightarrow> client_option list \<Rightarrow> replica_client option" where
  "ReplicaConnect dial_ok target opts =
     (let options = fold apply_client_option opts client_defaultOptions
      in if \<not> dial_ok then None
         else Some \<lparr>targetID = target, digestLimit = opt_digestLimit options,
           pendingQ = newPendingUpdates (pendingUpdatesLimit options),
           updateTimeout = opt_updateTimeout options\<rparr>)"

definition client_Update :: "member2 \<Rightarrow> replica_client \<Rightarrow> replica_client option" where
  "client_Update u c =
     (case Push u (pendingQ c) of None \<Rightarrow> None | Some p \<Rightarrow> Some (c\<lparr>pendingQ := p\<rparr>))"

definition client_Close :: "replica_client \<Rightarrow> replica_client" where
  "client_Close c = c\<lparr>pendingQ := Close (pendingQ c)\<rparr>"

subsection \<open>Forwarding\<close>

fun sendLoop ::
  "string \<Rightarrow> bool list \<Rightarrow> replica_client \<Rightarrow> replica_client_metrics \<Rightarrow>
     update_request list \<times> replica_client \<times> replica_client_metrics"
where
  "sendLoop lid [] c mt = ([], c, mt)"
| "sendLoop lid (succ # outcomes) c mt =
     (case Take (pendingQ c) of
        Blocked \<Rightarrow> ([], c, mt)
      | Closed \<Rightarrow> ([], c, mt)
      | Taken m p \<Rightarrow>
          (let req = \<lparr>UpdMember = m, UpdSourceNodeId = lid\<rparr>;
               mt' = mt\<lparr>ReplicaUpdatesOutbound := Counter_Inc
                 [(''target'', targetID c), (''status'', if succ then ''ok'' else ''fail'')]
                 (ReplicaUpdatesOutbound mt)\<rparr>;
               (reqs, c', mt'') = sendLoop lid outcomes (c\<lparr>pendingQ := p\<rparr>) mt'
           in (req # reqs, c', mt'')))"

subsection \<open>Repair\<close>

definition sync_request_of ::
  "string list \<Rightarrow> string list \<Rightarrow> nat list \<Rightarrow> replica_client \<Rightarrow> registry \<Rightarrow> sync_request \<times> registry"
where
  "sync_request_of ps ms perm c r =
     (let (digest, r1) = Digest ps ms perm (digestLimit c) r
      in (\<lparr>SyncDigest = digest, SyncSourceNodeId = ''''\<rparr>, r1))"

definition sync_response ::
  "(liveness \<Rightarrow> string) \<Rightarrow> member2 list option \<Rightarrow> replica_client \<Rightarrow> replica_client_metrics \<Rightarrow>
     registry \<Rightarrow> bool \<times> replica_client_metrics \<times> registry"
where
  "sync_response ls resp c mt r =
     (case resp of
        None \<Rightarrow> (False, mt\<lparr>RepairUpdatesInbound := Counter_Inc
          [(''source'', targetID c), (''status'', ''fail'')] (RepairUpdatesInbound mt)\<rparr>, r)
      | Some ms \<Rightarrow> (True, mt\<lparr>RepairUpdatesInbound := Counter_Add (int (length ms))
          [(''source'', targetID c), (''status'', ''ok'')] (RepairUpdatesInbound mt)\<rparr>,
          fold (RemoteUpdate ls) ms r))"

definition client_Sync ::
  "(liveness \<Rightarrow> string) \<Rightarrow> string list \<Rightarrow> string list \<Rightarrow> nat list \<Rightarrow>
     (sync_request \<Rightarrow> member2 list option) \<Rightarrow> replica_client \<Rightarrow> replica_client_metrics \<Rightarrow>
     registry \<Rightarrow> bool \<times> replica_client_metrics \<times> registry"
where
  "client_Sync ls ps ms perm call c mt r =
     (let (req, r1) = sync_request_of ps ms perm c r
      in sync_response ls (call req) c mt r1)"

subsection \<open>Properties\<close>

lemma sendLoop_eq:
  "sendLoop lid outcomes c mt =
     (if closed (pendingQ c) then ([], c, mt)
      else
        (map (\<lambda>m. \<lparr>UpdMember = m, UpdSourceNodeId = lid\<rparr>)
            (take (length outcomes) (pending (pendingQ c))),
         c\<lparr>pendingQ := (pendingQ c)\<lparr>pending := drop (length outcomes) (pending (pendingQ c))\<rparr>\<rparr>,
         mt\<lparr>ReplicaUpdatesOutbound := fold (\<lambda>succ. Counter_Inc
              [(''target'', targetID c), (''status'', if succ then ''ok'' else ''fail'')])
            (take (length (pending (pendingQ c))) outcomes) (ReplicaUpdatesOutbound mt)\<rparr>))"
proof (induction outcomes arbitrary: c mt)
  case Nil
  then show ?case by (cases c) simp
next
  case (Cons succ outcomes)
  show ?case
  proof (cases "pending (pendingQ c)")
    case Nil
    then show ?thesis by (cases c) (simp add: Take_def)
  next
    case (Cons m ms)
    then show ?thesis
      using Cons.IH [of "c\<lparr>pendingQ := (pendingQ c)\<lparr>pending := ms\<rparr>\<rparr>"] by (simp add: Take_def)
  qed
qed

text \<open>
  The send loop forwards the waiting updates in order, each exactly once, naming this node as
  the source, whether or not the calls succeed (a failed update is dropped, not retried here); it
  counts each call under its outcome; once the client is closed it sends nothing more.
\<close>
theorem sendLoop_forwards:
  "sendLoop lid outcomes c mt =
     (if closed (pendingQ c) then ([], c, mt)
      else
        (map (\<lambda>m. \<lparr>UpdMember = m, UpdSourceNodeId = lid\<rparr>)
            (take (length outcomes) (pending (pendingQ c))),
         c\<lparr>pendingQ := (pendingQ c)\<lparr>pending := drop (length outcomes) (pending (pendingQ c))\<rparr>\<rparr>,
         mt\<lparr>ReplicaUpdatesOutbound := fold (\<lambda>succ. Counter_Inc
              [(''target'', targetID c), (''status'', if succ then ''ok'' else ''fail'')])
            (take (length (pending (pendingQ c))) outcomes) (ReplicaUpdatesOutbound mt)\<rparr>))"
  by (rule sendLoop_eq)

text \<open>The loop is a run of takes on the queue; every request names the node as the source.\<close>

lemma sendLoop_takes:
  assumes "sendLoop lid outcomes c mt = (reqs, c', mt')"
  shows "run_queue push_open take_open (replicate (length outcomes) Op_take) (pendingQ c) =
      (map UpdMember reqs, pendingQ c') \<and> (\<forall>req \<in> set reqs. UpdSourceNodeId req = lid)"
  using assms
proof (induction outcomes arbitrary: c mt reqs)
  case Nil
  then show ?case by simp
next
  case (Cons succ outcomes)
  show ?case
  proof (cases "Take (pendingQ c)")
    case (Taken m p)
    let ?mt = "mt\<lparr>ReplicaUpdatesOutbound := Counter_Inc
      [(''target'', targetID c), (''status'', if succ then ''ok'' else ''fail'')] (ReplicaUpdatesOutbound mt)\<rparr>"
    obtain rest where r: "sendLoop lid outcomes (c\<lparr>pendingQ := p\<rparr>) ?mt = (rest, c', mt')"
      "reqs = \<lparr>UpdMember = m, UpdSourceNodeId = lid\<rparr> # rest"
      using Cons.prems Taken by (auto simp: Let_def split: prod.splits)
    show ?thesis using Cons.IH [OF r(1)] Taken r(2) by (simp add: take_open_def)
  next
    case Blocked
    then have t: "take_open (pendingQ c) = None" by (simp add: take_open_def)
    have "reqs = [] \<and> c' = c" using Cons.prems Blocked by simp
    then show ?thesis using run_queue_empty [of take_open, OF t, of push_open "length outcomes"] t by simp
  next
    case Closed
    then have t: "take_open (pendingQ c) = None" by (simp add: take_open_def)
    have "reqs = [] \<and> c' = c" using Cons.prems Closed by simp
    then show ?thesis using run_queue_empty [of take_open, OF t, of push_open "length outcomes"] t by simp
  qed
qed

text \<open>
  With its default options a replica client repairs at most one member per round: the digest
  limit is not set, which Digest treats as a limit of one, and no caller sets it. Any positive
  limit is respected exactly.
\<close>
theorem default_digest_single:
  assumes "ReplicaConnect True target opts = Some c" and "\<forall>l. WithDigestLimit l \<notin> set opts"
    and "sync_request_of ps ms perm c r = (req, r')" and "set ps = priorityMembers r"
    and "iter_order ms (members r)" and "mset perm = mset [0..<length ms]"
  shows "length (SyncDigest req) \<le> 1 \<and>
    (priorityMembers r \<union> dom (members r) \<noteq> {} \<longrightarrow> length (SyncDigest req) = 1)"
proof -
  have "opt_digestLimit (fold apply_client_option opts co) = opt_digestLimit co"
    if "\<forall>l. WithDigestLimit l \<notin> set opts" for opts co
    using that
  proof (induction opts arbitrary: co)
    case (Cons opt opts)
    then show ?case by (cases opt) auto
  qed simp
  then have "digestLimit c = 0"
    using assms(1,2) by (auto simp: ReplicaConnect_def Let_def client_defaultOptions_def)
  then obtain d where d: "SyncDigest req = d" "Digest ps ms perm 0 r = (d, r')"
    using assms(3) by (auto simp: sync_request_of_def split: prod.splits)
  then obtain prio' where "digest_of (members r) ps ms perm 0 (priorityMembers r) = (d, prio')"
    by (auto simp: Digest_def split: prod.splits)
  from digest_of_spec [OF this assms(4,6)] iter_order_set [OF assms(5)]
  show ?thesis by (cases d) (auto simp: d(1))
qed

theorem default_digest_single_witness:
  "\<exists>c req r'. ReplicaConnect True ''n2'' [] = Some c \<and>
     sync_request_of [] [''m''] [0] c sample_registry = (req, r') \<and> length (SyncDigest req) = 1"
proof -
  obtain c where c: "ReplicaConnect True ''n2'' [] = Some c" by (simp add: ReplicaConnect_def)
  obtain req r' where "sync_request_of [] [''m''] [0] c sample_registry = (req, r')" by fastforce
  with default_digest_single [OF c _ this _ sample_order] c show ?thesis by auto
qed

end
