(* ===== verification/RegistryServers.thy ===== *)
theory RegistryServers
  imports Ownership ReplicaClient
begin

text \<open>
  pkg/registry/server: the RPC handlers in front of the registry. A stream is the list of the
  messages it yields before Recv fails, each with the clock readings made while it is handled.
  Log output is left out.
\<close>

subsection \<open>Client writes\<close>

definition clientUpdateTypeToString :: "client_update_type \<Rightarrow> string" where
  "clientUpdateTypeToString t = (case t of
     CLIENT_REGISTER \<Rightarrow> ''register''
   | CLIENT_UNREGISTER \<Rightarrow> ''unregister''
   | CLIENT_HEARTBEAT \<Rightarrow> ''heartbeat''
   | CLIENT_other _ \<Rightarrow> ''unknown'')"

text \<open>
  None is a panic: AddMember dereferences the member of a registration, which may be missing, and
  the registry's operations may panic.
\<close>

type_synonym stream_message = "client_update \<times> int \<times> int"

fun Register_loop ::
  "(liveness \<Rightarrow> string) \<Rightarrow> stream_message list \<Rightarrow> member_state \<Rightarrow> counter \<Rightarrow> registry \<Rightarrow>
     (counter \<times> registry) option"
where
  "Register_loop ls [] member inbound r = Some (inbound, r)"
| "Register_loop ls ((m, clk, clk') # stream) member inbound r =
     (let inbound' = Counter_Inc [(''updatetype'', clientUpdateTypeToString (UpdateType m))] inbound
      in if UpdateType m = CLIENT_REGISTER
         then (case Member m of
                 None \<Rightarrow> None
               | Some member1 \<Rightarrow>
                   (case AddMember ls clk member1 [] r of
                      None \<Rightarrow> None
                    | Some r1 \<Rightarrow> Register_loop ls stream member1 inbound' r1))
         else if UpdateType m = CLIENT_HEARTBEAT
         then (case MemberHeartbeat ls clk clk' member [] r of
                 None \<Rightarrow> None
               | Some r1 \<Rightarrow> Register_loop ls stream member inbound' r1)
         else if UpdateType m = CLIENT_UNREGISTER
         then map_option (\<lambda>r1. (inbound', r1)) (RemoveMember ls clk clk' (MemberId member) [] r)
         else Register_loop ls stream member inbound' r)"

definition Register ::
  "(liveness \<Rightarrow> string) \<Rightarrow> stream_message list \<Rightarrow> counter \<Rightarrow> registry \<Rightarrow> (counter \<times> registry) option"
where
  "Register ls stream inbound r =
     (case stream of
        [] \<Rightarrow> Some (inbound, r)
      | (m, clk, clk') # rest \<Rightarrow>
          if UpdateType m \<noteq> CLIENT_REGISTER then Some (inbound, r)
          else
            let inbound' = Counter_Inc
                  [(''updatetype'', clientUpdateTypeToString (UpdateType m))] inbound
            in case Member m of
                 None \<Rightarrow> None
               | Some member \<Rightarrow>
                   (case AddMember ls clk member [] r of
                      None \<Rightarrow> None
                    | Some r1 \<Rightarrow> Register_loop ls rest member inbound' r1))"

subsection \<open>Client reads\<close>

definition Updates_open ::
  "string list \<Rightarrow> string list \<Rightarrow> subscribe_request \<Rightarrow> counter \<Rightarrow> registry \<Rightarrow>
     nat \<times> counter \<times> registry"
where
  "Updates_open ms ks req outbound r =
     (let (h, r1) = Subscribe ms ks (Some req) r
      in (h, fold (\<lambda>_. Counter_Inc []) (inbox r1 h) outbound, r1))"

definition Updates_done :: "nat \<Rightarrow> registry \<Rightarrow> registry" where
  "Updates_done h r = unsubscribe h r"

definition ClientReadServer_Member :: "string \<Rightarrow> registry \<Rightarrow> member2 option" where
  "ClientReadServer_Member i r = (case LookupMember i r of None \<Rightarrow> None | Some m \<Rightarrow> Some m)"

definition ClientReadServer_Members :: "string list \<Rightarrow> registry \<Rightarrow> member2 list" where
  "ClientReadServer_Members ms r = Members ms r"

subsection \<open>Replicas\<close>

record replica_server_metrics =
  ReplicaUpdatesInbound :: counter
  RepairUpdatesOutbound :: counter

definition NewReplicaServerMetrics :: replica_server_metrics where
  "NewReplicaServerMetrics = \<lparr>ReplicaUpdatesInbound = NewCounter, RepairUpdatesOutbound = NewCounter\<rparr>"

definition ReplicaServer_Update ::
  "(liveness \<Rightarrow> string) \<Rightarrow> update_request \<Rightarrow> replica_server_metrics \<Rightarrow> registry \<Rightarrow>
     replica_server_metrics \<times> registry"
where
  "ReplicaServer_Update ls req mt r =
     (mt\<lparr>ReplicaUpdatesInbound := Counter_Inc [(''source'', UpdSourceNodeId req)]
        (ReplicaUpdatesInbound mt)\<rparr>, RemoteUpdate ls (UpdMember req) r)"

definition ReplicaServer_Sync ::
  "sync_request \<Rightarrow> replica_server_metrics \<Rightarrow> registry \<Rightarrow>
     member2 list \<times> replica_server_metrics \<times> registry"
where
  "ReplicaServer_Sync req mt r =
     (let (delta, r1) = Delta (SyncDigest req) r
      in (delta, mt\<lparr>RepairUpdatesOutbound := Counter_Add (int (length delta))
            [(''target'', SyncSourceNodeId req)] (RepairUpdatesOutbound mt)\<rparr>, r1))"

subsection \<open>Properties of the streams\<close>


text \<open>What an operation on one member leaves alone, and whose state it stores.\<close>

definition touches :: "string \<Rightarrow> member_state set \<Rightarrow> registry \<Rightarrow> registry \<Rightarrow> bool" where
  "touches i sts r r' \<longleftrightarrow> localID r' = localID r \<and> logger r' = logger r \<and>
     (\<forall>j. members r' j = members r j \<or> j = i \<and> (\<exists>e. members r' j = Some e \<and> State e \<in> sts))"

lemma touches_update: "MemberId st = i \<Longrightarrow> touches i {st} r (update_result ls clk st lv ex opts r)"
  by (auto simp: touches_def members_update_result)

lemma touches_AddMember: "AddMember ls clk st opts r = Some r' \<Longrightarrow> touches (MemberId st) {st} r r'"
  by (simp add: AddMember_Some touches_update)

lemma touches_MemberHeartbeat:
  "MemberHeartbeat ls clk clk' st opts r = Some r' \<Longrightarrow> touches (MemberId st) {st} r r'"
  by (auto simp: MemberHeartbeat_Some touches_update split: if_splits) (simp add: touches_def)

lemma touches_RemoveMember:
  assumes "reg_inv ls r" and "RemoveMember ls clk clk' i opts r = Some r'"
  shows "touches i (State ` set_option (members r i)) r r'"
proof (cases "members r i")
  case None
  then show ?thesis using assms(2) by (simp add: RemoveMember_Some touches_def)
next
  case (Some m)
  then show ?thesis
    using assms(2) touches_update [OF reg_inv_id [OF assms(1) Some]] by (auto simp: RemoveMember_Some)
qed

text \<open>
  The ids a client registers; and messages that cannot panic: every registration has a member, and
  unless errors are not written, it and what is stored under its id have a locality.
\<close>

definition registered_ids :: "stream_message list \<Rightarrow> string set" where
  "registered_ids stream = {MemberId st | m clk clk' st. (m, clk, clk') \<in> set stream \<and>
     UpdateType m = CLIENT_REGISTER \<and> Member m = Some st}"

definition located :: "string set \<Rightarrow> registry \<Rightarrow> bool" where
  "located S r \<longleftrightarrow> logger r \<longrightarrow> (\<forall>i \<in> S. \<forall>e. members r i = Some e \<longrightarrow> Locality (State e) \<noteq> None)"

definition well_formed :: "stream_message list \<Rightarrow> registry \<Rightarrow> bool" where
  "well_formed stream r \<longleftrightarrow> (\<forall>(m, clk, clk') \<in> set stream. UpdateType m = CLIENT_REGISTER \<longrightarrow>
     (\<exists>st. Member m = Some st \<and> (logger r \<longrightarrow> Locality st \<noteq> None)))"

lemma located_total:
  assumes "logger r \<longrightarrow> Locality st \<noteq> None"
  shows "AddMember ls clk st opts r \<noteq> None" "MemberHeartbeat ls clk clk' st opts r \<noteq> None"
  using assms by (auto simp: AddMember_def MemberHeartbeat_def updateMemberLocked_eq update_panics_def Let_def)

lemma located_touches:
  assumes "touches i sts r r'" and "located S r" and "logger r \<Longrightarrow> \<forall>st \<in> sts. Locality st \<noteq> None"
  shows "located S r'"
  unfolding located_def
proof (intro impI ballI allI)
  fix k e assume a: "logger r'" "k \<in> S" "members r' k = Some e"
  then have "logger r" using assms(1) by (simp add: touches_def)
  moreover have "members r' k = members r k \<or> (\<exists>e. members r' k = Some e \<and> State e \<in> sts)"
    using assms(1) by (auto simp: touches_def)
  ultimately show "Locality (State e) \<noteq> None"
    using a(2,3) assms(2,3) by (auto simp: located_def)
qed

lemma Register_loop_scope:
  assumes "reg_inv ls r" and "MemberId member \<in> S" and "registered_ids stream \<subseteq> S"
  shows "(\<forall>inbound' r'. Register_loop ls stream member inbound r = Some (inbound', r') \<longrightarrow>
      reg_inv ls r' \<and> localID r' = localID r \<and> (\<forall>j. j \<notin> S \<longrightarrow> members r' j = members r j)) \<and>
    (well_formed stream r \<and> located S r \<and> (logger r \<longrightarrow> Locality member \<noteq> None) \<longrightarrow>
      Register_loop ls stream member inbound r \<noteq> None)"
  using assms
proof (induction stream arbitrary: member inbound r)
  case Nil
  then show ?case by simp
next
  case (Cons x stream)
  obtain m clk clk' where x: "x = (m, clk, clk')" using prod_cases3 by blast
  have rest: "registered_ids stream \<subseteq> S" using Cons.prems(3) by (fastforce simp: registered_ids_def)
  have wf: "well_formed stream r1" if "well_formed (x # stream) r" "logger r1 = logger r" for r1
    using that by (simp add: well_formed_def)
  have go: ?case
    if loop: "Register_loop ls (x # stream) member inbound r =
        (case op of None \<Rightarrow> None | Some r1 \<Rightarrow> Register_loop ls stream member1 inbound1 r1)"
      and inv: "\<And>r1. op = Some r1 \<Longrightarrow> reg_inv ls r1"
      and t: "\<And>r1. op = Some r1 \<Longrightarrow> touches (MemberId member1) {member1} r r1"
      and i: "MemberId member1 \<in> S"
      and safe: "well_formed (x # stream) r \<Longrightarrow> logger r \<longrightarrow> Locality member \<noteq> None \<Longrightarrow>
        op \<noteq> None \<and> (logger r \<longrightarrow> Locality member1 \<noteq> None)"
    for op member1 inbound1
  proof (cases op)
    case None
    then have "\<not> (well_formed (x # stream) r \<and> (logger r \<longrightarrow> Locality member \<noteq> None))"
      using safe by blast
    then show ?thesis unfolding loop None option.case by blast
  next
    case (Some r1)
    note IH = Cons.IH [OF inv [OF Some] i rest, of inbound1]
    have 1: "localID r1 = localID r" "logger r1 = logger r" "\<And>j. j \<notin> S \<Longrightarrow> members r1 j = members r j"
      using t [OF Some] i by (auto simp: touches_def)
    have "located S r1" if "located S r" "logger r \<longrightarrow> Locality member1 \<noteq> None"
      using located_touches [OF t [OF Some] that(1)] that(2) by simp
    then have "Register_loop ls stream member1 inbound1 r1 \<noteq> None"
      if "well_formed (x # stream) r" "located S r" "logger r \<longrightarrow> Locality member \<noteq> None"
      using that IH 1(2) wf [of r1] safe by metis
    moreover have "reg_inv ls r' \<and> localID r' = localID r \<and> (\<forall>j. j \<notin> S \<longrightarrow> members r' j = members r j)"
      if "Register_loop ls stream member1 inbound1 r1 = Some (inbound', r')" for inbound' r'
      using that IH 1 by metis
    ultimately show ?thesis unfolding loop Some option.case by blast
  qed
  consider "UpdateType m = CLIENT_UNREGISTER" | "UpdateType m = CLIENT_REGISTER" "Member m = None"
    | st where "UpdateType m = CLIENT_REGISTER" "Member m = Some st"
    | "UpdateType m = CLIENT_HEARTBEAT" | k where "UpdateType m = CLIENT_other k"
    by (cases "UpdateType m"; cases "Member m") auto
  then show ?case
  proof cases
    case 1
    let ?op = "RemoveMember ls clk clk' (MemberId member) [] r"
    have loop: "Register_loop ls (x # stream) member inbound r = map_option (Pair
        (Counter_Inc [(''updatetype'', clientUpdateTypeToString (UpdateType m))] inbound)) ?op"
      using 1 by (simp add: x)
    have "reg_inv ls r' \<and> localID r' = localID r \<and> (\<forall>j. j \<notin> S \<longrightarrow> members r' j = members r j)"
      if "?op = Some r'" for r'
      using reg_inv_RemoveMember [OF that Cons.prems(1)] touches_RemoveMember [OF Cons.prems(1) that]
        Cons.prems(2) by (auto simp: touches_def)
    moreover have "?op \<noteq> None" if "located S r"
      using that Cons.prems(2) by (auto simp: RemoveMember_def updateMemberLocked_eq located_def
          update_panics_def Let_def split: option.split)
    ultimately show ?thesis
      unfolding loop by (simp only: map_option_eq_Some option.map_disc_iff prod.inject) blast
  next
    case 2
    then show ?thesis by (simp add: x well_formed_def)
  next
    case (3 st)
    have st: "MemberId st \<in> S" using Cons.prems(3) 3 by (fastforce simp: x registered_ids_def)
    show ?thesis
      by (rule go [where op = "AddMember ls clk st [] r" and ?member1.0 = st])
        (use 3 st reg_inv_AddMember [OF _ Cons.prems(1)] touches_AddMember located_total(1) in
          \<open>simp_all add: x well_formed_def\<close>)
  next
    case 4
    show ?thesis
      by (rule go [where op = "MemberHeartbeat ls clk clk' member [] r" and ?member1.0 = member])
        (use 4 Cons.prems(2) reg_inv_MemberHeartbeat [OF _ Cons.prems(1)] touches_MemberHeartbeat
           located_total(2) in \<open>simp_all add: x\<close>)
  next
    case 5
    show ?thesis
      by (rule go [where op = "Some r" and ?member1.0 = member]) (use 5 Cons.prems(1,2) in \<open>auto simp: x touches_def\<close>)
  qed
qed

text \<open>
  C22: a client's stream only reaches its own members. Whatever messages a client sends, in
  whatever order, as long as the node does not panic the handler keeps the registry consistent and
  leaves every member alone whose id the client never registers; a stream that does not start with a
  registration is ignored. The node does not panic if every registration has a member and, unless
  errors are not written, neither it nor what is stored under its id lacks a locality. It does panic
  when a client first registers no member, or the node itself without a locality.
\<close>
theorem register_stream_scope:
  assumes "reg_inv ls r"
  shows "(\<forall>inbound' r'. Register ls stream inbound r = Some (inbound', r') \<longrightarrow>
      reg_inv ls r' \<and> localID r' = localID r \<and>
      (\<forall>j. j \<notin> registered_ids stream \<longrightarrow> members r' j = members r j)) \<and>
    (stream \<noteq> [] \<and> UpdateType (fst (hd stream)) \<noteq> CLIENT_REGISTER \<longrightarrow>
      Register ls stream inbound r = Some (inbound, r)) \<and>
    (well_formed stream r \<and> located (registered_ids stream) r \<longrightarrow> Register ls stream inbound r \<noteq> None) \<and>
    (\<forall>m x rest. stream = (m, x) # rest \<and> UpdateType m = CLIENT_REGISTER \<and>
      (case Member m of None \<Rightarrow> True
       | Some st \<Rightarrow> MemberId st = localID r \<and> Locality st = None \<and> logger r) \<longrightarrow>
      Register ls stream inbound r = None)"
proof (cases "stream = [] \<or> UpdateType (fst (hd stream)) \<noteq> CLIENT_REGISTER")
  case True
  then have "Register ls stream inbound r = Some (inbound, r)"
    by (auto simp: Register_def split: list.splits)
  then show ?thesis using assms True by auto
next
  case False
  then obtain m clk clk' rest where s: "stream = (m, clk, clk') # rest"
    "UpdateType m = CLIENT_REGISTER" by (cases stream) auto
  show ?thesis
  proof (cases "Member m")
    case None
    then show ?thesis using s by (auto simp: Register_def well_formed_def)
  next
    case (Some st)
    let ?S = "registered_ids stream"
    let ?inb = "Counter_Inc [(''updatetype'', clientUpdateTypeToString CLIENT_REGISTER)] inbound"
    have S: "MemberId st \<in> ?S" "registered_ids rest \<subseteq> ?S"
      using s Some by (fastforce simp: registered_ids_def)+
    have reg: "Register ls stream inbound r = (case AddMember ls clk st [] r of None \<Rightarrow> None
        | Some r1 \<Rightarrow> Register_loop ls rest st ?inb r1)"
      using s Some by (simp add: Register_def)
    have own: "AddMember ls clk st [] r = None" if "MemberId st = localID r" "Locality st = None" "logger r"
      using that by (simp add: AddMember_def updateMemberLocked_eq update_panics_def)
    show ?thesis
    proof (cases "AddMember ls clk st [] r")
      case None
      then have "\<not> well_formed stream r"
        using s Some by (auto simp: AddMember_def updateMemberLocked_eq update_panics_def well_formed_def
            split: if_splits)
      then show ?thesis using None reg s by simp
    next
      case 1: (Some r1)
      note t = touches_AddMember [OF 1]
      note loop = Register_loop_scope [OF reg_inv_AddMember [OF 1 assms] S, of ?inb]
      have f: "localID r1 = localID r" "logger r1 = logger r" "\<And>j. j \<notin> ?S \<Longrightarrow> members r1 j = members r j"
        using t S(1) by (auto simp: touches_def)
      have "well_formed rest r1 \<and> located ?S r1 \<and> (logger r1 \<longrightarrow> Locality st \<noteq> None)"
        if "well_formed stream r" "located ?S r"
        using that s Some f(2) located_touches [OF t that(2)] by (simp add: well_formed_def)
      then have total: "Register_loop ls rest st ?inb r1 \<noteq> None" if "well_formed stream r" "located ?S r"
        using that loop by blast
      have out: "reg_inv ls r' \<and> localID r' = localID r \<and> (\<forall>j. j \<notin> ?S \<longrightarrow> members r' j = members r j)"
        if "Register_loop ls rest st ?inb r1 = Some (inbound', r')" for inbound' r'
        using that loop f by metis
      have reg': "Register ls stream inbound r = Register_loop ls rest st ?inb r1" by (simp add: reg 1)
      have "\<not> (MemberId st = localID r \<and> Locality st = None \<and> logger r)" using own 1 by auto
      then have "\<not> (case Member m' of None \<Rightarrow> True
          | Some st \<Rightarrow> MemberId st = localID r \<and> Locality st = None \<and> logger r)"
        if "stream = (m', x) # rest'" for m' x rest' using that s(1) Some by simp
      moreover have "UpdateType (fst (hd stream)) = CLIENT_REGISTER" using s by simp
      ultimately show ?thesis unfolding reg' using out total by blast
    qed
  qed
qed

theorem register_stream_scope_witness:
  "(\<exists>c r'. Register sample_text [(\<lparr>UpdateType = CLIENT_REGISTER, Member = Some (zero_state ''x'')\<rparr>, 5, 5),
       (\<lparr>UpdateType = CLIENT_UNREGISTER, Member = None\<rparr>, 9, 9)] NewCounter sample_registry =
     Some (c, r') \<and> members r' ''m'' = Some (sample_member ''m'' Liveness_UP ''n1'' 100 0)) \<and>
   Register sample_text [(\<lparr>UpdateType = CLIENT_REGISTER, Member = None\<rparr>, 5, 5)] NewCounter
     sample_registry = None"
proof -
  let ?s = "[(\<lparr>UpdateType = CLIENT_REGISTER, Member = Some (zero_state ''x'')\<rparr>, 5, 5),
     (\<lparr>UpdateType = CLIENT_UNREGISTER, Member = None\<rparr>, 9, 9)]"
  note scope = register_stream_scope [OF sample_registry_inv]
  have "well_formed ?s sample_registry" "located (registered_ids ?s) sample_registry"
    by (simp_all add: well_formed_def located_def)
  then have "Register sample_text ?s NewCounter sample_registry \<noteq> None"
    using conjunct1 [OF conjunct2 [OF conjunct2 [OF scope]]] by blast
  then obtain c r' where run: "Register sample_text ?s NewCounter sample_registry = Some (c, r')" by auto
  have "''m'' \<notin> registered_ids ?s" by (auto simp: registered_ids_def)
  then have "members r' ''m'' = members sample_registry ''m''"
    using conjunct1 [OF scope] run by blast
  then have "members r' ''m'' = Some (sample_member ''m'' Liveness_UP ''n1'' 100 0)" by simp
  moreover have "Register sample_text [(\<lparr>UpdateType = CLIENT_REGISTER, Member = None\<rparr>, 5, 5)] NewCounter
      sample_registry = None"
    using conjunct2 [OF conjunct2 [OF conjunct2 [OF scope [of
      "[(\<lparr>UpdateType = CLIENT_REGISTER, Member = None\<rparr>, 5, 5)]" NewCounter]]]] by simp
  ultimately show ?thesis using run by blast
qed


lemma heartbeats_keep_alive:
  assumes "members r i = Some u" and "MemberId st = i" and "OwnerId (Version u) = localID r"
    and "Liveness u = Liveness_UP" and "\<forall>x \<in> set beats. UpdateType (fst x) = CLIENT_HEARTBEAT"
    and "lastSeen r i = Some t0"
  shows "\<exists>inbound' r'. Register_loop ls beats st inbound r = Some (inbound', r') \<and>
    members r' = members r \<and> lastSeen r' i = Some (last (t0 # map (\<lambda>x. fst (snd x)) beats))"
  using assms
proof (induction beats arbitrary: inbound r t0)
  case Nil
  then show ?case by simp
next
  case (Cons x beats)
  obtain m clk clk' where x: "x = (m, clk, clk')" using prod_cases3 by blast
  let ?r = "r\<lparr>lastSeen := (lastSeen r)(i \<mapsto> clk)\<rparr>"
    and ?inb = "Counter_Inc [(''updatetype'', clientUpdateTypeToString CLIENT_HEARTBEAT)] inbound"
  have "MemberHeartbeat ls clk clk' st [] r = Some ?r"
    using Cons.prems(1-4) by (simp add: MemberHeartbeat_def Let_def defaultOptions_def)
  then have step: "Register_loop ls (x # beats) st inbound r = Register_loop ls beats st ?inb ?r"
    using Cons.prems(5) by (simp add: x Let_def)
  from Cons.IH [of ?r clk ?inb] Cons.prems(1-5)
  show ?case unfolding step by (simp add: x)
qed

text \<open>
  C21: what a well-behaved client achieves: a stream that registers a member and then sends any
  number of heartbeats is handled without a panic and leaves the member registered under the state
  it sent, up, owned by this node and last seen at the clock of the last message - whatever version
  was known before, if it was stamped earlier. Closing the stream without unregistering changes
  nothing more.
\<close>
theorem registered_and_beating:
  assumes "Member m = Some st" and "MemberId st \<noteq> localID r" and "UpdateType m = CLIENT_REGISTER"
    and "\<forall>e. members r (MemberId st) = Some e \<longrightarrow> Timestamp (VTimestamp (Version e)) < t0"
    and "\<forall>x \<in> set beats. UpdateType (fst x) = CLIENT_HEARTBEAT"
  shows "\<exists>inbound' r' u. Register ls ((m, t0, t0') # beats) inbound r = Some (inbound', r') \<and>
    members r' (MemberId st) = Some u \<and> State u = st \<and>
    Liveness u = Liveness_UP \<and> OwnerId (Version u) = localID r \<and>
    lastSeen r' (MemberId st) = Some (last (t0 # map (\<lambda>x. fst (snd x)) beats)) \<and>
    (\<forall>j. j \<noteq> MemberId st \<longrightarrow> members r' j = members r j)"
proof -
  let ?i = "MemberId st" and ?r1 = "update_result ls t0 st Liveness_UP 0 [] r"
    and ?inb = "Counter_Inc [(''updatetype'', clientUpdateTypeToString CLIENT_REGISTER)] inbound"
  let ?u = "\<lparr>State = st, Liveness = Liveness_UP, Version = update_version t0 [] r, Expiry = 0\<rparr>"
  have fresh: "\<not> update_outdated t0 ?i [] r"
    using assms(4) by (auto simp: update_outdated_def newer_iff defaultOptions_def)
  then have add: "AddMember ls t0 st [] r = Some ?r1"
    using assms(2) by (simp add: AddMember_Some update_panics_def)
  have r1: "members ?r1 = (members r)(?i \<mapsto> ?u)" "lastSeen ?r1 ?i = Some t0"
    using assms(2) fresh by (simp_all add: members_update_result lastSeen_update_result defaultOptions_def)
  have "Register ls ((m, t0, t0') # beats) inbound r = Register_loop ls beats st ?inb ?r1"
    using assms(1,3) by (simp add: Register_def Let_def add)
  with heartbeats_keep_alive [of ?r1 ?i ?u st beats t0 ls ?inb] assms(5) r1 show ?thesis by auto
qed

theorem registered_and_beating_witness:
  "\<exists>c r' u. Register sample_text [(\<lparr>UpdateType = CLIENT_REGISTER, Member = Some (zero_state ''m'')\<rparr>, 500, 500),
       (\<lparr>UpdateType = CLIENT_HEARTBEAT, Member = None\<rparr>, 900, 900)] NewCounter sample_registry =
     Some (c, r') \<and> members r' ''m'' = Some u \<and> Liveness u = Liveness_UP \<and> lastSeen r' ''m'' = Some 900"
proof -
  let ?m = "\<lparr>UpdateType = CLIENT_REGISTER, Member = Some (zero_state ''m'')\<rparr>"
  let ?b = "[(\<lparr>UpdateType = CLIENT_HEARTBEAT, Member = None\<rparr>, 900, 900)]"
  show ?thesis
    using registered_and_beating [of ?m "zero_state ''m''" sample_registry 500 ?b sample_text 500 NewCounter]
    by auto
qed

end
