(* ===== verification/Cluster.thy ===== *)
theory Cluster
  imports RegistryServers
begin

text \<open>
  pkg/cluster/cluster.go: the other nodes of the cluster, a replica client for each, and what a
  join, a leave, a member update and a repair round do. The node's registry is shared with the
  other components, so operations take and return it. \<open>dial_ok\<close> is the success of the
  connection set-up, \<open>ks\<close> the order in which the client map is ranged over, \<open>rnd\<close> the
  result of rand.Int. \<open>None\<close> is a panic of Push, which \<open>cluster_consistent\<close> rules out.
\<close>

record cluster =
  nodes :: "string set"
  clients :: "string \<rightharpoonup> replica_client"
  NodesCount :: gauge
  clientMetrics :: replica_client_metrics

definition NewCluster :: cluster where
  "NewCluster = \<lparr>nodes = {}, clients = Map.empty, NodesCount = Gauge_Set 1 [] NewGauge,
     clientMetrics = NewReplicaClientMetrics\<rparr>"

text \<open>
  One step each: the lock of the cluster covers only the updates of its maps, and the registry and
  the new client's queue have locks of their own, so that other goroutines may act in between; this
  interleaving is not modelled.
\<close>

definition OnJoin ::
  "bool \<Rightarrow> string list \<Rightarrow> string \<Rightarrow> cluster \<Rightarrow> registry \<Rightarrow> (cluster \<times> registry) option"
where
  "OnJoin dial_ok ms i c r =
     (case ReplicaConnect dial_ok i [] of
        None \<Rightarrow> Some (c, r)
      | Some client \<Rightarrow>
          let c1 = c\<lparr>nodes := insert i (nodes c), clients := (clients c)(i \<mapsto> client)\<rparr>;
              c2 = c1\<lparr>NodesCount := Gauge_Set (int (card (nodes c1)) + 1) [] (NodesCount c1)\<rparr>;
              r1 = OnNodeJoin i r
          in (case foldM client_Update (OwnedMembers ms r1) client of
                None \<Rightarrow> None
              | Some client' \<Rightarrow> Some (c2\<lparr>clients := (clients c2)(i \<mapsto> client')\<rparr>, r1)))"

definition OnLeave ::
  "string list \<Rightarrow> int \<Rightarrow> string \<Rightarrow> cluster \<Rightarrow> registry \<Rightarrow> cluster \<times> registry"
where
  "OnLeave ms clk i c r =
     (let c1 = c\<lparr>nodes := nodes c - {i}\<rparr>;
          c2 = (case clients c1 i of
              None \<Rightarrow> c1
            | Some client \<Rightarrow>
                let closed_client = client_Close client
                in c1\<lparr>clients := (clients c1)(i := None)\<rparr>);
          c3 = c2\<lparr>NodesCount := Gauge_Set (int (card (nodes c2)) + 1) [] (NodesCount c2)\<rparr>
      in (c3, OnNodeLeave ms clk i [] r))"

definition OnUpdate :: "string list \<Rightarrow> member2 \<Rightarrow> cluster \<Rightarrow> cluster option" where
  "OnUpdate ks m c =
     foldM (\<lambda>k c. case clients c k of
         None \<Rightarrow> Some c
       | Some client \<Rightarrow>
           (case client_Update m client of
              None \<Rightarrow> None
            | Some client' \<Rightarrow> Some (c\<lparr>clients := (clients c)(k \<mapsto> client')\<rparr>))) ks c"

definition randomClient :: "string list \<Rightarrow> nat \<Rightarrow> cluster \<Rightarrow> replica_client option" where
  "randomClient ks rnd c =
     (if ks = [] then None else clients c (ks ! (rnd mod length ks)))"

definition ReplicaRepair ::
  "(liveness \<Rightarrow> string) \<Rightarrow> string list \<Rightarrow> nat \<Rightarrow> string list \<Rightarrow> string list \<Rightarrow> nat list \<Rightarrow>
     (string \<Rightarrow> sync_request \<Rightarrow> member2 list option) \<Rightarrow> cluster \<Rightarrow> registry \<Rightarrow> cluster \<times> registry"
where
  "ReplicaRepair ls ks rnd ps ms perm call c r =
     (case randomClient ks rnd c of
        None \<Rightarrow> (c, r)
      | Some client \<Rightarrow>
          let (_, mt, r1) = client_Sync ls ps ms perm (call (targetID client)) client
                (clientMetrics c) r
          in (c\<lparr>clientMetrics := mt\<rparr>, r1))"

subsection \<open>The state of a cluster\<close>

definition cluster_inv :: "cluster \<Rightarrow> bool" where
  "cluster_inv c \<longleftrightarrow> finite (nodes c) \<and> (\<forall>i. clients c i = None \<longleftrightarrow> i \<notin> nodes c) \<and>
     gauge_cell (NodesCount c) (metric_key []) = int (card (nodes c)) + 1 \<and>
     (\<forall>i cl. clients c i = Some cl \<longrightarrow>
        targetID cl = i \<and> queue_ok (pendingQ cl) \<and> queue_cap (pendingQ cl) = 129)"

lemma ReplicaConnect_default:
  "ReplicaConnect True i [] = Some \<lparr>targetID = i, digestLimit = 0,
     pendingQ = newPendingUpdates 128, updateTimeout = 20000000000\<rparr>"
  by (simp add: ReplicaConnect_def client_defaultOptions_def)

lemma client_Update_ok:
  assumes "queue_ok (pendingQ cl)"
  shows "client_Update m cl = Some (cl\<lparr>pendingQ := push_open m (pendingQ cl)\<rparr>)"
  by (simp add: client_Update_def push_open_def Push_open [OF assms])

lemma foldM_client_Update:
  "queue_ok (pendingQ cl) \<Longrightarrow>
    foldM client_Update us cl = Some (cl\<lparr>pendingQ := fold push_open us (pendingQ cl)\<rparr>)"
proof (induction us arbitrary: cl)
  case (Cons u us)
  then show ?case
    using pending_queue.push_ok [OF Cons.prems, of u] by (simp add: client_Update_ok)
qed simp

lemma fold_push_ok:
  "queue_ok p \<Longrightarrow> queue_ok (fold push_open us p) \<and> queue_cap (fold push_open us p) = queue_cap p"
  by (induction us arbitrary: p) (simp_all add: pending_queue.push_ok)

lemma new_queue: "queue_ok (newPendingUpdates 128)" "queue_cap (newPendingUpdates 128) = 129"
  "pending (newPendingUpdates l) = []"
  using queue_ok_new [of 128] by (simp_all add: newPendingUpdates_def)

lemma cluster_inv_new: "cluster_inv NewCluster"
  by (simp add: cluster_inv_def NewCluster_def)

lemma OnJoin_ok:
  "OnJoin True ms i c r = Some
     (c\<lparr>nodes := insert i (nodes c),
        clients := (clients c)(i \<mapsto> \<lparr>targetID = i, digestLimit = 0,
          pendingQ = fold push_open (OwnedMembers ms (OnNodeJoin i r)) (newPendingUpdates 128),
          updateTimeout = 20000000000\<rparr>),
        NodesCount := Gauge_Set (int (card (insert i (nodes c))) + 1) [] (NodesCount c)\<rparr>,
      OnNodeJoin i r)"
  by (simp add: OnJoin_def ReplicaConnect_default Let_def foldM_client_Update new_queue)

lemma OnJoin_failed: "OnJoin False ms i c r = Some (c, r)"
  by (simp add: OnJoin_def ReplicaConnect_def Let_def)

lemma cluster_inv_join:
  assumes "cluster_inv c" and "OnJoin dial_ok ms i c r = Some (c', r')"
  shows "cluster_inv c'"
proof (cases dial_ok)
  case True
  then show ?thesis
    using assms fold_push_ok [OF new_queue(1)]
    by (auto simp: OnJoin_ok cluster_inv_def new_queue split: if_splits)
next
  case False
  then show ?thesis using assms by (simp add: OnJoin_def ReplicaConnect_def Let_def)
qed

lemma cluster_inv_leave: "cluster_inv c \<Longrightarrow> cluster_inv (fst (OnLeave ms clk i c r))"
  by (auto simp: OnLeave_def cluster_inv_def Let_def split: option.split)

lemma OnUpdate_clients:
  assumes "\<And>k cl. clients c k = Some cl \<Longrightarrow> queue_ok (pendingQ cl)" and "distinct ks"
  shows "\<exists>c'. OnUpdate ks m c = Some c' \<and>
    c' = c\<lparr>clients := (\<lambda>k. if k \<in> set ks
      then map_option (\<lambda>cl. cl\<lparr>pendingQ := push_open m (pendingQ cl)\<rparr>) (clients c k)
      else clients c k)\<rparr>"
  using assms
proof (induction ks arbitrary: c)
  case Nil
  then show ?case by (simp add: OnUpdate_def)
next
  case (Cons k ks)
  show ?case
  proof (cases "clients c k")
    case None
    then have "OnUpdate (k # ks) m c = OnUpdate ks m c" by (simp add: OnUpdate_def)
    moreover have "(\<lambda>j. if j \<in> set ks then f (clients c j) else clients c j) =
        (\<lambda>j. if j \<in> set (k # ks) then f (clients c j) else clients c j)"
      if "f None = None" for f :: "replica_client option \<Rightarrow> replica_client option"
      using None that by auto
    ultimately show ?thesis using Cons.IH [of c] Cons.prems by (simp only:) simp
  next
    case (Some cl)
    let ?cl = "cl\<lparr>pendingQ := push_open m (pendingQ cl)\<rparr>"
    let ?c = "c\<lparr>clients := (clients c)(k \<mapsto> ?cl)\<rparr>"
    have ok: "queue_ok (pendingQ cl)" using Cons.prems(1) Some by blast
    have "OnUpdate (k # ks) m c = OnUpdate ks m ?c"
      by (simp add: OnUpdate_def Some client_Update_ok [OF ok])
    moreover have "queue_ok (pendingQ cl')" if "clients ?c j = Some cl'" for j cl'
      using that Cons.prems(1) pending_queue.push_ok [OF ok] by (auto split: if_splits)
    ultimately show ?thesis
      using Cons.IH [of ?c] Cons.prems(2) Some by (auto simp: fun_eq_iff)
  qed
qed

lemma cluster_inv_update:
  assumes "cluster_inv c" and "iter_order ks (clients c)"
  shows "\<exists>c'. OnUpdate ks m c = Some c' \<and> cluster_inv c' \<and> nodes c' = nodes c \<and>
    (\<forall>k. clients c' k =
       map_option (\<lambda>cl. cl\<lparr>pendingQ := push_open m (pendingQ cl)\<rparr>) (clients c k))"
proof -
  have ok: "queue_ok (pendingQ cl)" if "clients c k = Some cl" for k cl
    using assms(1) that by (simp add: cluster_inv_def)
  have dist: "distinct ks" and dom: "set ks = dom (clients c)"
    using assms(2) by (simp_all add: iter_order_def)
  obtain c' where c': "OnUpdate ks m c = Some c'" "c' = c\<lparr>clients := (\<lambda>k. if k \<in> set ks
      then map_option (\<lambda>cl. cl\<lparr>pendingQ := push_open m (pendingQ cl)\<rparr>) (clients c k)
      else clients c k)\<rparr>"
    using OnUpdate_clients [of c ks m] ok dist by blast
  have each: "clients c' k =
      map_option (\<lambda>cl. cl\<lparr>pendingQ := push_open m (pendingQ cl)\<rparr>) (clients c k)" for k
    by (cases "clients c k") (auto simp: c'(2) dom)
  have "cluster_inv c'"
    unfolding cluster_inv_def
  proof (intro conjI allI impI)
    show "finite (nodes c')" and "gauge_cell (NodesCount c') (metric_key []) = int (card (nodes c')) + 1"
      using assms(1) by (simp_all add: c'(2) cluster_inv_def)
    show "(clients c' k = None) = (k \<notin> nodes c')" for k
      using assms(1) by (simp add: each cluster_inv_def) (simp add: c'(2))
    fix k cl assume "clients c' k = Some cl"
    then obtain cl0 where cl0: "clients c k = Some cl0"
      "cl = cl0\<lparr>pendingQ := push_open m (pendingQ cl0)\<rparr>" by (auto simp: each)
    with pending_queue.push_ok [OF ok [OF cl0(1)], of m] assms(1)
    show "targetID cl = k" "queue_ok (pendingQ cl)" "queue_cap (pendingQ cl) = 129"
      by (simp_all add: cluster_inv_def)
  qed
  moreover have "nodes c' = nodes c" by (simp add: c'(2))
  ultimately show ?thesis using c'(1) each by blast
qed

subsection \<open>Runs of a node\<close>

text \<open>
  A node's cluster component and registry, with every operation of either as a step, the send
  loops of the clients included.
\<close>

datatype cl_event =
  Cl_join string | Cl_leave string | Cl_update member2 | Cl_repair | Cl_send string
  | Cl_registry reg_event

inductive cl_step ::
  "(liveness \<Rightarrow> string) \<Rightarrow> cl_event \<Rightarrow> cluster \<times> registry \<Rightarrow> cluster \<times> registry \<Rightarrow> bool" for ls
where
  cl_join: "iter_order ms (members r) \<Longrightarrow> OnJoin dial_ok ms i c r = Some s \<Longrightarrow>
    cl_step ls (Cl_join i) (c, r) s"
| cl_leave: "iter_order ms (members r) \<Longrightarrow> cl_step ls (Cl_leave i) (c, r) (OnLeave ms clk i c r)"
| cl_update: "iter_order ks (clients c) \<Longrightarrow> OnUpdate ks m c = Some c' \<Longrightarrow>
    cl_step ls (Cl_update m) (c, r) (c', r)"
| cl_repair: "iter_order ks (clients c) \<Longrightarrow> set ps = priorityMembers r \<Longrightarrow>
    iter_order ms (members r) \<Longrightarrow> mset perm = mset [0..<length ms] \<Longrightarrow>
    cl_step ls Cl_repair (c, r) (ReplicaRepair ls ks rnd ps ms perm call c r)"
| cl_send: "clients c k = Some cl \<Longrightarrow>
    sendLoop (localID r) outcomes cl (clientMetrics c) = (reqs, cl', mt) \<Longrightarrow>
    cl_step ls (Cl_send k) (c, r) (c\<lparr>clients := (clients c)(k \<mapsto> cl'), clientMetrics := mt\<rparr>, r)"
| cl_registry: "reg_step ls e r r' \<Longrightarrow> cl_step ls (Cl_registry e) (c, r) (c, r')"

inductive cl_reachable :: "(liveness \<Rightarrow> string) \<Rightarrow> cluster \<times> registry \<Rightarrow> bool" for ls where
  cl_start: "cl_reachable ls (NewCluster, NewRegistry ls clk lid opts)"
| cl_next: "cl_reachable ls s \<Longrightarrow> cl_step ls e s s' \<Longrightarrow> cl_reachable ls s'"

lemma cluster_inv_metrics [simp]: "cluster_inv (c\<lparr>clientMetrics := mt\<rparr>) = cluster_inv c"
  by (simp add: cluster_inv_def)

lemma ReplicaRepair_inv:
  assumes "cluster_inv c" and "reg_inv ls r"
  shows "cluster_inv (fst (ReplicaRepair ls ks rnd ps ms perm call c r)) \<and>
    reg_inv ls (snd (ReplicaRepair ls ks rnd ps ms perm call c r))"
proof (cases "randomClient ks rnd c")
  case None
  then show ?thesis using assms by (simp add: ReplicaRepair_def)
next
  case (Some cl)
  obtain d r1 where d: "Digest ps ms perm (digestLimit cl) r = (d, r1)" by fastforce
  then have r1: "reg_inv ls r1" using Digest_frame [OF d] assms(2) by auto
  have "reg_inv ls (fold (RemoteUpdate ls) us r1)" for us
    by (rule reg_inv_fold_RemoteUpdate [OF r1])
  then show ?thesis
    using Some assms(1) r1 d
    by (simp add: ReplicaRepair_def client_Sync_def sync_request_of_def sync_response_def Let_def
        split: option.split)
qed

lemma cluster_inv_send:
  assumes "cluster_inv c" and "clients c k = Some cl"
    and "sendLoop lid outcomes cl mt0 = (reqs, cl', mt)"
  shows "cluster_inv (c\<lparr>clients := (clients c)(k \<mapsto> cl')\<rparr>)"
proof -
  have cl: "targetID cl = k" "queue_ok (pendingQ cl)" "queue_cap (pendingQ cl) = 129"
    using assms(1,2) by (auto simp: cluster_inv_def)
  have cl': "cl' = cl \<or> cl' = cl\<lparr>pendingQ := (pendingQ cl)
      \<lparr>pending := drop (length outcomes) (pending (pendingQ cl))\<rparr>\<rparr>"
    using assms(3) by (auto simp: sendLoop_eq split: if_splits)
  then have "targetID cl' = k" "queue_ok (pendingQ cl')" "queue_cap (pendingQ cl') = 129"
    using cl by (auto simp: queue_ok_def queue_cap_def)
  moreover have "k \<in> nodes c" using assms(1,2) by (force simp: cluster_inv_def)
  ultimately show ?thesis using assms(1) by (auto simp: cluster_inv_def)
qed

lemma cl_step_inv:
  assumes "cl_step ls e s s'" and "cluster_inv (fst s)" and "reg_inv ls (snd s)"
  shows "cluster_inv (fst s') \<and> reg_inv ls (snd s')"
  using assms
proof (induction rule: cl_step.induct)
  case (cl_join ms r dial_ok i c s)
  have "snd s = r \<or> snd s = OnNodeJoin i r"
    using cl_join(2) by (auto simp: OnJoin_def Let_def split: option.splits)
  then show ?case
    using cl_join cluster_inv_join [of c dial_ok ms i r "fst s" "snd s"]
    by (auto intro: reg_inv_OnNodeJoin)
next
  case (cl_leave ms r i c clk)
  then show ?case using cluster_inv_leave
    by (simp add: OnLeave_def Let_def reg_inv_OnNodeLeave split: option.split)
next
  case (cl_update ks c m c' r)
  then show ?case using cluster_inv_update [of c ks m] by auto
next
  case (cl_repair ks c ps r ms perm rnd call)
  then have "cluster_inv c" and "reg_inv ls r" by simp_all
  then show ?case by (rule ReplicaRepair_inv)
next
  case (cl_send c k cl r outcomes reqs cl' mt)
  then have "cluster_inv c" and r: "reg_inv ls r" by simp_all
  from cluster_inv_send [OF this(1) cl_send(1,2)]
  have "cluster_inv (c\<lparr>clients := (clients c)(k \<mapsto> cl'), clientMetrics := mt\<rparr>)"
    by (simp only: cluster_inv_metrics)
  with r show ?case by simp
next
  case (cl_registry e r r' c)
  then have "cluster_inv c" and "reg_inv ls r'" by (auto intro: reg_step_inv)
  then show ?case by simp
qed

lemma cl_reachable_inv:
  assumes "cl_reachable ls s"
  shows "cluster_inv (fst s) \<and> reg_inv ls (snd s)"
  using assms
proof (induction rule: cl_reachable.induct)
  case (cl_start clk lid opts)
  then show ?case by (simp add: cluster_inv_new reg_inv_NewRegistry)
next
  case (cl_next s e s')
  then show ?case using cl_step_inv by blast
qed

text \<open>
  C10: a node's view of the cluster is consistent in every reachable state: it has a client, open
  and with a bounded queue, for exactly the nodes that joined and have not left; the nodes gauge
  shows their number plus one; the registry's own invariant holds; and forwarding an update to
  all clients, or greeting a node that joins, never panics.
\<close>
theorem cluster_consistent:
  assumes "cl_reachable ls (c, r)"
  shows "(\<forall>i. i \<in> nodes c \<longleftrightarrow> (\<exists>cl. clients c i = Some cl \<and> targetID cl = i \<and>
      \<not> closed (pendingQ cl) \<and> length (pending (pendingQ cl)) \<le> 129)) \<and>
    Gauge_Value [] (NodesCount c) = int (card (nodes c)) + 1 \<and> reg_inv ls r \<and>
    (\<forall>ks m. iter_order ks (clients c) \<longrightarrow> OnUpdate ks m c \<noteq> None) \<and>
    (\<forall>dial_ok ms i. OnJoin dial_ok ms i c r \<noteq> None)"
proof -
  have inv: "cluster_inv c" and reg: "reg_inv ls r"
    using cl_reachable_inv [OF assms] by simp_all
  have "i \<in> nodes c \<longleftrightarrow> (\<exists>cl. clients c i = Some cl \<and> targetID cl = i \<and>
      \<not> closed (pendingQ cl) \<and> length (pending (pendingQ cl)) \<le> 129)" for i
  proof -
    have "queue_ok (pendingQ cl) \<and> queue_cap (pendingQ cl) = 129 \<and> targetID cl = i"
      if "clients c i = Some cl" for cl
      using inv that by (auto simp: cluster_inv_def)
    then have "\<not> closed (pendingQ cl) \<and> length (pending (pendingQ cl)) \<le> 129 \<and> targetID cl = i"
      if "clients c i = Some cl" for cl
      using that pending_queue.within [of "pendingQ cl"] by (fastforce simp: queue_ok_def)
    moreover have "clients c i = None \<longleftrightarrow> i \<notin> nodes c" using inv by (simp add: cluster_inv_def)
    ultimately show ?thesis by (cases "clients c i") auto
  qed
  moreover have "Gauge_Value [] (NodesCount c) = int (card (nodes c)) + 1"
    using inv by (simp add: cluster_inv_def Gauge_Value_cell metric_key_def labelsToLowercase_def)
  moreover have "OnUpdate ks m c \<noteq> None" if "iter_order ks (clients c)" for ks m
    using cluster_inv_update [OF inv that, of m] by auto
  moreover have "OnJoin dial_ok ms i c r \<noteq> None" for dial_ok ms i
    using OnJoin_ok [of ms i c r] OnJoin_failed [of ms i c r] by (cases dial_ok) simp_all
  ultimately show ?thesis using reg by blast
qed

theorem cluster_consistent_witness:
  "\<exists>c r. OnJoin True [] ''n2'' NewCluster (NewRegistry sample_text 0 ''n1'' []) = Some (c, r) \<and>
     Gauge_Value [] (NodesCount c) = 2"
proof -
  let ?r = "NewRegistry sample_text 0 ''n1'' []"
  obtain c r where run: "OnJoin True [] ''n2'' NewCluster ?r = Some (c, r)" and n: "nodes c = {''n2''}"
    by (simp add: OnJoin_ok NewCluster_def)
  have "iter_order [] (members ?r)"
    using members_NewRegistry_plain [of "[]" 0 sample_text "''n1''"]
    by (simp add: iter_order_def defaultOptions_def)
  from cl_next [OF cl_start cl_join [OF this run]]
  have "cl_reachable sample_text (c, r)" .
  from cluster_consistent [OF this] run n show ?thesis by auto
qed

subsection \<open>What is sent to the other nodes\<close>

text \<open>
  A node that joins is sent the members this node owns, through a new client whose queue is
  that list cut down to its newest 129 entries: a node that owns more than 129 members does not
  bootstrap the joining node with all of them. The other clients are untouched, and a pending
  takeover of the node's members is cancelled.
\<close>
theorem join_bootstrap:
  "\<exists>c' cl. OnJoin True ms i c r = Some (c', OnNodeJoin i r) \<and>
    clients c' = (clients c)(i \<mapsto> cl) \<and>
    pending (pendingQ cl) = newest 129 (OwnedMembers ms r) \<and>
    leftNodes (OnNodeJoin i r) i = None"
proof -
  let ?cl = "\<lparr>targetID = i, digestLimit = 0,
    pendingQ = fold push_open (OwnedMembers ms r) (newPendingUpdates 128),
    updateTimeout = 20000000000\<rparr>"
  have "OwnedMembers ms (OnNodeJoin i r) = OwnedMembers ms r"
    by (simp add: OwnedMembers_def OnNodeJoin_def)
  then have "OnJoin True ms i c r = Some
     (c\<lparr>nodes := insert i (nodes c), clients := (clients c)(i \<mapsto> ?cl),
        NodesCount := Gauge_Set (int (card (insert i (nodes c))) + 1) [] (NodesCount c)\<rparr>,
      OnNodeJoin i r)" by (simp add: OnJoin_ok)
  moreover have "pending (pendingQ ?cl) = newest 129 (OwnedMembers ms r)"
    using pending_queue.pushes_keep_newest [OF new_queue(1), of "OwnedMembers ms r"]
    by (simp add: new_queue)
  moreover have "leftNodes (OnNodeJoin i r) i = None" by (simp add: OnNodeJoin_def)
  moreover have "clients (c\<lparr>nodes := insert i (nodes c), clients := (clients c)(i \<mapsto> ?cl),
        NodesCount := Gauge_Set (int (card (insert i (nodes c))) + 1) [] (NodesCount c)\<rparr>) =
      (clients c)(i \<mapsto> ?cl)" by simp
  ultimately show ?thesis by blast
qed

text \<open>
  An update of a member is queued for every other node: in every reachable state OnUpdate
  appends it to the queue of each client, whatever the map order, dropping the oldest entry of a
  queue that holds 129 already, and changes nothing else.
\<close>
theorem update_broadcast:
  assumes "cl_reachable ls (c, r)" and "iter_order ks (clients c)"
  shows "\<exists>c'. OnUpdate ks m c = Some c' \<and> nodes c' = nodes c \<and>
    (\<forall>k. map_option (\<lambda>cl. pending (pendingQ cl)) (clients c' k) =
       map_option (\<lambda>cl. newest 129 (pending (pendingQ cl) @ [m])) (clients c k))"
proof -
  have inv: "cluster_inv c" using cl_reachable_inv [OF assms(1)] by simp
  obtain c' where c': "OnUpdate ks m c = Some c'" "nodes c' = nodes c"
    "\<And>k. clients c' k = map_option (\<lambda>cl. cl\<lparr>pendingQ := push_open m (pendingQ cl)\<rparr>) (clients c k)"
    using cluster_inv_update [OF inv assms(2), of m] by blast
  have "pending (push_open m (pendingQ cl)) = newest 129 (pending (pendingQ cl) @ [m])"
    if "clients c k = Some cl" for k cl
    using inv that pending_queue.push_contents [of "pendingQ cl" m] by (auto simp: cluster_inv_def)
  then have "map_option (\<lambda>cl. pending (pendingQ cl)) (clients c' k) =
      map_option (\<lambda>cl. newest 129 (pending (pendingQ cl) @ [m])) (clients c k)" for k
    by (cases "clients c k") (simp_all add: c'(3))
  with c'(1,2) show ?thesis by blast
qed

theorem update_broadcast_witness:
  "\<exists>c c'. OnUpdate [''n2''] (update_named ''a'') c = Some c' \<and> nodes c' = {''n2''} \<and>
     map_option (\<lambda>cl. pending (pendingQ cl)) (clients c' ''n2'') = Some [update_named ''a'']"
proof -
  let ?r = "NewRegistry sample_text 0 ''n1'' []"
  obtain c r where run: "OnJoin True [] ''n2'' NewCluster ?r = Some (c, r)" and n: "nodes c = {''n2''}"
    and cl: "dom (clients c) = {''n2''}"
      "map_option (\<lambda>cl. pending (pendingQ cl)) (clients c ''n2'') = Some []"
    by (auto simp: OnJoin_ok NewCluster_def new_queue OwnedMembers_def List.map_filter_simps)
  have "iter_order [] (members ?r)"
    using members_NewRegistry_plain [of "[]" 0 sample_text "''n1''"]
    by (simp add: iter_order_def defaultOptions_def)
  from cl_next [OF cl_start cl_join [OF this run]] have reach: "cl_reachable sample_text (c, r)" .
  have ord: "iter_order [''n2''] (clients c)" using cl(1) by (simp add: iter_order_def)
  from update_broadcast [OF reach ord, of "update_named ''a''"] obtain c' where
    "OnUpdate [''n2''] (update_named ''a'') c = Some c'" "nodes c' = nodes c"
    "map_option (\<lambda>cl. pending (pendingQ cl)) (clients c' ''n2'') =
       map_option (\<lambda>cl. newest 129 (pending (pendingQ cl) @ [update_named ''a''])) (clients c ''n2'')"
    by blast
  with cl(2) n show ?thesis by (cases "clients c ''n2''") (auto simp: newest_def)
qed

end
