(* ===== verification/Replication.thy ===== *)
theory Replication
  imports Cluster
begin

text \<open>
  Two nodes together: the client of one (pkg/registry/client) talking to the replica server of
  the other (pkg/registry/server). \<open>repair_round\<close> is one Sync call between them,
  \<open>forward\<close> one Update call.
\<close>

definition repair_round ::
  "(liveness \<Rightarrow> string) \<Rightarrow> string list \<Rightarrow> string list \<Rightarrow> nat list \<Rightarrow> replica_client \<Rightarrow>
     registry \<Rightarrow> registry \<Rightarrow> registry \<times> registry"
where
  "repair_round ls ps ms perm c near far =
     (let (req, near1) = sync_request_of ps ms perm c near;
          (delta, _, far1) = ReplicaServer_Sync req NewReplicaServerMetrics far;
          (_, _, near2) = sync_response ls (Some delta) c NewReplicaClientMetrics near1
      in (near2, far1))"

definition valid_digest_args :: "string list \<Rightarrow> string list \<Rightarrow> nat list \<Rightarrow> registry \<Rightarrow> bool" where
  "valid_digest_args ps ms perm r \<longleftrightarrow> set ps = priorityMembers r \<and>
     iter_order ms (members r) \<and> mset perm = mset [0..<length ms]"

lemma repair_round_eq:
  assumes "Digest ps ms perm (digestLimit c) near = (d, near1)"
  shows "repair_round ls ps ms perm c near far =
    (fold (RemoteUpdate ls) (fst (Delta d far)) near1, snd (Delta d far))"
  by (simp add: repair_round_def sync_request_of_def assms ReplicaServer_Sync_def sync_response_def
      Let_def case_prod_beta)

lemma Digest_frame_fields:
  assumes "Digest ps ms perm lim r = (d, r1)"
  shows "members r1 = members r" "localID r1 = localID r"
  using Digest_frame [OF assms] by auto

text \<open>A digest whose limit exceeds the number of candidates names all of them.\<close>

lemma Digest_complete:
  assumes "Digest ps ms perm lim r = (d, r1)" and "valid_digest_args ps ms perm r"
    and "finite (priorityMembers r)"
    and "int (card (priorityMembers r \<union> dom (members r))) < lim"
  shows "good_digest (members r) d \<and> digest_ids d = priorityMembers r \<union> dom (members r)"
proof -
  obtain prio' where run: "digest_of (members r) ps ms perm lim (priorityMembers r) = (d, prio')"
    using assms(1) by (auto simp: Digest_def split: prod.splits)
  have args: "set ps = priorityMembers r" "iter_order ms (members r)"
    "mset perm = mset [0..<length ms]" using assms(2) by (simp_all add: valid_digest_args_def)
  note spec = digest_of_spec [OF run args(1,3), unfolded iter_order_set [OF args(2)]]
  have s: "good_digest (members r) d" "digest_ids d \<subseteq> priorityMembers r \<union> dom (members r)"
    "int (length d) < lim \<longrightarrow> digest_ids d = priorityMembers r \<union> dom (members r)"
    by (rule conjunct1 [OF spec], rule conjunct1 [OF conjunct2 [OF conjunct2 [OF spec]]],
        rule conjunct1 [OF conjunct2 [OF conjunct2 [OF conjunct2 [OF spec]]]])
  have "finite (dom (members r))"
    by (rule iter_order_finite [OF args(2)])
  then have "finite (priorityMembers r \<union> dom (members r))" using assms(3) by (rule finite_UnI [rotated])
  then have "card (digest_ids d) \<le> card (priorityMembers r \<union> dom (members r))"
    by (rule card_mono [OF _ s(2)])
  then have "int (length d) < lim" using assms(4) digest_ids_card [OF s(1)] by linarith
  then show ?thesis using s(1,3) by blast
qed

text \<open>Whatever the digest names, the near node is not behind the far node afterwards.\<close>

lemma repair_not_behind:
  assumes d: "Digest ps ms perm (digestLimit c) near = (d, near1)"
    and good: "good_digest (members near) d" and i: "i \<in> digest_ids d"
    and far: "members far i = Some m" and mid: "MemberId (State m) = i"
    and adm: "i \<noteq> localID near" "OwnerId (Version m) \<noteq> localID near"
    and positive: "MonotonicTimestamp 0 0 < VTimestamp (Version m)"
  shows "\<exists>e. members (fst (repair_round ls ps ms perm c near far)) i = Some e \<and>
    \<not> newer (Version e) (Version m)"
proof -
  let ?us = "fst (Delta d far)"
  have entry: "(i, digest_entry (members near) i) \<in> set d" by (rule digest_entry_at [OF good i])
  have "\<exists>e. members (fold (RemoteUpdate ls) ?us near1) i = Some e \<and> \<not> newer (Version e) (Version m)"
  proof (cases "digest_entry (members near) i < VTimestamp (Version m)")
    case True
    then have "copyMember m \<in> set ?us" using entry far by (auto simp: set_fst_Delta)
    moreover have "admits_remote near1 (copyMember m)"
      using adm mid Digest_frame_fields(2) [OF d] by (simp add: admits_remote_def member_id_def)
    ultimately show ?thesis
      using store.fold_delivers [of "copyMember m" ?us near1 ls] mid by (simp add: member_id_def)
  next
    case False
    then obtain e where e: "members near i = Some e"
      using positive by (cases "members near i") (auto simp: digest_entry_def)
    then have "\<not> newer (Version e) (Version m)"
      using False by (auto simp: digest_entry_def newer_iff_timestamp)
    moreover have "members near1 i = Some e" using e Digest_frame_fields(1) [OF d] by simp
    ultimately show ?thesis by (metis store.fold_not_older)
  qed
  then show ?thesis by (simp add: repair_round_eq [OF d])
qed

subsection \<open>A pair of repair rounds\<close>

lemma repair_round_fields:
  assumes "Digest ps ms perm (digestLimit c) near = (d, near1)"
    and "repair_round ls ps ms perm c near far = (near2, far1)"
  shows "members far1 = members far" "localID far1 = localID far" "localID near2 = localID near"
    "near2 = fold (RemoteUpdate ls) (fst (Delta d far)) near1" "far1 = snd (Delta d far)"
proof -
  have near2: "near2 = fold (RemoteUpdate ls) (fst (Delta d far)) near1"
    and far1: "far1 = snd (Delta d far)"
    using assms(2) by (simp_all add: repair_round_eq [OF assms(1)])
  have "localID (fold (RemoteUpdate ls) us near1) = localID near1" for us
    by (induction us arbitrary: near1) simp_all
  then show "localID near2 = localID near"
    using Digest_frame_fields(2) [OF assms(1)] by (simp add: near2)
  show "members far1 = members far" "localID far1 = localID far" by (simp_all add: far1)
  show "near2 = fold (RemoteUpdate ls) (fst (Delta d far)) near1" "far1 = snd (Delta d far)"
    by (rule near2, rule far1)
qed

lemma dom_fold_RemoteUpdate:
  "dom (members (fold (RemoteUpdate ls) us r)) \<subseteq> dom (members r) \<union> member_id ` set us"
proof (induction us arbitrary: r)
  case Nil
  then show ?case by simp
next
  case (Cons u us)
  have "dom (members (RemoteUpdate ls u r)) \<subseteq> insert (member_id u) (dom (members r))"
    by (auto simp: members_RemoteUpdate member_id_def)
  then show ?case using Cons [of "RemoteUpdate ls u r"]
    unfolding fold_simps list.set image_insert by blast
qed

text \<open>After the far node has answered, it knows or asks for every member of the near node.\<close>

lemma round_makes_known:
  assumes d: "Digest ps ms perm (digestLimit c) near = (d, near1)"
    and good: "good_digest (members near) d" and all: "dom (members near) \<subseteq> digest_ids d"
    and keyed: "\<And>i m. members far i = Some m \<Longrightarrow> MemberId (State m) = i"
    and round: "repair_round ls ps ms perm c near far = (near2, far1)"
  shows "dom (members near2) \<subseteq> priorityMembers far1 \<union> dom (members far1)"
proof
  fix i assume i: "i \<in> dom (members near2)"
  have sent: "member_id ` set (fst (Delta d far)) \<subseteq> dom (members far)"
    using keyed by (auto simp: set_fst_Delta member_id_def)
  have "dom (members near2) \<subseteq> dom (members near) \<union> member_id ` set (fst (Delta d far))"
    unfolding repair_round_fields(4) [OF d round] Digest_frame_fields(1) [OF d, symmetric]
    by (rule dom_fold_RemoteUpdate)
  with i sent have "i \<in> dom (members near) \<or> i \<in> dom (members far)" by blast
  moreover have "i \<in> priorityMembers far1"
    if "i \<in> dom (members near)" and none: "members far i = None"
  proof -
    have "(i, digest_entry (members near) i) \<in> set d"
      by (rule digest_entry_at [OF good]) (use that all in auto)
    then show ?thesis
      using none unfolding repair_round_fields(5) [OF d round] by (auto simp: Delta_eq delta_answer_def)
  qed
  ultimately show "i \<in> priorityMembers far1 \<union> dom (members far1)"
    unfolding repair_round_fields(1) [OF d round] by (cases "members far i") auto
qed

text \<open>
  C7: two rounds repair a node. Let b repair itself from a, and then a from b, with digest limits
  above the number of members: then a is behind b on no member - for every member of b, whether
  or not a had ever heard of it, a stores a version that b's is not newer than - except for a's
  own member and for members whose owner b believes to be a. Unknown members make the detour
  over a's priority list: a digest only names what its sender knows.
\<close>
theorem two_rounds_repair:
  assumes inv: "reg_inv ls a" "reg_inv ls b"
    and round1: "repair_round ls ps ms perm cb b a = (b1, a1)"
    and round2: "repair_round ls ps' ms' perm' ca a1 b1 = (a2, b2)"
    and args: "valid_digest_args ps ms perm b" "valid_digest_args ps' ms' perm' a1"
    and prio: "finite (priorityMembers b)" "finite (priorityMembers a1)"
    and limits: "int (card (priorityMembers b \<union> dom (members b))) < digestLimit cb"
      "int (card (priorityMembers a1 \<union> dom (members a1))) < digestLimit ca"
    and m: "members b1 i = Some m" "i \<noteq> localID a" "OwnerId (Version m) \<noteq> localID a"
      "MonotonicTimestamp 0 0 < VTimestamp (Version m)"
  shows "\<exists>e. members a2 i = Some e \<and> \<not> newer (Version e) (Version m)"
proof -
  obtain d b0 where d: "Digest ps ms perm (digestLimit cb) b = (d, b0)" by fastforce
  obtain d' a0 where d': "Digest ps' ms' perm' (digestLimit ca) a1 = (d', a0)" by fastforce
  note D = Digest_complete [OF d args(1) prio(1) limits(1)]
  have full: "good_digest (members b) d" "dom (members b) \<subseteq> digest_ids d"
    by (rule conjunct1 [OF D]) (unfold conjunct2 [OF D], rule Un_upper2)
  note D' = Digest_complete [OF d' args(2) prio(2) limits(2)]
  have "dom (members b1) \<subseteq> priorityMembers a1 \<union> dom (members a1)"
    by (rule round_makes_known [OF d full _ round1]) (rule reg_inv_id [OF inv(1)])
  then have "i \<in> digest_ids d'" using domI [of "members b1" i m, OF m(1)]
    unfolding conjunct2 [OF D'] by (rule subsetD)
  moreover have "MemberId (State m) = i"
  proof (rule reg_inv_id [OF _ m(1)])
    have "reg_inv ls b0" using Digest_frame [OF d] inv(2) by auto
    then show "reg_inv ls b1" unfolding repair_round_fields(4) [OF d round1]
      by (rule reg_inv_fold_RemoteUpdate)
  qed
  ultimately show ?thesis
    using repair_not_behind [OF d' conjunct1 [OF D'] _ m(1), of ls] m repair_round_fields(2) [OF d round1]
      round2 by simp
qed

text \<open>A node n2 that owns a member x which node n1 of the sample has never heard of.\<close>

definition sample_far :: registry where
  "sample_far = the (AddMember sample_text 0 (zero_state ''x'') [WithNowTime 50]
     (NewRegistry sample_text 0 ''n2'' []))"

lemma sample_far_added:
  "AddMember sample_text 0 (zero_state ''x'') [WithNowTime 50] (NewRegistry sample_text 0 ''n2'' []) =
     Some sample_far"
  by (simp add: sample_far_def AddMember_def updateMemberLocked_eq defaultOptions_def)

definition sample_client :: "string \<Rightarrow> replica_client" where
  "sample_client n = \<lparr>targetID = n, digestLimit = 10, pendingQ = newPendingUpdates 128,
     updateTimeout = 1\<rparr>"

lemma sample_far_fields [simp]:
  "localID sample_far = ''n2''" "reg_inv sample_text sample_far"
  "members sample_far = [''x'' \<mapsto> sample_member ''x'' Liveness_UP ''n2'' 50 0]"
  "priorityMembers sample_far = {}"
  using members_NewRegistry_plain [of "[]" 0 sample_text "''n2''"]
    reg_inv_AddMember [OF sample_far_added reg_inv_NewRegistry]
  by simp_all (simp_all add: sample_far_def AddMember_def updateMemberLocked_eq update_result_def Let_def
      update_outdated_def update_version_def nextVersionLocked_def defaultOptions_def sample_member_def)

theorem two_rounds_repair_witness:
  "\<exists>b1 a1 a2 b2 e. repair_round sample_text [] [''x''] [0] (sample_client ''n1'')
       sample_far sample_registry = (b1, a1) \<and>
     repair_round sample_text [''x''] [''m''] [0] (sample_client ''n2'') a1 b1 = (a2, b2) \<and>
     members a2 ''x'' = Some e \<and> \<not> newer (Version e) \<lparr>OwnerId = ''n2'', VTimestamp = MonotonicTimestamp 50 0\<rparr>"
proof -
  let ?b = sample_far and ?a = sample_registry
  let ?x = "sample_member ''x'' Liveness_UP ''n2'' 50 0"
  have d: "Digest [] [''x''] [0] (digestLimit (sample_client ''n1'')) ?b =
      ([(''x'', MonotonicTimestamp 50 0)], ?b\<lparr>priorityMembers := {}\<rparr>)"
    by (simp add: Digest_def digest_of_def digest_entry_def shuffleStrings_def sample_client_def)
  obtain b1 a1 where round1: "repair_round sample_text [] [''x''] [0] (sample_client ''n1'') ?b ?a =
      (b1, a1)" by fastforce
  note f = repair_round_fields [OF d round1]
  obtain a2 b2 where round2: "repair_round sample_text [''x''] [''m''] [0] (sample_client ''n2'') a1 b1 =
      (a2, b2)" by fastforce
  have a1: "members a1 = members ?a" "priorityMembers a1 = {''x''}"
    using f(1) by (auto simp: f(5) Delta_eq delta_answer_def)
  have b1: "members b1 = members ?b"
    by (simp add: f(4) Delta_eq delta_answer_def List.map_filter_simps)
  have args1: "valid_digest_args [] [''x''] [0] ?b"
    by (simp add: valid_digest_args_def iter_order_def)
  have args2: "valid_digest_args [''x''] [''m''] [0] a1"
    by (simp add: valid_digest_args_def iter_order_def a1)
  have "card (insert ''x'' (dom [''m'' \<mapsto> sample_member ''m'' Liveness_UP ''n1'' 100 0])) = 2"
    by simp
  then have limits: "int (card (priorityMembers ?b \<union> dom (members ?b))) < digestLimit (sample_client ''n1'')"
    "int (card (priorityMembers a1 \<union> dom (members a1))) < digestLimit (sample_client ''n2'')"
    by (simp_all add: sample_client_def a1)
  have "\<exists>e. members a2 ''x'' = Some e \<and> \<not> newer (Version e) (Version ?x)"
    by (rule two_rounds_repair [OF sample_registry_inv sample_far_fields(2) round1 round2 args1
          args2 _ _ limits]) (simp_all add: a1 b1 timestamp_order)
  then show ?thesis using round1 round2 by (auto simp: sample_member_def)
qed

subsection \<open>From a registration to another node\<close>

lemma AddMember_notifies:
  assumes "subs r h = Some s" and "MemberId st \<noteq> localID r"
    and "\<forall>e. members r (MemberId st) = Some e \<longrightarrow> Timestamp (VTimestamp (Version e)) < clk"
  shows "\<exists>r' u. AddMember ls clk st [] r = Some r' \<and> inbox r' h = inbox r h @ [u] \<and> State u = st \<and>
    Liveness u = Liveness_UP \<and> OwnerId (Version u) = localID r \<and> members r' (MemberId st) = Some u"
proof -
  have "\<not> update_outdated clk (MemberId st) [] r"
    using assms(3) by (auto simp: update_outdated_def newer_iff defaultOptions_def)
  then show ?thesis using assms(1,2)
    by (auto simp: AddMember_Some update_panics_def update_result_def Let_def inbox_notify)
qed

text \<open>
  C11: a registration reaches the other nodes. When a client registers a member at node a, the
  node's local subscription yields exactly the new version; handing it to the cluster queues it
  for node k; the send loop of that client, idle before, sends exactly this update with a as the
  source; and the replica server of the receiving node b then stores it or something that it is
  not newer than.
\<close>
theorem registration_reaches_peer:
  assumes sub: "subs a h = Some s" and st: "MemberId st \<noteq> localID a" "MemberId st \<noteq> localID b"
    and fresh: "\<forall>e. members a (MemberId st) = Some e \<longrightarrow> Timestamp (VTimestamp (Version e)) < clk"
    and nodes: "localID a \<noteq> localID b" and reach: "cl_reachable ls (c, a)"
    and client: "clients c k = Some cl" "pending (pendingQ cl) = []"
    and order: "iter_order ks (clients c)"
  shows "\<exists>a' u c' cl' req. AddMember ls clk st [] a = Some a' \<and> inbox a' h = inbox a h @ [u] \<and> State u = st \<and>
    OnUpdate ks u c = Some c' \<and> clients c' k = Some cl' \<and>
    fst (sendLoop (localID a) [succ] cl' mt) = [req] \<and>
    UpdMember req = u \<and> UpdSourceNodeId req = localID a \<and>
    (\<exists>e. members (snd (ReplicaServer_Update ls req smt b)) (MemberId st) = Some e \<and>
       \<not> newer (Version e) (Version u))"
proof -
  from AddMember_notifies [OF sub st(1) fresh] obtain a' u where
    a': "AddMember ls clk st [] a = Some a'" and
    u: "inbox a' h = inbox a h @ [u]" "State u = st" "OwnerId (Version u) = localID a" by blast
  have inv: "cluster_inv c" using cl_reachable_inv [OF reach] by simp
  from cluster_inv_update [OF inv order, of u] obtain c' where
    c': "OnUpdate ks u c = Some c'" "cluster_inv c'"
      "\<And>k. clients c' k = map_option (\<lambda>cl. cl\<lparr>pendingQ := push_open u (pendingQ cl)\<rparr>) (clients c k)"
    by blast
  let ?cl = "cl\<lparr>pendingQ := push_open u (pendingQ cl)\<rparr>"
  have cl': "clients c' k = Some ?cl" by (simp add: c'(3) client(1))
  have ok: "queue_ok (pendingQ cl)" and cap: "queue_cap (pendingQ cl) = 129"
    using inv client(1) by (auto simp: cluster_inv_def)
  have q: "pending (push_open u (pendingQ cl)) = [u]"
    using pending_queue.push_contents [OF ok, of u] client(2) cap by (simp add: newest_def)
  have "\<not> closed (push_open u (pendingQ cl))"
    using pending_queue.push_ok [OF ok, of u] by (simp add: queue_ok_def)
  then have sent: "fst (sendLoop (localID a) [succ] ?cl mt) =
      [\<lparr>UpdMember = u, UpdSourceNodeId = localID a\<rparr>]"
    by (simp add: sendLoop_eq q)
  have "admits_remote b u" using st(2) nodes u(2,3) by (simp add: admits_remote_def member_id_def)
  from store.apply_not_older [OF this, of ls] u(2)
  have "\<exists>e. members (RemoteUpdate ls u b) (MemberId st) = Some e \<and> \<not> newer (Version e) (Version u)"
    by (simp add: member_id_def)
  with a' u c'(1) cl' sent show ?thesis
    by (intro exI [of _ a'] exI [of _ u] exI [of _ c'] exI [of _ ?cl]) (simp add: ReplicaServer_Update_def)
qed

theorem registration_reaches_peer_witness:
  "\<exists>a a' h c cl u c' cl' req. clients c ''n2'' = Some cl \<and>
    AddMember sample_text 70 (zero_state ''y'') [] a = Some a' \<and> inbox a' h = inbox a h @ [u] \<and>
    OnUpdate [''n2''] u c = Some c' \<and> clients c' ''n2'' = Some cl' \<and>
    fst (sendLoop (localID a) [True] cl' NewReplicaClientMetrics) = [req] \<and> UpdMember req = u \<and>
    (\<exists>e. members (snd (ReplicaServer_Update sample_text req NewReplicaServerMetrics sample_far))
       ''y'' = Some e)"
proof -
  let ?r = "NewRegistry sample_text 0 ''n1'' []"
  obtain a h where sub: "SubscribeLocal ?r = (h, a)" by fastforce
  have a: "subs a h = Some \<lparr>ownerOnly = True\<rparr>" "localID a = ''n1''" "members a = Map.empty"
    using sub members_NewRegistry_plain [of "[]" 0 sample_text "''n1''"]
    by (auto simp: SubscribeLocal_def Let_def defaultOptions_def)
  obtain c r where run: "OnJoin True [] ''n2'' NewCluster a = Some (c, r)" by (simp add: OnJoin_ok)
  have r: "r = OnNodeJoin ''n2'' a" and
    c: "clients c = [''n2'' \<mapsto> \<lparr>targetID = ''n2'', digestLimit = 0, pendingQ = newPendingUpdates 128,
      updateTimeout = 20000000000\<rparr>]"
    using run by (auto simp: OnJoin_ok NewCluster_def OwnedMembers_def List.map_filter_simps)
  have "cl_reachable sample_text (NewCluster, a)"
    by (rule cl_next [OF cl_start cl_registry [OF step_subscribe_local [OF sub]]])
  moreover have "iter_order [] (members a)" by (simp add: a iter_order_def)
  ultimately have reach: "cl_reachable sample_text (c, r)"
    using run by (blast intro: cl_next cl_join)
  have ord: "iter_order [''n2''] (clients c)" by (simp add: c iter_order_def)
  have s: "subs r h = Some \<lparr>ownerOnly = True\<rparr>" "localID r = ''n1''" "members r = Map.empty"
    using a by (simp_all add: r OnNodeJoin_def)
  let ?cl = "\<lparr>targetID = ''n2'', digestLimit = 0, pendingQ = newPendingUpdates 128,
      updateTimeout = 20000000000\<rparr>"
  have cl: "clients c ''n2'' = Some ?cl" "pending (pendingQ ?cl) = []"
    by (simp_all add: c new_queue)
  have st: "MemberId (zero_state ''y'') \<noteq> localID r"
    "MemberId (zero_state ''y'') \<noteq> localID sample_far" "localID r \<noteq> localID sample_far"
    "\<forall>e. members r (MemberId (zero_state ''y'')) = Some e \<longrightarrow>
      Timestamp (VTimestamp (Version e)) < 70"
    by (simp_all add: s)
  from registration_reaches_peer [OF s(1) st(1,2,4,3) reach cl ord, of True
      NewReplicaClientMetrics NewReplicaServerMetrics] cl(1)
  show ?thesis unfolding MemberId_zero_state by blast
qed

end
