(* ===== verification/Collector.thy ===== *)
theory Collector
  imports Metrics
begin

text \<open>
  pkg/metrics/promcollector.go and the Register methods of the metrics: what a process hands to the
  Prometheus registry. The registry is the list of the fully-qualified names registered with it.
  Documented behaviour of the Prometheus library that is modelled: the name of a metric is its
  namespace, subsystem and name joined by underscores, without the parts that are empty; and
  MustRegister panics when the name is already registered. The name replacement (strings.ReplaceAll)
  is on single characters.
\<close>

subsection \<open>Metrics and their names\<close>

record metric_desc =
  Subsystem :: string
  Name :: string
  VarLabels :: "string list"

definition prom_name :: "string \<Rightarrow> string" where
  "prom_name s = map (\<lambda>c. if c = CHR ''.'' then CHR ''_'' else c) s"

text \<open>BuildFQName of the library, and the options NewCounter and NewGauge give it.\<close>

definition BuildFQName :: "string \<Rightarrow> string \<Rightarrow> string \<Rightarrow> string" where
  "BuildFQName namespace sub name =
     (if name = '''' then '''' else Join (filter (\<lambda>p. p \<noteq> '''') [namespace, sub, name]) ''_'')"

definition ToProm :: "metric_desc \<Rightarrow> string" where
  "ToProm d = BuildFQName ''fuddle'' (Subsystem d) (prom_name (Name d))"

subsection \<open>The collector\<close>

type_synonym prom_registry = "string list"

definition MustRegister :: "string \<Rightarrow> prom_registry \<Rightarrow> prom_registry option" where
  "MustRegister name reg = (if name \<in> set reg then None else Some (reg @ [name]))"

text \<open>A new collector holds the metrics of the Go runtime, whose names the library chooses.\<close>

definition NewPromCollector :: "string list \<Rightarrow> prom_registry" where
  "NewPromCollector go_names = go_names"

definition AddGauge :: "metric_desc \<Rightarrow> prom_registry \<Rightarrow> prom_registry option" where
  "AddGauge g reg = MustRegister (ToProm g) reg"

definition AddCounter :: "metric_desc \<Rightarrow> prom_registry \<Rightarrow> prom_registry option" where
  "AddCounter c reg = MustRegister (ToProm c) reg"

subsection \<open>What each part registers\<close>

definition logger_Register :: "prom_registry \<Rightarrow> prom_registry option" where
  "logger_Register = foldM AddCounter
     [\<lparr>Subsystem = '''', Name = ''warnings'', VarLabels = [''subsystem'']\<rparr>,
      \<lparr>Subsystem = '''', Name = ''errors'', VarLabels = [''subsystem'']\<rparr>]"

definition registry_Register :: "prom_registry \<Rightarrow> prom_registry option" where
  "registry_Register = foldM AddGauge
     [\<lparr>Subsystem = ''registry'', Name = ''members.count'', VarLabels = [''status'', ''owner'']\<rparr>,
      \<lparr>Subsystem = ''registry'', Name = ''members.owned'', VarLabels = [''status'']\<rparr>]"

definition cluster_Register :: "prom_registry \<Rightarrow> prom_registry option" where
  "cluster_Register = AddGauge \<lparr>Subsystem = ''cluster'', Name = ''nodes.count'', VarLabels = []\<rparr>"

definition replica_client_Register :: "prom_registry \<Rightarrow> prom_registry option" where
  "replica_client_Register = foldM AddCounter
     [\<lparr>Subsystem = ''registry'', Name = ''replica.updates.outbound'', VarLabels = [''target'', ''status'']\<rparr>,
      \<lparr>Subsystem = ''registry'', Name = ''repair.updates.inbound'', VarLabels = [''source'', ''status'']\<rparr>]"

definition client_read_Register :: "prom_registry \<Rightarrow> prom_registry option" where
  "client_read_Register =
     AddCounter \<lparr>Subsystem = ''registry'', Name = ''updates.client.outbound'', VarLabels = []\<rparr>"

definition client_write_Register :: "prom_registry \<Rightarrow> prom_registry option" where
  "client_write_Register =
     AddCounter \<lparr>Subsystem = ''registry'', Name = ''updates.client.inbound'', VarLabels = [''updatetype'']\<rparr>"

definition replica_server_Register :: "prom_registry \<Rightarrow> prom_registry option" where
  "replica_server_Register = foldM AddCounter
     [\<lparr>Subsystem = ''registry'', Name = ''replica.updates.inbound'', VarLabels = [''source'']\<rparr>,
      \<lparr>Subsystem = ''registry'', Name = ''repair.updates.outbound'', VarLabels = [''target'']\<rparr>]"

text \<open>The parts of registry v2: the same names for the registry and the replica counters.\<close>

definition v2_registry_Register :: "prom_registry \<Rightarrow> prom_registry option" where
  "v2_registry_Register = foldM AddGauge
     [\<lparr>Subsystem = ''registry'', Name = ''members.count'', VarLabels = [''liveness'', ''service'', ''owner'']\<rparr>,
      \<lparr>Subsystem = ''registry'', Name = ''members.owned'', VarLabels = [''liveness'', ''service'']\<rparr>]"

definition v2_client_Register :: "prom_registry \<Rightarrow> prom_registry option" where
  "v2_client_Register = foldM AddCounter
     [\<lparr>Subsystem = ''registry'', Name = ''replica.updates.outbound'', VarLabels = [''target'']\<rparr>,
      \<lparr>Subsystem = ''registry'', Name = ''repair.updates.inbound'', VarLabels = [''source'']\<rparr>]"

definition v2_server_Register :: "prom_registry \<Rightarrow> prom_registry option" where
  "v2_server_Register = foldM AddCounter
     [\<lparr>Subsystem = ''registry'', Name = ''client.updates.inbound'', VarLabels = []\<rparr>,
      \<lparr>Subsystem = ''registry'', Name = ''client.updates.outbound'', VarLabels = []\<rparr>,
      \<lparr>Subsystem = ''registry'', Name = ''replica.updates.inbound'', VarLabels = [''source'']\<rparr>,
      \<lparr>Subsystem = ''registry'', Name = ''repair.updates.outbound'', VarLabels = [''target'']\<rparr>]"

text \<open>The parts of a node, in the order in which NewNode creates them.\<close>

definition node_parts :: "(prom_registry \<Rightarrow> prom_registry option) list" where
  "node_parts = [logger_Register, registry_Register, cluster_Register, replica_client_Register,
     client_read_Register, client_write_Register, replica_server_Register]"

subsection \<open>Registering\<close>

lemmas register_defs = logger_Register_def registry_Register_def cluster_Register_def
  replica_client_Register_def client_read_Register_def client_write_Register_def
  replica_server_Register_def v2_registry_Register_def v2_client_Register_def v2_server_Register_def

lemmas collector_defs = AddGauge_def AddCounter_def ToProm_def BuildFQName_def prom_name_def

text \<open>Registering a list of names: it succeeds exactly when they are new and distinct.\<close>

lemma MustRegister_all:
  "foldM MustRegister names reg =
     (if distinct names \<and> set names \<inter> set reg = {} then Some (reg @ names) else None)"
  by (induction names arbitrary: reg) (auto simp: MustRegister_def)

definition fuddle_names :: "string list" where
  "fuddle_names = [''fuddle_warnings'', ''fuddle_errors'', ''fuddle_registry_members_count'',
     ''fuddle_registry_members_owned'', ''fuddle_cluster_nodes_count'',
     ''fuddle_registry_replica_updates_outbound'', ''fuddle_registry_repair_updates_inbound'',
     ''fuddle_registry_updates_client_outbound'', ''fuddle_registry_updates_client_inbound'',
     ''fuddle_registry_replica_updates_inbound'', ''fuddle_registry_repair_updates_outbound'']"

lemma fuddle_names_distinct: "distinct fuddle_names"
  by (simp add: fuddle_names_def)

lemma node_parts_names:
  "foldM (\<lambda>part. part) node_parts reg = foldM MustRegister fuddle_names reg"
  by (simp add: node_parts_def fuddle_names_def register_defs collector_defs MustRegister_def)

lemma node_parts_register:
  assumes "set fuddle_names \<inter> set reg = {}"
  shows "foldM (\<lambda>part. part) node_parts reg = Some (reg @ fuddle_names)"
  using assms by (simp add: node_parts_names MustRegister_all fuddle_names_distinct)

end
