(* ===== verification/Gossip.thy ===== *)
theory Gossip
  imports Config
begin

text \<open>
  pkg/gossip: the transport given to the memberlist library, the delegates that pass its events on,
  and the start of gossip. The library itself is third-party code. What a socket returns
  is an argument, a goroutine that loops over a socket consumes the list of what it returns;
  durations are in nanoseconds. Handing a connection or packet to the library's channel is an
  element of the result.
\<close>

subsection \<open>Sockets\<close>

text \<open>The receive buffer is halved until the kernel accepts the size; None when it accepts none.\<close>

function try_recv_buf :: "(int \<Rightarrow> bool) \<Rightarrow> int \<Rightarrow> int option" where
  "try_recv_buf accepts bufSize =
     (if 0 < bufSize then (if accepts bufSize then Some bufSize else try_recv_buf accepts (bufSize div 2)) else None)"
  by pat_completeness auto

termination by (relation "measure (\<lambda>(_, bufSize). nat bufSize)") auto

declare try_recv_buf.simps [simp del]

definition udpRecvBufSize :: int where
  "udpRecvBufSize = 2 * 1024 * 1024"

definition setUDPRecvBuf :: "(int \<Rightarrow> bool) \<Rightarrow> int option" where
  "setUDPRecvBuf accepts = try_recv_buf accepts udpRecvBufSize"

text \<open>What AcceptTCP returns: a connection, or an error and whether the transport is shut down.\<close>

datatype 'c accepted = Conn 'c | AcceptErr bool

definition baseDelay :: int where "baseDelay = 5000000"
definition maxDelay :: int where "maxDelay = 1000000000"

definition next_delay :: "int \<Rightarrow> int" where
  "next_delay loopDelay =
     (let d = (if loopDelay = 0 then baseDelay else add64 loopDelay loopDelay)
      in if d > maxDelay then maxDelay else d)"

text \<open>The connections handed over, the delays slept, and whether the goroutine has returned.\<close>

fun tcpListen :: "int \<Rightarrow> 'c accepted list \<Rightarrow> 'c list \<times> int list \<times> bool" where
  "tcpListen loopDelay [] = ([], [], False)"
| "tcpListen loopDelay (Conn c # rs) =
     (case tcpListen 0 rs of (cs, ds, ret) \<Rightarrow> (c # cs, ds, ret))"
| "tcpListen loopDelay (AcceptErr shutdown # rs) =
     (if shutdown then ([], [], True)
      else case tcpListen (next_delay loopDelay) rs of (cs, ds, ret) \<Rightarrow> (cs, next_delay loopDelay # ds, ret))"

text \<open>What ReadFrom returns: the bytes, their sender and the time, or an error.\<close>

type_synonym packet = "8 word list \<times> string \<times> int"

datatype udp_read = Datagram packet | ReadErr bool

fun udpListen :: "udp_read list \<Rightarrow> packet list \<times> bool" where
  "udpListen [] = ([], False)"
| "udpListen (ReadErr shutdown # rs) = (if shutdown then ([], True) else udpListen rs)"
| "udpListen (Datagram p # rs) =
     (if fst p = [] then udpListen rs else case udpListen rs of (ps, ret) \<Rightarrow> (p # ps, ret))"

text \<open>A packet that arrives on a stream: the bytes read from it, or None when reading fails.\<close>

definition IngestPacket :: "8 word list option \<Rightarrow> string \<Rightarrow> int \<Rightarrow> packet option" where
  "IngestPacket read_all addr now =
     (case read_all of
        None \<Rightarrow> None
      | Some buf \<Rightarrow> if length buf < 1 then None else Some (buf, addr, now))"

subsection \<open>The transport\<close>

datatype listener = Listener nat

record transport =
  tcpListener :: "listener option"
  udpListener :: "listener option"
  shutdown_flag :: bool

text \<open>
  Shutdown closes both listeners. Close of a nil TCPListener returns an error, which is ignored; Close
  of a UDPConn is promoted from the conn embedded in it, so that calling it through a nil pointer
  panics: None.
\<close>

definition transport_Shutdown :: "transport \<Rightarrow> listener set \<Rightarrow> (transport \<times> listener set) option" where
  "transport_Shutdown t open_lns =
     (let t1 = t\<lparr>shutdown_flag := True\<rparr>;
          lns1 = open_lns - set_option (tcpListener t1)
      in case udpListener t1 of
           None \<Rightarrow> None
         | Some l \<Rightarrow> Some (t1, lns1 - {l}))"

text \<open>
  The listeners given as options, what ListenTCP and ListenUDP return, the sizes the kernel accepts
  for the buffer, and the set of open listeners. The result is None for a panic; else the transport,
  or no transport for an error, and the listeners that are open then.
\<close>

definition newTransport ::
  "listener option \<Rightarrow> listener option \<Rightarrow> listener option \<Rightarrow> listener option \<Rightarrow> (int \<Rightarrow> bool) \<Rightarrow>
     listener set \<Rightarrow> (transport option \<times> listener set) option"
where
  "newTransport opt_tcp opt_udp listenTCP listenUDP accepts lns =
     (let t = \<lparr>tcpListener = None, udpListener = None, shutdown_flag = False\<rparr>;
          failed = (\<lambda>t lns. map_option (\<lambda>(_, lns'). (None, lns')) (transport_Shutdown t lns));
          (tcp, lns1) = (case opt_tcp of Some l \<Rightarrow> (Some l, lns)
            | None \<Rightarrow> (listenTCP, lns \<union> set_option listenTCP))
      in case tcp of
           None \<Rightarrow> failed t lns1
         | Some tcpLn \<Rightarrow>
             let t1 = t\<lparr>tcpListener := Some tcpLn\<rparr>
             in (case opt_udp of
                   Some l \<Rightarrow> Some (Some (t1\<lparr>udpListener := Some l\<rparr>), lns1)
                 | None \<Rightarrow>
                     (case listenUDP of
                        None \<Rightarrow> failed t1 lns1
                      | Some udpLn \<Rightarrow>
                          if setUDPRecvBuf accepts = None then failed t1 (insert udpLn lns1)
                          else Some (Some (t1\<lparr>udpListener := Some udpLn\<rparr>), insert udpLn lns1))))"

text \<open>
  The address advertised: parsing (with the conversion to four bytes) and the search for a private
  address are library calls.
\<close>

definition FinalAdvertiseAddr ::
  "(string \<Rightarrow> 8 word list option) \<Rightarrow> string option \<Rightarrow> int \<Rightarrow> string \<Rightarrow> int \<Rightarrow> (8 word list \<times> int) option"
where
  "FinalAdvertiseAddr parseIP privateIP boundPort ip port =
     (if ip \<noteq> '''' then map_option (\<lambda>a. (a, port)) (parseIP ip)
      else case privateIP of
             None \<Rightarrow> None
           | Some pip \<Rightarrow> if pip = '''' then None else map_option (\<lambda>a. (a, boundPort)) (parseIP pip))"

subsection \<open>Sending\<close>

text \<open>
  A peer of the library: an address and a name. Resolving an address, writing to the UDP socket and
  dialling are calls of the net package; \<open>now\<close> is the time at which a write comes back. Nothing is
  written, and the time is zero, when the address does not resolve.
\<close>

record gossip_address =
  ga_Addr :: string
  ga_Name :: string

definition WriteToAddress ::
  "(string \<Rightarrow> 'e + 'a) \<Rightarrow> (listener option \<Rightarrow> 'a \<Rightarrow> 8 word list \<Rightarrow> 'e option) \<Rightarrow> int \<Rightarrow> transport \<Rightarrow>
     8 word list \<Rightarrow> gossip_address \<Rightarrow> int option \<times> 'e option"
where
  "WriteToAddress resolveUDP write now t b a =
     (case resolveUDP (ga_Addr a) of
        Inl err \<Rightarrow> (None, Some err)
      | Inr udpAddr \<Rightarrow> (Some now, write (udpListener t) udpAddr b))"

definition WriteTo ::
  "(string \<Rightarrow> 'e + 'a) \<Rightarrow> (listener option \<Rightarrow> 'a \<Rightarrow> 8 word list \<Rightarrow> 'e option) \<Rightarrow> int \<Rightarrow> transport \<Rightarrow>
     8 word list \<Rightarrow> string \<Rightarrow> int option \<times> 'e option"
where
  "WriteTo resolveUDP write now t b addr = WriteToAddress resolveUDP write now t b \<lparr>ga_Addr = addr, ga_Name = ''''\<rparr>"

definition DialAddressTimeout :: "(int \<Rightarrow> string \<Rightarrow> 'e + 'c) \<Rightarrow> gossip_address \<Rightarrow> int \<Rightarrow> 'e + 'c" where
  "DialAddressTimeout dialTCP a timeout = dialTCP timeout (ga_Addr a)"

definition DialTimeout :: "(int \<Rightarrow> string \<Rightarrow> 'e + 'c) \<Rightarrow> string \<Rightarrow> int \<Rightarrow> 'e + 'c" where
  "DialTimeout dialTCP addr timeout = DialAddressTimeout dialTCP \<lparr>ga_Addr = addr, ga_Name = ''''\<rparr> timeout"

text \<open>A stream handed in goes to the channel that tcpListen feeds.\<close>

definition IngestStream :: "'c \<Rightarrow> 'c list \<Rightarrow> 'c list" where
  "IngestStream conn streams = streams @ [conn]"

text \<open>The port the kernel gave to the TCP listener; asking a listener that was never set panics.\<close>

definition GetAutoBindPort :: "(listener \<Rightarrow> int) \<Rightarrow> transport \<Rightarrow> int option" where
  "GetAutoBindPort port t = map_option port (tcpListener t)"

subsection \<open>Events\<close>

text \<open>A node of the library: its name and its metadata, the RPC address.\<close>

record gossip_node =
  gn_ID :: string
  gn_RPCAddr :: string

record memberlist_node =
  ml_Name :: string
  ml_Meta :: string

definition event_node :: "memberlist_node \<Rightarrow> gossip_node" where
  "event_node n = \<lparr>gn_ID = ml_Name n, gn_RPCAddr = ml_Meta n\<rparr>"

definition NotifyJoin :: "(gossip_node \<Rightarrow> 's \<Rightarrow> 's) option \<Rightarrow> memberlist_node \<Rightarrow> 's \<Rightarrow> 's" where
  "NotifyJoin onJoin n s = (case onJoin of None \<Rightarrow> s | Some f \<Rightarrow> f (event_node n) s)"

definition NotifyLeave :: "(gossip_node \<Rightarrow> 's \<Rightarrow> 's) option \<Rightarrow> memberlist_node \<Rightarrow> 's \<Rightarrow> 's" where
  "NotifyLeave onLeave n s = (case onLeave of None \<Rightarrow> s | Some f \<Rightarrow> f (event_node n) s)"

definition NotifyUpdate :: "memberlist_node \<Rightarrow> 's \<Rightarrow> 's" where
  "NotifyUpdate n s = s"

text \<open>The metadata a node gossips: the RPC address it advertises.\<close>

definition gossip_meta :: "config \<Rightarrow> string" where
  "gossip_meta conf = host_port (rpc_AdvAddr (RPC conf)) (rpc_AdvPort (RPC conf))"

definition gossip_Nodes :: "memberlist_node list \<Rightarrow> string set" where
  "gossip_Nodes ms = set (map ml_Name ms)"


subsection \<open>Starting gossip\<close>

record ('j, 'l) gossip_options =
  gopt_onJoin :: "'j option"
  gopt_onLeave :: "'l option"
  gopt_tcpListener :: "listener option"
  gopt_udpListener :: "listener option"

definition gossip_defaultOptions :: "('j, 'l) gossip_options" where
  "gossip_defaultOptions = \<lparr>gopt_onJoin = None, gopt_onLeave = None, gopt_tcpListener = None, gopt_udpListener = None\<rparr>"

datatype ('j, 'l) gossip_option =
  Gossip_WithOnJoin 'j | Gossip_WithOnLeave 'l | Gossip_WithTCPListener "listener option"
| Gossip_WithUDPListener "listener option" | Gossip_WithLogger

fun apply_gossip_option :: "('j, 'l) gossip_option \<Rightarrow> ('j, 'l) gossip_options \<Rightarrow> ('j, 'l) gossip_options" where
  "apply_gossip_option (Gossip_WithOnJoin cb) o' = o'\<lparr>gopt_onJoin := Some cb\<rparr>"
| "apply_gossip_option (Gossip_WithOnLeave cb) o' = o'\<lparr>gopt_onLeave := Some cb\<rparr>"
| "apply_gossip_option (Gossip_WithTCPListener ln) o' = o'\<lparr>gopt_tcpListener := ln\<rparr>"
| "apply_gossip_option (Gossip_WithUDPListener ln) o' = o'\<lparr>gopt_udpListener := ln\<rparr>"
| "apply_gossip_option Gossip_WithLogger o' = o'"

text \<open>The delegate of the library: the metadata of the node, and nothing to broadcast or merge.\<close>

record delegate =
  delegate_state :: string

definition NodeMeta :: "delegate \<Rightarrow> int \<Rightarrow> string" where
  "NodeMeta d limit = delegate_state d"

definition GetBroadcasts :: "delegate \<Rightarrow> int \<Rightarrow> int \<Rightarrow> string list" where
  "GetBroadcasts d overhead limit = []"

definition LocalState :: "delegate \<Rightarrow> bool \<Rightarrow> string" where
  "LocalState d join = []"

text \<open>What is set of the configuration of the library; the rest is its default for a LAN.\<close>

record ('j, 'l) memberlist_config =
  mc_Name :: string
  mc_BindAddr :: string
  mc_BindPort :: int
  mc_AdvertiseAddr :: string
  mc_AdvertisePort :: int
  mc_SuspicionMult :: int
  mc_Transport :: transport
  mc_Delegate :: delegate
  mc_Events :: "'j option \<times> 'l option"

text \<open>
  What the environment answers: what ListenTCP and ListenUDP return, the buffer sizes the kernel
  accepts, whether Create accepts the configuration and whether Join reaches a seed.
\<close>

record ('j, 'l) gossip_env =
  ge_listenTCP :: "listener option"
  ge_listenUDP :: "listener option"
  ge_accepts :: "int \<Rightarrow> bool"
  ge_create :: "('j, 'l) memberlist_config \<Rightarrow> bool"
  ge_join :: "string list \<Rightarrow> bool"

datatype gossip_error = TransportFailed | CreateFailed | JoinFailed

text \<open>
  The result, whether a memberlist runs, and the listeners that are open; None when it panics.
\<close>

definition NewGossip ::
  "config \<Rightarrow> ('j, 'l) gossip_option list \<Rightarrow> ('j, 'l) gossip_env \<Rightarrow> listener set \<Rightarrow>
     ((gossip_error + ('j, 'l) memberlist_config) \<times> bool \<times> listener set) option"
where
  "NewGossip conf opts env lns =
     (let options = fold apply_gossip_option opts gossip_defaultOptions
      in case newTransport (gopt_tcpListener options) (gopt_udpListener options)
             (ge_listenTCP env) (ge_listenUDP env) (ge_accepts env) lns of
           None \<Rightarrow> None
         | Some (None, lns1) \<Rightarrow> Some (Inl TransportFailed, False, lns1)
         | Some (Some t, lns1) \<Rightarrow>
             let memberlistConf = \<lparr>mc_Name = NodeID conf,
                   mc_BindAddr = gossip_BindAddr (Gossip conf), mc_BindPort = gossip_BindPort (Gossip conf),
                   mc_AdvertiseAddr = gossip_AdvAddr (Gossip conf), mc_AdvertisePort = gossip_AdvPort (Gossip conf),
                   mc_SuspicionMult = 3, mc_Transport = t,
                   mc_Delegate = \<lparr>delegate_state = gossip_meta conf\<rparr>,
                   mc_Events = (gopt_onJoin options, gopt_onLeave options)\<rparr>
             in if \<not> ge_create env memberlistConf then Some (Inl CreateFailed, False, lns1)
                else if gossip_Seeds (Gossip conf) \<noteq> [] \<and> \<not> ge_join env (gossip_Seeds (Gossip conf))
                then Some (Inl JoinFailed, True, lns1)
                else Some (Inr memberlistConf, True, lns1))"


text \<open>
  Shutdown: the lines it logs and whether the memberlist still runs. The node leaves with a second to
  tell the others; a failure of that is logged, and it stops all the same.
\<close>

definition gossip_Shutdown :: "bool \<Rightarrow> string list \<times> bool" where
  "gossip_Shutdown leave_ok =
     ([''gossip shutdown''] @ (if leave_ok then [] else [''failed to leave gossip'']), False)"

subsection \<open>Properties\<close>

text \<open>The sizes tried, from 2 MiB down to one byte.\<close>

definition buffer_sizes :: "int list" where
  "buffer_sizes = map (\<lambda>k. 2 ^ (21 - k)) [0..<22]"

lemma try_recv_buf_powers:
  "try_recv_buf accepts (2 ^ n) = find accepts (map (\<lambda>k. 2 ^ (n - k)) [0..<Suc n])"
proof (induction n)
  case 0
  then show ?case by (simp add: try_recv_buf.simps [of _ 1] try_recv_buf.simps [of _ 0])
next
  case (Suc n)
  have "map (\<lambda>k. (2 :: int) ^ (Suc n - k)) [0..<Suc (Suc n)] = 2 ^ Suc n # map (\<lambda>k. 2 ^ (n - k)) [0..<Suc n]"
    by (simp add: upt_conv_Cons map_Suc_upt [symmetric] del: upt_Suc power_Suc)
  moreover have "try_recv_buf accepts (2 ^ Suc n) =
      (if accepts (2 ^ Suc n) then Some (2 ^ Suc n) else try_recv_buf accepts (2 ^ n))"
    by (subst try_recv_buf.simps) simp
  ultimately show ?case by (simp add: Suc.IH del: upt_Suc power_Suc)
qed

text \<open>
  Sizing the receive buffer always ends, after at most 22 tries: it settles on the largest of the
  sizes 2^21, 2^20, ..., 1 that the kernel accepts, and fails exactly when it accepts none.
\<close>
theorem setUDPRecvBuf_largest:
  "setUDPRecvBuf accepts = find accepts buffer_sizes \<and> length buffer_sizes = 22"
  using try_recv_buf_powers [of accepts 21]
  by (simp add: setUDPRecvBuf_def udpRecvBufSize_def buffer_sizes_def del: upt_Suc)

definition delay_after :: "nat \<Rightarrow> int" where
  "delay_after k = min (baseDelay * 2 ^ k) maxDelay"

lemma next_delay_zero: "next_delay 0 = delay_after 0"
  by (simp add: next_delay_def delay_after_def baseDelay_def maxDelay_def)

lemma next_delay_after: "next_delay (delay_after k) = delay_after (Suc k)"
proof -
  have p: "(1 :: int) \<le> 2 ^ k" by simp
  have d: "0 < delay_after k" "delay_after k \<le> maxDelay"
    using p by (auto simp: delay_after_def baseDelay_def maxDelay_def min_def)
  then have "add64 (delay_after k) (delay_after k) = 2 * delay_after k"
    by (simp add: add64_exact in_int64_def maxDelay_def)
  then show ?thesis
    using d p by (auto simp: next_delay_def delay_after_def baseDelay_def maxDelay_def min_def)
qed

lemma tcpListen_errors:
  "tcpListen (delay_after k) (replicate n (AcceptErr False) @ rs) =
     (case tcpListen (delay_after (k + n)) rs of
        (cs, ds, ret) \<Rightarrow> (cs, map delay_after [Suc k..<Suc (k + n)] @ ds, ret))"
proof (induction n arbitrary: k)
  case 0
  then show ?case by (simp split: prod.split)
next
  case (Suc n)
  have "[Suc k..<Suc (k + Suc n)] = Suc k # [Suc (Suc k)..<Suc (Suc k + n)]"
    by (simp add: upt_conv_Cons del: upt_Suc)
  then show ?case
    using Suc.IH [of "Suc k"] by (simp add: next_delay_after split: prod.split del: upt_Suc)
qed

lemma tcpListen_after_conn:
  assumes "n \<noteq> 0"
  shows "tcpListen 0 (replicate n (AcceptErr False) @ rs) =
     (case tcpListen (delay_after (n - 1)) rs of
        (cs, ds, ret) \<Rightarrow> (cs, map delay_after [0..<n] @ ds, ret))"
proof -
  obtain k where n: "n = Suc k" using assms by (cases n) auto
  have "map delay_after [0..<n] = delay_after 0 # map delay_after [Suc 0..<Suc k]"
    by (simp add: n upt_conv_Cons del: upt_Suc)
  then show ?thesis
    using tcpListen_errors [of 0 k rs] by (simp add: n next_delay_zero split: prod.split del: upt_Suc)
qed

lemma tcpListen_bounds:
  "loopDelay = 0 \<or> (\<exists>k. loopDelay = delay_after k) \<Longrightarrow> tcpListen loopDelay rs = (cs, ds, ret) \<Longrightarrow>
     (\<forall>d \<in> set ds. baseDelay \<le> d \<and> d \<le> maxDelay) \<and>
     cs = List.map_filter (\<lambda>r. case r of Conn c \<Rightarrow> Some c | _ \<Rightarrow> None) (takeWhile (\<lambda>r. r \<noteq> AcceptErr True) rs) \<and>
     (ret \<longleftrightarrow> AcceptErr True \<in> set rs)"
proof (induction rs arbitrary: loopDelay cs ds ret)
  case Nil
  then show ?case by simp
next
  case (Cons r rs)
  show ?case
  proof (cases r)
    case (Conn c)
    obtain cs' where t: "tcpListen 0 rs = (cs', ds, ret)" "cs = c # cs'"
      using Cons.prems(2) Conn by (auto split: prod.splits)
    then show ?thesis using Cons.IH [OF _ t(1)] Conn by simp
  next
    case (AcceptErr shutdown)
    show ?thesis
    proof (cases shutdown)
      case True
      then show ?thesis using Cons.prems(2) AcceptErr by simp
    next
      case False
      obtain k where k: "next_delay loopDelay = delay_after k"
        using Cons.prems(1) next_delay_zero next_delay_after by blast
      obtain ds' where t: "tcpListen (delay_after k) rs = (cs, ds', ret)" "ds = delay_after k # ds'"
        using Cons.prems(2) AcceptErr False k by (auto split: prod.splits)
      have "(1 :: int) \<le> 2 ^ k" by simp
      then have "baseDelay \<le> delay_after k \<and> delay_after k \<le> maxDelay"
        by (auto simp: delay_after_def baseDelay_def maxDelay_def min_def)
      then show ?thesis using Cons.IH [OF _ t(1)] AcceptErr False t(2) by auto
    qed
  qed
qed

text \<open>
  C36: the accept loop backs off and never spins. In a run of failures after a connection (or at the
  start) the k-th sleep is 5 ms doubled k times but at most a second; every sleep of every run lies
  between the two; every connection accepted before the shutdown is handed over, in order; and the
  loop returns exactly when an error finds the transport shut down.
\<close>
theorem tcpListen_backoff:
  assumes "tcpListen 0 rs = (cs, ds, ret)"
  shows "(\<forall>d \<in> set ds. baseDelay \<le> d \<and> d \<le> maxDelay) \<and>
    (\<forall>n rest. rs = replicate n (AcceptErr False) @ rest \<longrightarrow>
       take n ds = map (\<lambda>k. min (baseDelay * 2 ^ k) maxDelay) [0..<n]) \<and>
    cs = List.map_filter (\<lambda>r. case r of Conn c \<Rightarrow> Some c | _ \<Rightarrow> None) (takeWhile (\<lambda>r. r \<noteq> AcceptErr True) rs) \<and>
    (ret \<longleftrightarrow> AcceptErr True \<in> set rs)"
proof -
  have "take n ds = map delay_after [0..<n]" if rs: "rs = replicate n (AcceptErr False) @ rest" for n rest
  proof (cases "n = 0")
    case False
    obtain ds' where "ds = map delay_after [0..<n] @ ds'"
      using assms tcpListen_after_conn [OF False, of rest] unfolding rs by (auto split: prod.splits)
    then show ?thesis by simp
  qed simp
  then show ?thesis using tcpListen_bounds [OF _ assms] by (simp add: delay_after_def)
qed

theorem tcpListen_backoff_witness:
  "case tcpListen 0 (replicate 9 (AcceptErr False) @ [Conn (7 :: nat), AcceptErr True]) of
     (cs, ds, ret) \<Rightarrow> cs = [7] \<and> ret \<and> take 9 ds ! 8 = 1000000000"
proof -
  obtain cs ds ret where t: "tcpListen 0 (replicate 9 (AcceptErr False) @ [Conn (7 :: nat), AcceptErr True]) = (cs, ds, ret)"
    using prod_cases3 by blast
  note b = tcpListen_backoff [OF t]
  have "take 9 ds = map (\<lambda>k. min (baseDelay * 2 ^ k) maxDelay) [0..<9]" using b by blast
  then have "take 9 ds ! 8 = 1000000000" by (simp add: baseDelay_def maxDelay_def)
  moreover have "cs = [7] \<and> ret" using b by (simp add: numeral_eq_Suc)
  ultimately show ?thesis using t by simp
qed

subsection \<open>What starting gossip leaves open\<close>

text \<open>The listeners the transport ends up with, or that it cannot get one of them.\<close>

definition transport_lns ::
  "listener option \<Rightarrow> listener option \<Rightarrow> listener option \<Rightarrow> listener option \<Rightarrow> (int \<Rightarrow> bool) \<Rightarrow>
     (listener \<times> listener) option"
where
  "transport_lns opt_tcp opt_udp listenTCP listenUDP accepts =
     (let tcp = (case opt_tcp of None \<Rightarrow> listenTCP | Some l \<Rightarrow> Some l);
          udp = (case opt_udp of Some l \<Rightarrow> Some l
            | None \<Rightarrow> if \<exists>k \<le> 21. accepts (2 ^ k) then listenUDP else None)
      in case (tcp, udp) of (Some l, Some u) \<Rightarrow> Some (l, u) | _ \<Rightarrow> None)"

lemma buffer_set_iff: "setUDPRecvBuf accepts \<noteq> None \<longleftrightarrow> (\<exists>k \<le> 21. accepts (2 ^ k))"
proof -
  have "setUDPRecvBuf accepts \<noteq> None \<longleftrightarrow> (\<exists>x \<in> set (map (\<lambda>k. 2 ^ (21 - k)) [0..<22]). accepts x)"
    using try_recv_buf_powers [of accepts 21]
    by (auto simp: setUDPRecvBuf_def udpRecvBufSize_def find_None_iff simp del: upt_Suc)
  also have "\<dots> \<longleftrightarrow> (\<exists>j < 22. accepts (2 ^ (21 - j)))" by (auto simp del: upt_Suc)
  also have "\<dots> \<longleftrightarrow> (\<exists>k \<le> 21. accepts (2 ^ k))"
  proof
    assume "\<exists>k \<le> 21. accepts (2 ^ k)"
    then obtain k where "k \<le> 21" "accepts (2 ^ k)" by blast
    then show "\<exists>j < 22. accepts (2 ^ (21 - j))" by (intro exI [of _ "21 - k"]) auto
  qed (metis diff_le_self)
  finally show ?thesis .
qed

text \<open>A transport that cannot get a listener panics in its clean-up; it never returns an error.\<close>

lemma newTransport_eq:
  "newTransport opt_tcp opt_udp listenTCP listenUDP accepts lns =
     map_option (\<lambda>(l, u). (Some \<lparr>tcpListener = Some l, udpListener = Some u, shutdown_flag = False\<rparr>,
         (if opt_udp = None then {u} else {}) \<union> (if opt_tcp = None then {l} else {}) \<union> lns))
       (transport_lns opt_tcp opt_udp listenTCP listenUDP accepts)"
  using buffer_set_iff [of accepts]
  by (auto simp: newTransport_def transport_lns_def transport_Shutdown_def Let_def split: option.splits)

lemma NewGossip_starts:
  assumes "ge_listenTCP env = Some l" and "ge_listenUDP env = Some u" and "\<And>n. ge_accepts env n"
    and "\<And>mc. ge_create env mc" and "\<And>seeds. ge_join env seeds"
  shows "\<exists>mc lns'. NewGossip conf opts env lns = Some (Inr mc, True, lns')"
proof -
  let ?o = "fold apply_gossip_option opts gossip_defaultOptions"
  have "transport_lns (gopt_tcpListener ?o) (gopt_udpListener ?o) (ge_listenTCP env) (ge_listenUDP env)
      (ge_accepts env) \<noteq> None"
    using assms(1,2,3) by (auto simp: transport_lns_def split: option.splits)
  then obtain a b where "transport_lns (gopt_tcpListener ?o) (gopt_udpListener ?o) (ge_listenTCP env)
      (ge_listenUDP env) (ge_accepts env) = Some (a, b)" by (metis not_None_eq surj_pair)
  then show ?thesis using assms(4,5) by (simp add: NewGossip_def newTransport_eq Let_def)
qed

text \<open>
  What a node holds after gossip has started or failed to, when it opens its own sockets. If one
  cannot be opened, or no size is accepted for the buffer of the UDP socket, the start panics. A success
  leaves both sockets open and the memberlist running under the id of the node, with the RPC
  address it advertises as metadata, and joined if there are seeds. After a failed Create both
  sockets are open; after a failed join the memberlist goes on running. The error of a failed
  transport is never returned.
\<close>
theorem NewGossip_leaves:
  assumes "gopt_tcpListener (fold apply_gossip_option opts gossip_defaultOptions) = None"
    and "gopt_udpListener (fold apply_gossip_option opts gossip_defaultOptions) = None"
  shows "case NewGossip conf opts env lns of
      None \<Rightarrow> ge_listenTCP env = None \<or> ge_listenUDP env = None \<or> (\<forall>k \<le> 21. \<not> ge_accepts env (2 ^ k))
    | Some (res, up, lns') \<Rightarrow>
        lns' = set_option (ge_listenTCP env) \<union> set_option (ge_listenUDP env) \<union> lns \<and>
        ge_listenTCP env \<noteq> None \<and> ge_listenUDP env \<noteq> None \<and>
        (case res of
           Inl TransportFailed \<Rightarrow> False
         | Inl CreateFailed \<Rightarrow> \<not> up
         | Inl JoinFailed \<Rightarrow> up \<and> gossip_Seeds (Gossip conf) \<noteq> []
         | Inr mc \<Rightarrow> up \<and> mc_Name mc = NodeID conf \<and>
             NodeMeta (mc_Delegate mc) limit = rpc_JoinAdvAddr (RPC conf) \<and>
             (gossip_Seeds (Gossip conf) = [] \<or> ge_join env (gossip_Seeds (Gossip conf))))"
  using assms
  by (auto simp: NewGossip_def newTransport_eq transport_lns_def Let_def NodeMeta_def gossip_meta_def
      rpc_JoinAdvAddr_def split: option.splits)

theorem NewGossip_leaves_witness:
  "NewGossip (DefaultConfig ''01234567'') []
     \<lparr>ge_listenTCP = Some (Listener 1), ge_listenUDP = Some (Listener 2), ge_accepts = (\<lambda>_. False),
       ge_create = (\<lambda>_. True), ge_join = (\<lambda>_. True)\<rparr> {} =
     (None :: ((gossip_error + (unit, unit) memberlist_config) \<times> bool \<times> listener set) option) \<and>
   (\<exists>mc. NewGossip (DefaultConfig ''01234567'') []
     \<lparr>ge_listenTCP = Some (Listener 1), ge_listenUDP = Some (Listener 2), ge_accepts = (\<lambda>_. True),
       ge_create = (\<lambda>_. True), ge_join = (\<lambda>_. True)\<rparr> {} =
     Some (Inr (mc :: (unit, unit) memberlist_config), True, {Listener 1, Listener 2}) \<and>
     mc_Name mc = ''fuddle-01234567'')"
proof -
  let ?env = "\<lambda>a. \<lparr>ge_listenTCP = Some (Listener 1), ge_listenUDP = Some (Listener 2), ge_accepts = (\<lambda>_. a),
       ge_create = (\<lambda>_. True), ge_join = (\<lambda>_. True)\<rparr> :: (unit, unit) gossip_env"
  let ?c = "DefaultConfig ''01234567''"
  have "NewGossip ?c [] (?env False) {} = None"
    by (simp add: NewGossip_def newTransport_eq transport_lns_def gossip_defaultOptions_def Let_def)
  moreover obtain mc lns where g: "NewGossip ?c [] (?env True) {} = Some (Inr mc, True, lns)"
    using NewGossip_starts [where env = "?env True" and l = "Listener 1" and u = "Listener 2" and opts = "[]"
      and conf = ?c and lns = "{}"] by auto
  moreover have "lns = {Listener 1, Listener 2} \<and> mc_Name mc = ''fuddle-01234567''"
    using NewGossip_leaves [where opts = "[]" and conf = ?c and env = "?env True" and lns = "{}"] g
    by (auto simp: gossip_defaultOptions_def DefaultConfig_def)
  ultimately show ?thesis by blast
qed

end
