(* ===== verification/Servers.thy ===== *)
theory Servers
  imports Collector LoggerMetrics Gossip
begin

text \<open>
  The parts of a node that face the outside: the set-up of its logger (pkg/logger), the HTTP server of
  its metrics (pkg/admin/server) and its gRPC server (pkg/server). The zap, HTTP and gRPC libraries are third-party code: a server is what it was given. A listener that
  net.ListenTCP could not open is the nil pointer it returns beside the error, and asking a nil
  pointer for its address panics. A result of None is a panic, Inl is an error returned.
\<close>

subsection \<open>The logger\<close>

record logger_options =
  lopt_level :: level
  lopt_path :: string
  lopt_collector :: bool

definition logger_defaultOptions :: logger_options where
  "logger_defaultOptions = \<lparr>lopt_level = InfoLevel, lopt_path = '''', lopt_collector = False\<rparr>"

datatype logger_option = Log_WithLevel level | Log_WithPath string | Log_WithCollector bool

fun apply_logger_option :: "logger_option \<Rightarrow> logger_options \<Rightarrow> logger_options" where
  "apply_logger_option (Log_WithLevel l) o' = o'\<lparr>lopt_level := l\<rparr>"
| "apply_logger_option (Log_WithPath p) o' = o'\<lparr>lopt_path := p\<rparr>"
| "apply_logger_option (Log_WithCollector c) o' = o'\<lparr>lopt_collector := c\<rparr>"

text \<open>
  Whether zap can open the outputs of its configuration, which are the given path or the standard
  error output. The metrics are registered before the logger is built.
\<close>

definition NewLogger ::
  "(string list \<Rightarrow> bool) \<Rightarrow> logger_option list \<Rightarrow> prom_registry \<Rightarrow>
     ((unit + metricsCore) \<times> prom_registry) option"
where
  "NewLogger builds opts reg =
     (let options = fold apply_logger_option opts logger_defaultOptions;
          paths = (if lopt_path options \<noteq> '''' then [lopt_path options] else [''stderr''])
      in case (if lopt_collector options then logger_Register reg else Some reg) of
           None \<Rightarrow> None
         | Some reg1 \<Rightarrow>
             Some (if builds paths
               then Inr (newMetricsCore NewLogMetrics
                 \<lparr>core_level = lopt_level options, core_fields = [], written = []\<rparr>)
               else Inl (), reg1))"

subsection \<open>Listeners\<close>

text \<open>
  The operating system: the text of the address of an open listener, what ListenTCP returns for an
  IP address (none: every address of the host) and a port, and net.ParseIP.
\<close>

record os_net =
  addr_text :: "listener \<Rightarrow> string"
  listenTCP :: "8 word list option \<Rightarrow> int \<Rightarrow> listener option"
  ParseIP :: "string \<Rightarrow> 8 word list option"

definition Addr :: "os_net \<Rightarrow> listener option \<Rightarrow> string option" where
  "Addr os ln = map_option (addr_text os) ln"

subsection \<open>The admin server\<close>

text \<open>The collector is shared: an option says whether one is given, not what it holds at the time.\<close>

record admin_options =
  admin_listener :: "listener option"
  admin_collector :: bool

definition admin_defaultOptions :: admin_options where
  "admin_defaultOptions = \<lparr>admin_listener = None, admin_collector = False\<rparr>"

datatype admin_option =
  Admin_WithListener "listener option" | Admin_WithCollector bool | Admin_WithLogger

fun apply_admin_option :: "admin_option \<Rightarrow> admin_options \<Rightarrow> admin_options" where
  "apply_admin_option (Admin_WithListener ln) o' = o'\<lparr>admin_listener := ln\<rparr>"
| "apply_admin_option (Admin_WithCollector c) o' = o'\<lparr>admin_collector := c\<rparr>"
| "apply_admin_option Admin_WithLogger o' = o'"

text \<open>The routes it answers, its address and the listener it serves.\<close>

record admin_server =
  admin_routes :: "string list"
  admin_addr :: string
  admin_serving :: "listener option"

definition admin_NewServer ::
  "os_net \<Rightarrow> config \<Rightarrow> admin_option list \<Rightarrow> (unit + admin_server) option"
where
  "admin_NewServer os conf opts =
     (let options = fold apply_admin_option opts admin_defaultOptions;
          mux = (if admin_collector options then [''/metrics''] else []);
          serve = (\<lambda>ln. case Addr os ln of
              None \<Rightarrow> None
            | Some addr \<Rightarrow> Some (Inr \<lparr>admin_routes = mux, admin_addr = addr, admin_serving = ln\<rparr>))
      in case admin_listener options of
           Some ln \<Rightarrow> serve (Some ln)
         | None \<Rightarrow>
             let ip = ParseIP os (admin_BindAddr (Admin conf));
                 ln = listenTCP os ip (admin_BindPort (Admin conf))
             in if ln = None
                then (case Addr os ln of None \<Rightarrow> None | Some addr \<Rightarrow> Some (Inl ()))
                else serve ln)"

text \<open>A request: the metrics the collector holds then, or not found.\<close>

definition admin_Get :: "string \<Rightarrow> prom_registry \<Rightarrow> admin_server \<Rightarrow> prom_registry option" where
  "admin_Get path reg s = (if path \<in> set (admin_routes s) then Some reg else None)"

definition admin_Shutdown :: "admin_server \<Rightarrow> admin_server" where
  "admin_Shutdown s = s\<lparr>admin_serving := None\<rparr>"

subsection \<open>The RPC server\<close>

record rpc_server =
  rpc_conf :: config
  rpc_ln :: "listener option"
  rpc_serving :: "listener option"

datatype rpc_option = Rpc_WithListener "listener option" | Rpc_WithLogger

fun apply_rpc_option :: "rpc_option \<Rightarrow> listener option \<Rightarrow> listener option" where
  "apply_rpc_option (Rpc_WithListener ln) o' = ln"
| "apply_rpc_option Rpc_WithLogger o' = o'"

definition rpc_NewServer :: "config \<Rightarrow> rpc_option list \<Rightarrow> rpc_server" where
  "rpc_NewServer conf opts =
     \<lparr>rpc_conf = conf, rpc_ln = fold apply_rpc_option opts None, rpc_serving = None\<rparr>"

definition Serve :: "os_net \<Rightarrow> rpc_server \<Rightarrow> (unit + rpc_server) option" where
  "Serve os s =
     (let start = (\<lambda>ln. case Addr os ln of
            None \<Rightarrow> None | Some addr \<Rightarrow> Some (Inr (s\<lparr>rpc_serving := ln\<rparr>)))
      in case rpc_ln s of
           Some ln \<Rightarrow> start (Some ln)
         | None \<Rightarrow>
             let ip = ParseIP os (rpc_BindAddr (RPC (rpc_conf s)));
                 ln = listenTCP os ip (rpc_BindPort (RPC (rpc_conf s)))
             in if ln = None
                then (case Addr os ln of None \<Rightarrow> None | Some addr \<Rightarrow> Some (Inl ()))
                else start ln)"

definition rpc_Shutdown :: "rpc_server \<Rightarrow> rpc_server" where
  "rpc_Shutdown s = s\<lparr>rpc_serving := None\<rparr>"

subsection \<open>What starting a server can end in\<close>

lemma admin_NewServer_result:
  "admin_NewServer os conf opts =
     (let o' = fold apply_admin_option opts admin_defaultOptions;
          ln = (case admin_listener o' of Some l \<Rightarrow> Some l
            | None \<Rightarrow> listenTCP os (ParseIP os (admin_BindAddr (Admin conf))) (admin_BindPort (Admin conf)))
      in map_option (\<lambda>l. Inr \<lparr>admin_routes = (if admin_collector o' then [''/metrics''] else []),
           admin_addr = addr_text os l, admin_serving = Some l\<rparr>) ln)"
  by (auto simp: admin_NewServer_def Addr_def Let_def split: option.split)

lemma Serve_result:
  "Serve os s =
     map_option (\<lambda>l. Inr (s\<lparr>rpc_serving := Some l\<rparr>))
       (case rpc_ln s of Some l \<Rightarrow> Some l
        | None \<Rightarrow> listenTCP os (ParseIP os (rpc_BindAddr (RPC (rpc_conf s)))) (rpc_BindPort (RPC (rpc_conf s))))"
  by (auto simp: Serve_def Addr_def Let_def split: option.split)

text \<open>
  The two servers never return the error they promise: each starts on the listener it was given, or
  else on the one it opens, and panics when it cannot open one, because it asks the nil listener
  for its address in order to log it.
\<close>
theorem servers_bind_failure:
  "admin_NewServer os conf opts \<noteq> Some (Inl ()) \<and> Serve os s \<noteq> Some (Inl ()) \<and>
   (admin_NewServer os conf opts = None \<longleftrightarrow>
      admin_listener (fold apply_admin_option opts admin_defaultOptions) = None \<and>
      listenTCP os (ParseIP os (admin_BindAddr (Admin conf))) (admin_BindPort (Admin conf)) = None) \<and>
   (Serve os s = None \<longleftrightarrow> rpc_ln s = None \<and>
      listenTCP os (ParseIP os (rpc_BindAddr (RPC (rpc_conf s)))) (rpc_BindPort (RPC (rpc_conf s))) = None)"
  by (auto simp: admin_NewServer_result Serve_result Let_def split: option.split)

end
