(* ===== verification/Node.thy ===== *)
theory Node
  imports Replication Servers
begin

text \<open>
  pkg/node/node.go: a node is a registry, the cluster of its peers, and the loops that drive them.
  The local subscription hands every update of a member the node owns to the cluster, which queues
  it for every peer; gossip events about other nodes add and remove peers; two tickers run the
  failure detector and the replica repair; the RPC server calls the registry. The callback of the
  local subscription runs inside the registry operation: a step is the operation followed by the
  delivery of what it notified, in order.
\<close>

subsection \<open>Setting up\<close>

record node =
  nodeConfig :: config
  nodeRegistry :: registry
  nodeCluster :: cluster
  localSub :: nat
  nodeGossip :: bool
  nodeRPC :: rpc_server
  nodeAdmin :: admin_server

text \<open>Go's Duration.Milliseconds: nanoseconds to milliseconds, towards zero.\<close>

definition Milliseconds :: "int \<Rightarrow> int" where
  "Milliseconds d = (if d < 0 then - ((- d) div 1000000) else d div 1000000)"

definition node_member :: "config \<Rightarrow> int \<Rightarrow> member_state" where
  "node_member conf started = \<lparr>MemberId = NodeID conf, Status = ''active'', Service = ''fuddle'',
     Locality = None, Started = started, Revision = ''unknown'', Metadata = Map.empty\<rparr>"

text \<open>
  The logger of a node encodes every error entry, whatever the level it is set to: its core asks
  to write every entry from the warnings on, and hands what it writes to the core underneath.
\<close>

definition node_registry :: "(liveness \<Rightarrow> string) \<Rightarrow> int \<Rightarrow> int \<Rightarrow> config \<Rightarrow> registry" where
  "node_registry ls started clk conf = NewRegistry ls clk (NodeID conf)
     [WithLocalMember (node_member conf started),
      WithHeartbeatTimeout (Milliseconds (HeartbeatTimeout (RegistryConf conf))),
      WithReconnectTimeout (Milliseconds (ReconnectTimeout (RegistryConf conf))),
      WithTombstoneTimeout (Milliseconds (TombstoneTimeout (RegistryConf conf))),
      WithLogger True]"

text \<open>The callbacks given to gossip: events about the node itself are ignored.\<close>

definition node_OnJoin ::
  "bool \<Rightarrow> string list \<Rightarrow> string \<Rightarrow> node \<Rightarrow> node option"
where
  "node_OnJoin dial_ok ms i n =
     (if i \<noteq> NodeID (nodeConfig n)
      then map_option (\<lambda>(c, r). n\<lparr>nodeCluster := c, nodeRegistry := r\<rparr>)
        (OnJoin dial_ok ms i (nodeCluster n) (nodeRegistry n))
      else Some n)"

definition node_OnLeave :: "string list \<Rightarrow> int \<Rightarrow> string \<Rightarrow> node \<Rightarrow> node" where
  "node_OnLeave ms clk i n =
     (if i \<noteq> NodeID (nodeConfig n)
      then (case OnLeave ms clk i (nodeCluster n) (nodeRegistry n) of
              (c, r) \<Rightarrow> n\<lparr>nodeCluster := c, nodeRegistry := r\<rparr>)
      else n)"

subsection \<open>Options\<close>

record node_options =
  nopt_gossipTCP :: "listener option"
  nopt_gossipUDP :: "listener option"
  nopt_rpc :: "listener option"
  nopt_admin :: "listener option"
  nopt_logLevel :: level
  nopt_logPath :: string

definition node_defaultOptions :: node_options where
  "node_defaultOptions = \<lparr>nopt_gossipTCP = None, nopt_gossipUDP = None, nopt_rpc = None, nopt_admin = None,
     nopt_logLevel = InfoLevel, nopt_logPath = ''''\<rparr>"

datatype node_option =
  Node_WithGossipTCPListener "listener option" | Node_WithGossipUDPListener "listener option"
| Node_WithRPCListener "listener option" | Node_WithAdminListener "listener option"
| Node_WithLogLevel level | Node_WithLogPath string

fun apply_node_option :: "node_option \<Rightarrow> node_options \<Rightarrow> node_options" where
  "apply_node_option (Node_WithGossipTCPListener ln) o' = o'\<lparr>nopt_gossipTCP := ln\<rparr>"
| "apply_node_option (Node_WithGossipUDPListener ln) o' = o'\<lparr>nopt_gossipUDP := ln\<rparr>"
| "apply_node_option (Node_WithRPCListener ln) o' = o'\<lparr>nopt_rpc := ln\<rparr>"
| "apply_node_option (Node_WithAdminListener ln) o' = o'\<lparr>nopt_admin := ln\<rparr>"
| "apply_node_option (Node_WithLogLevel l) o' = o'\<lparr>nopt_logLevel := l\<rparr>"
| "apply_node_option (Node_WithLogPath p) o' = o'\<lparr>nopt_logPath := p\<rparr>"

subsection \<open>Starting\<close>

type_synonym on_join = "gossip_node \<Rightarrow> bool \<Rightarrow> string list \<Rightarrow> node \<Rightarrow> node option"
type_synonym on_leave = "gossip_node \<Rightarrow> string list \<Rightarrow> int \<Rightarrow> node \<Rightarrow> node"

text \<open>
  What a node starts in: the names of the runtime's metrics, whether a log can be opened, the
  network, what gossip finds and the listeners that are open.
\<close>

record node_world =
  go_names :: "string list"
  log_builds :: "string list \<Rightarrow> bool"
  net :: os_net
  gossip_world :: "(on_join, on_leave) gossip_env"
  open_lns :: "listener set"

datatype node_error = LoggerFailed | AdminServerFailed | GossipFailed gossip_error | RPCServerFailed | Panicked

text \<open>What goes on running when NewNode fails: the admin server and the memberlist.\<close>

record left_running =
  left_admin :: "admin_server option"
  left_memberlist :: bool

definition admin_server_opts :: "node_options \<Rightarrow> admin_option list" where
  "admin_server_opts o' = (if nopt_admin o' \<noteq> None then [Admin_WithListener (nopt_admin o')] else []) @
     [Admin_WithCollector True, Admin_WithLogger]"

definition gossip_opts :: "node_options \<Rightarrow> (on_join, on_leave) gossip_option list" where
  "gossip_opts o' = (if nopt_gossipTCP o' \<noteq> None then [Gossip_WithTCPListener (nopt_gossipTCP o')] else []) @
     (if nopt_gossipUDP o' \<noteq> None then [Gossip_WithUDPListener (nopt_gossipUDP o')] else []) @
     [Gossip_WithOnJoin (\<lambda>nd dial_ok ms. node_OnJoin dial_ok ms (gn_ID nd)),
      Gossip_WithOnLeave (\<lambda>nd ms clk. node_OnLeave ms clk (gn_ID nd)), Gossip_WithLogger]"

definition rpc_server_opts :: "node_options \<Rightarrow> rpc_option list" where
  "rpc_server_opts o' = (if nopt_rpc o' \<noteq> None then [Rpc_WithListener (nopt_rpc o')] else []) @ [Rpc_WithLogger]"

definition NewNode ::
  "(liveness \<Rightarrow> string) \<Rightarrow> int \<Rightarrow> int \<Rightarrow> node_world \<Rightarrow> node_option list \<Rightarrow> config \<Rightarrow>
     (node_error \<times> left_running) + node"
where
  "NewNode ls started clk w opts conf =
     (let options = fold apply_node_option opts node_defaultOptions;
          fail = (\<lambda>err adm up. Inl (err, \<lparr>left_admin = adm, left_memberlist = up\<rparr>))
      in case NewLogger (log_builds w) [Log_WithLevel (nopt_logLevel options),
               Log_WithPath (nopt_logPath options), Log_WithCollector True] (NewPromCollector (go_names w)) of
           None \<Rightarrow> fail Panicked None False
         | Some (Inl _, reg1) \<Rightarrow> fail LoggerFailed None False
         | Some (Inr _, reg1) \<Rightarrow>
      (case foldM (\<lambda>part. part) [registry_Register, cluster_Register, replica_client_Register] reg1 of
           None \<Rightarrow> fail Panicked None False
         | Some reg2 \<Rightarrow>
             let r = node_registry ls started clk conf;
                 c = NewCluster;
                 (h, r1) = SubscribeLocal r
             in
      (case admin_NewServer (net w) conf (admin_server_opts options) of
           None \<Rightarrow> fail Panicked None False
         | Some (Inl _) \<Rightarrow> fail AdminServerFailed None False
         | Some (Inr adm) \<Rightarrow>
      (case NewGossip conf (gossip_opts options) (gossip_world w) (open_lns w) of
           None \<Rightarrow> fail Panicked (Some adm) False
         | Some (Inl err, up, _) \<Rightarrow> fail (GossipFailed err) (Some adm) up
         | Some (Inr _, up, _) \<Rightarrow>
      (case foldM (\<lambda>part. part) [client_read_Register, client_write_Register, replica_server_Register] reg2 of
           None \<Rightarrow> fail Panicked (Some adm) up
         | Some reg3 \<Rightarrow>
      (case Serve (net w) (rpc_NewServer conf (rpc_server_opts options)) of
           None \<Rightarrow> fail Panicked (Some adm) up
         | Some (Inl _) \<Rightarrow> fail RPCServerFailed (Some adm) up
         | Some (Inr s) \<Rightarrow> Inr \<lparr>nodeConfig = conf, nodeRegistry = r1, nodeCluster = c, localSub = h,
             nodeGossip = up, nodeRPC = s, nodeAdmin = adm\<rparr>))))))"

text \<open>Shutdown stops the RPC server, then gossip, then the admin server.\<close>

definition node_Shutdown :: "node \<Rightarrow> node" where
  "node_Shutdown n = n\<lparr>nodeRPC := rpc_Shutdown (nodeRPC n), nodeGossip := False,
     nodeAdmin := admin_Shutdown (nodeAdmin n)\<rparr>"

subsection \<open>Steps\<close>

text \<open>\<open>kss\<close> has, for each update, the order in which OnUpdate visits the clients.\<close>

definition deliver :: "string list list \<Rightarrow> member2 list \<Rightarrow> cluster \<Rightarrow> cluster option" where
  "deliver kss us c = foldM (\<lambda>(ks, u). OnUpdate ks u) (zip kss us) c"

definition notified :: "nat \<Rightarrow> registry \<Rightarrow> registry \<Rightarrow> member2 list" where
  "notified h r r' = drop (length (inbox r h)) (inbox r' h)"

definition good_orders :: "string list list \<Rightarrow> member2 list \<Rightarrow> cluster \<Rightarrow> bool" where
  "good_orders kss us c \<longleftrightarrow> length kss = length us \<and> list_all (\<lambda>ks. iter_order ks (clients c)) kss"

datatype node_event =
  Nd_join string | Nd_leave string | Nd_failure_detector int | Nd_repair | Nd_send string
| Nd_serve reg_event

text \<open>What the RPC server calls; it never ends the local subscription.\<close>

fun rpc_event :: "nat \<Rightarrow> reg_event \<Rightarrow> bool" where
  "rpc_event h (Ev_join i) = False"
| "rpc_event h (Ev_leave i) = False"
| "rpc_event h (Ev_liveness t) = False"
| "rpc_event h Ev_digest = False"
| "rpc_event h (Ev_unsubscribe h') \<longleftrightarrow> h' \<noteq> h"
| "rpc_event h _ = True"

inductive node_step :: "(liveness \<Rightarrow> string) \<Rightarrow> node_event \<Rightarrow> node \<Rightarrow> node \<Rightarrow> bool" for ls where
  nd_join: "iter_order ms (members (nodeRegistry n)) \<Longrightarrow> node_OnJoin dial_ok ms i n = Some n' \<Longrightarrow>
    node_step ls (Nd_join i) n n'"
| nd_leave: "iter_order ms (members (nodeRegistry n)) \<Longrightarrow>
    node_step ls (Nd_leave i) n (node_OnLeave ms clk i n)"
| nd_failure_detector: "iter_order ms (members (nodeRegistry n)) \<Longrightarrow>
    UpdateLiveness ls clks ms ts (nodeRegistry n) = Some r' \<Longrightarrow>
    us = notified (localSub n) (nodeRegistry n) r' \<Longrightarrow> good_orders kss us (nodeCluster n) \<Longrightarrow>
    deliver kss us (nodeCluster n) = Some c' \<Longrightarrow>
    node_step ls (Nd_failure_detector ts) n (n\<lparr>nodeCluster := c', nodeRegistry := r'\<rparr>)"
| nd_repair: "iter_order ks (clients (nodeCluster n)) \<Longrightarrow> set ps = priorityMembers (nodeRegistry n) \<Longrightarrow>
    iter_order ms (members (nodeRegistry n)) \<Longrightarrow> mset perm = mset [0..<length ms] \<Longrightarrow>
    ReplicaRepair ls ks rnd ps ms perm call (nodeCluster n) (nodeRegistry n) = (c1, r') \<Longrightarrow>
    us = notified (localSub n) (nodeRegistry n) r' \<Longrightarrow> good_orders kss us c1 \<Longrightarrow>
    deliver kss us c1 = Some c' \<Longrightarrow>
    node_step ls Nd_repair n (n\<lparr>nodeCluster := c', nodeRegistry := r'\<rparr>)"
| nd_send: "clients (nodeCluster n) k = Some cl \<Longrightarrow>
    sendLoop (localID (nodeRegistry n)) outcomes cl (clientMetrics (nodeCluster n)) = (reqs, cl', mt) \<Longrightarrow>
    node_step ls (Nd_send k) n (n\<lparr>nodeCluster := (nodeCluster n)
      \<lparr>clients := (clients (nodeCluster n))(k \<mapsto> cl'), clientMetrics := mt\<rparr>\<rparr>)"
| nd_serve: "reg_step ls e (nodeRegistry n) r' \<Longrightarrow> rpc_event (localSub n) e \<Longrightarrow>
    us = notified (localSub n) (nodeRegistry n) r' \<Longrightarrow> good_orders kss us (nodeCluster n) \<Longrightarrow>
    deliver kss us (nodeCluster n) = Some c' \<Longrightarrow>
    node_step ls (Nd_serve e) n (n\<lparr>nodeCluster := c', nodeRegistry := r'\<rparr>)"

inductive node_reachable :: "(liveness \<Rightarrow> string) \<Rightarrow> node \<Rightarrow> bool" for ls where
  node_started: "NewNode ls started clk w opts conf = Inr n \<Longrightarrow> node_reachable ls n"
| node_next: "node_reachable ls n \<Longrightarrow> node_step ls e n n' \<Longrightarrow> node_reachable ls n'"

text \<open>
  A run during which peer \<open>i\<close> neither joins nor leaves, with the requests its send loop sends:
  the loop may act at any point, as the step \<open>nd_send\<close> does, and every other step is allowed.
\<close>

inductive run_for_peer ::
  "(liveness \<Rightarrow> string) \<Rightarrow> string \<Rightarrow> node \<Rightarrow> update_request list \<Rightarrow> node \<Rightarrow> bool"
for ls i where
  peer_refl: "run_for_peer ls i n [] n"
| peer_step: "run_for_peer ls i n reqs n' \<Longrightarrow> node_step ls e n' n'' \<Longrightarrow>
    e \<notin> {Nd_join i, Nd_leave i, Nd_send i} \<Longrightarrow> run_for_peer ls i n reqs n''"
| peer_send: "run_for_peer ls i n reqs n' \<Longrightarrow> clients (nodeCluster n') i = Some cl \<Longrightarrow>
    sendLoop (localID (nodeRegistry n')) outcomes cl (clientMetrics (nodeCluster n')) = (sent, cl', mt) \<Longrightarrow>
    run_for_peer ls i n (reqs @ sent) (n'\<lparr>nodeCluster := (nodeCluster n')
      \<lparr>clients := (clients (nodeCluster n'))(i \<mapsto> cl'), clientMetrics := mt\<rparr>\<rparr>)"

inductive_cases nd_send_cases: "node_step ls (Nd_send k) n n'"

lemma run_for_peer_next:
  assumes "run_for_peer ls i n reqs n'" and "node_step ls e n' n''" and "e \<notin> {Nd_join i, Nd_leave i}"
  shows "\<exists>sent. run_for_peer ls i n (reqs @ sent) n''"
proof (cases "e = Nd_send i")
  case True
  then show ?thesis using assms(1,2) by (auto elim!: nd_send_cases intro: peer_send)
next
  case False
  then show ?thesis using peer_step [OF assms(1,2)] assms(3) by (intro exI [of _ "[]"]) simp
qed


subsection \<open>What each step does\<close>

lemma deliver_clients:
  assumes "length kss = length us" and "cluster_inv c" and "list_all (\<lambda>ks. iter_order ks (clients c)) kss"
  shows "\<exists>c'. deliver kss us c = Some c' \<and> cluster_inv c' \<and> nodes c' = nodes c \<and>
    (\<forall>k. clients c' k = map_option (\<lambda>cl. cl\<lparr>pendingQ := fold push_open us (pendingQ cl)\<rparr>) (clients c k))"
  using assms
proof (induction kss us arbitrary: c rule: list_induct2)
  case Nil
  have "map_option (\<lambda>cl. cl\<lparr>pendingQ := pendingQ cl\<rparr>) o' = o'" for o' :: "replica_client option"
    by (cases o') simp_all
  then show ?case using Nil by (simp add: deliver_def)
next
  case (Cons ks kss u us)
  have o: "iter_order ks (clients c)" using Cons.prems(2) by simp
  obtain c1 where c1: "OnUpdate ks u c = Some c1" "cluster_inv c1" "nodes c1 = nodes c"
    "\<forall>k. clients c1 k = map_option (\<lambda>cl. cl\<lparr>pendingQ := push_open u (pendingQ cl)\<rparr>) (clients c k)"
    using cluster_inv_update [OF Cons.prems(1) o] by blast
  have "dom (clients c1) = dom (clients c)" using c1(4) by (auto simp: dom_def)
  then have "list_all (\<lambda>ks. iter_order ks (clients c1)) kss"
    using Cons.prems(2) by (simp add: iter_order_def)
  from Cons.IH [OF c1(2) this] obtain c2 where c2: "deliver kss us c1 = Some c2" "cluster_inv c2"
    "nodes c2 = nodes c1"
    "\<forall>k. clients c2 k = map_option (\<lambda>cl. cl\<lparr>pendingQ := fold push_open us (pendingQ cl)\<rparr>) (clients c1 k)"
    by blast
  have "deliver (ks # kss) (u # us) c = Some c2" using c1(1) c2(1) by (simp add: deliver_def)
  moreover have "clients c2 k = map_option (\<lambda>cl. cl\<lparr>pendingQ := fold push_open (u # us) (pendingQ cl)\<rparr>) (clients c k)"
    for k using c1(4) c2(4) by (cases "clients c k") simp_all
  ultimately show ?case using c1(3) c2(2,3) by auto
qed

text \<open>The registry after a step, as the local subscription sees it.\<close>

definition owner_sub :: subHandle where
  "owner_sub = \<lparr>ownerOnly = True\<rparr>"

definition reg_change :: "(liveness \<Rightarrow> string) \<Rightarrow> nat \<Rightarrow> registry \<Rightarrow> registry \<Rightarrow> bool" where
  "reg_change ls h r r' \<longleftrightarrow> feeds owner_sub h r r' \<and> reg_inv ls r' \<and>
     members r' (localID r) = members r (localID r)"

lemma reg_step_change:
  assumes "reg_step ls e r r'" and "reg_inv ls r" and "subs r h = Some owner_sub" and "e \<noteq> Ev_unsubscribe h"
  shows "reg_change ls h r r'"
  using reg_step_feeds [OF assms] reg_step_inv [OF assms(1,2)] reg_step_own [OF assms(1,2)]
  by (simp add: reg_change_def)

lemma reg_change_trans:
  "reg_change ls h r r1 \<Longrightarrow> reg_change ls h r1 r2 \<Longrightarrow> reg_change ls h r r2"
proof -
  assume a: "reg_change ls h r r1" "reg_change ls h r1 r2"
  then have "localID r1 = localID r" by (simp add: reg_change_def feeds_def)
  then show ?thesis using a by (auto simp: reg_change_def intro: feeds_trans)
qed

lemma reg_change_remotes:
  assumes "subs r h = Some owner_sub" and "reg_inv ls r"
  shows "reg_change ls h r (fold (RemoteUpdate ls) us r)"
  using assms
proof (induction us arbitrary: r)
  case Nil
  then show ?case by (simp add: reg_change_def feeds_same)
next
  case (Cons u us)
  have one: "reg_change ls h r (RemoteUpdate ls u r)"
    by (rule reg_step_change [OF step_remote Cons.prems(2,1)]) simp
  then have "subs (RemoteUpdate ls u r) h = Some owner_sub" "reg_inv ls (RemoteUpdate ls u r)"
    using Cons.prems(1) by (simp_all add: reg_change_def feeds_def)
  then have "reg_change ls h (RemoteUpdate ls u r) (fold (RemoteUpdate ls) us (RemoteUpdate ls u r))"
    by (rule Cons.IH)
  from reg_change_trans [OF one this] show ?case by simp
qed

lemma ReplicaRepair_change:
  assumes "subs r h = Some owner_sub" and "reg_inv ls r"
  shows "reg_change ls h r (snd (ReplicaRepair ls ks rnd ps ms perm call c r)) \<and>
    clients (fst (ReplicaRepair ls ks rnd ps ms perm call c r)) = clients c \<and>
    nodes (fst (ReplicaRepair ls ks rnd ps ms perm call c r)) = nodes c"
proof (cases "randomClient ks rnd c")
  case None
  then show ?thesis using assms by (simp add: ReplicaRepair_def reg_change_def feeds_same)
next
  case (Some cl)
  obtain d r1 where d: "Digest ps ms perm (digestLimit cl) r = (d, r1)" by fastforce
  obtain prio where r1: "r1 = r\<lparr>priorityMembers := prio\<rparr>" using Digest_frame [OF d] by blast
  have c1: "reg_change ls h r r1" using assms r1 by (simp add: reg_change_def feeds_same)
  have "reg_change ls h r1 (fold (RemoteUpdate ls) us r1)" for us
    by (rule reg_change_remotes) (use assms r1 in simp_all)
  then have "reg_change ls h r (fold (RemoteUpdate ls) us r1)" for us
    using c1 reg_change_trans by blast
  then show ?thesis
    using Some c1 d
    by (simp add: ReplicaRepair_def client_Sync_def sync_request_of_def sync_response_def Let_def
        split: option.split)
qed

definition node_inv :: "(liveness \<Rightarrow> string) \<Rightarrow> node \<Rightarrow> bool" where
  "node_inv ls n \<longleftrightarrow> reg_inv ls (nodeRegistry n) \<and> cluster_inv (nodeCluster n) \<and>
     localID (nodeRegistry n) = NodeID (nodeConfig n) \<and> NodeID (nodeConfig n) \<notin> nodes (nodeCluster n) \<and>
     subs (nodeRegistry n) (localSub n) = Some owner_sub \<and>
     (\<exists>started m. members (nodeRegistry n) (NodeID (nodeConfig n)) = Some m \<and>
        State m = node_member (nodeConfig n) started \<and> Liveness m = Liveness_UP \<and>
        OwnerId (Version m) = NodeID (nodeConfig n))"

lemma node_inv_change:
  assumes "node_inv ls n" and "reg_change ls (localSub n) (nodeRegistry n) r'" and "cluster_inv c'"
    and "nodes c' \<subseteq> insert j (nodes (nodeCluster n))" and "j \<noteq> NodeID (nodeConfig n)"
  shows "node_inv ls (n\<lparr>nodeCluster := c', nodeRegistry := r'\<rparr>)"
  using assms by (auto simp: node_inv_def reg_change_def feeds_def)

text \<open>Notification, delivery: the new state of the cluster.\<close>

lemma delivered:
  assumes "cluster_inv c" and "good_orders kss us c" and "deliver kss us c = Some c'"
  shows "cluster_inv c' \<and> nodes c' = nodes c \<and>
    (\<forall>k. clients c' k = map_option (\<lambda>cl. cl\<lparr>pendingQ := fold push_open us (pendingQ cl)\<rparr>) (clients c k))"
  using deliver_clients [of kss us c] assms by (auto simp: good_orders_def)


subsection \<open>The invariant of a node\<close>

text \<open>What a step that is not about peer \<open>i\<close> does to its queue.\<close>

definition queued :: "string \<Rightarrow> node \<Rightarrow> node \<Rightarrow> bool" where
  "queued i n n' \<longleftrightarrow> clients (nodeCluster n') i =
     map_option (\<lambda>cl. cl\<lparr>pendingQ := fold push_open
       (notified (localSub n) (nodeRegistry n) (nodeRegistry n')) (pendingQ cl)\<rparr>) (clients (nodeCluster n) i)"

definition step_ok :: "(liveness \<Rightarrow> string) \<Rightarrow> node_event \<Rightarrow> node \<Rightarrow> node \<Rightarrow> bool" where
  "step_ok ls e n n' \<longleftrightarrow> node_inv ls n' \<and> reg_change ls (localSub n) (nodeRegistry n) (nodeRegistry n') \<and>
     nodeConfig n' = nodeConfig n \<and> localSub n' = localSub n \<and>
     (\<forall>i. e \<notin> {Nd_join i, Nd_leave i, Nd_send i} \<longrightarrow> queued i n n')"

lemma notified_same [simp]: "inbox r' h = inbox r h \<Longrightarrow> notified h r r' = []"
  by (simp add: notified_def)

lemma queued_same: "clients (nodeCluster n') i = clients (nodeCluster n) i \<Longrightarrow>
   inbox (nodeRegistry n') (localSub n) = inbox (nodeRegistry n) (localSub n) \<Longrightarrow> queued i n n'"
  by (cases "clients (nodeCluster n) i") (simp_all add: queued_def)

lemma node_inv_parts:
  assumes "node_inv ls n"
  shows "reg_inv ls (nodeRegistry n)" "cluster_inv (nodeCluster n)"
    "subs (nodeRegistry n) (localSub n) = Some owner_sub"
  using assms by (simp_all add: node_inv_def)

lemma reg_change_refl: "reg_inv ls r \<Longrightarrow> reg_change ls h r r"
  by (simp add: reg_change_def feeds_same)

lemma step_ok_delivered:
  assumes inv: "node_inv ls n" and r: "reg_change ls (localSub n) (nodeRegistry n) r'"
    and c1: "cluster_inv c1" "clients c1 = clients (nodeCluster n)" "nodes c1 = nodes (nodeCluster n)"
    and d: "good_orders kss us c1" "deliver kss us c1 = Some c'" "us = notified (localSub n) (nodeRegistry n) r'"
  shows "step_ok ls e n (n\<lparr>nodeCluster := c', nodeRegistry := r'\<rparr>)"
proof -
  note c' = delivered [OF c1(1) d(1,2)]
  have "node_inv ls (n\<lparr>nodeCluster := c', nodeRegistry := r'\<rparr>)"
    by (rule node_inv_change [OF inv r, where j = "NodeID (nodeConfig n) @ ''x''"]) (use c' c1 in auto)
  then show ?thesis using r c' c1 d(3) by (simp add: step_ok_def queued_def)
qed

lemma OnJoin_facts:
  assumes "OnJoin dial_ok ms i c r = Some (c', r')"
  shows "(r' = r \<or> r' = OnNodeJoin i r) \<and> nodes c' \<subseteq> insert i (nodes c) \<and>
    (\<forall>j. j \<noteq> i \<longrightarrow> clients c' j = clients c j)"
proof (cases dial_ok)
  case True
  then show ?thesis using assms by (auto simp: OnJoin_ok)
next
  case False
  then show ?thesis using assms by (auto simp: OnJoin_failed)
qed

lemma OnLeave_facts:
  assumes "OnLeave ms clk i c r = (c', r')"
  shows "r' = OnNodeLeave ms clk i [] r \<and> nodes c' = nodes c - {i} \<and>
    (\<forall>j. j \<noteq> i \<longrightarrow> clients c' j = clients c j)"
  using assms by (auto simp: OnLeave_def Let_def split: option.splits)

lemma gossip_frame [simp]:
  "inbox (OnNodeJoin i r) = inbox r" "inbox (OnNodeLeave ms clk i opts r) = inbox r"
  by (simp_all add: OnNodeJoin_def OnNodeLeave_def Let_def)

lemma node_step_ok:
  assumes "node_step ls e n n'" and "node_inv ls n"
  shows "step_ok ls e n n'"
  using assms
proof (induction rule: node_step.induct)
  case (nd_join ms n dial_ok i n')
  note p = node_inv_parts [OF nd_join(3)]
  show ?case
  proof (cases "i = NodeID (nodeConfig n)")
    case True
    then show ?thesis
      using nd_join p(1) by (auto simp: node_OnJoin_def step_ok_def reg_change_refl queued_same)
  next
    case False
    obtain c r where j: "OnJoin dial_ok ms i (nodeCluster n) (nodeRegistry n) = Some (c, r)"
      "n' = n\<lparr>nodeCluster := c, nodeRegistry := r\<rparr>"
      using nd_join(2) False by (auto simp: node_OnJoin_def)
    note f = OnJoin_facts [OF j(1)]
    have r: "reg_change ls (localSub n) (nodeRegistry n) r"
      using f reg_change_refl [OF p(1)] reg_step_change [OF step_join p(1,3)] by auto
    have "node_inv ls n'"
      unfolding j(2) by (rule node_inv_change [OF nd_join(3) r cluster_inv_join [OF p(2) j(1)] _ False])
        (use f in blast)
    then show ?thesis using j(2) f r by (auto simp: step_ok_def intro!: queued_same)
  qed
next
  case (nd_leave ms n i clk)
  note p = node_inv_parts [OF nd_leave(2)]
  show ?case
  proof (cases "i = NodeID (nodeConfig n)")
    case True
    then show ?thesis
      using nd_leave p(1) by (auto simp: node_OnLeave_def step_ok_def reg_change_refl queued_same)
  next
    case False
    obtain c r where l: "OnLeave ms clk i (nodeCluster n) (nodeRegistry n) = (c, r)" by fastforce
    note f = OnLeave_facts [OF l]
    have r: "reg_change ls (localSub n) (nodeRegistry n) r"
      using f reg_step_change [OF step_leave [OF nd_leave(1)] p(1,3)] by simp
    have c: "cluster_inv c" using cluster_inv_leave [OF p(2), of ms clk i "nodeRegistry n"] l by simp
    have "node_inv ls (n\<lparr>nodeCluster := c, nodeRegistry := r\<rparr>)"
      by (rule node_inv_change [OF nd_leave(2) r c _ False]) (use f in blast)
    then show ?thesis using l False f r by (auto simp: node_OnLeave_def step_ok_def intro!: queued_same)
  qed
next
  case (nd_failure_detector ms n clks ts r' us kss c')
  note p = node_inv_parts [OF nd_failure_detector(6)]
  have "reg_change ls (localSub n) (nodeRegistry n) r'"
    by (rule reg_step_change [OF step_liveness [OF nd_failure_detector(1,2)] p(1,3)]) simp
  then show ?case
    using step_ok_delivered [OF nd_failure_detector(6) _ p(2) refl refl nd_failure_detector(4,5,3)] by blast
next
  case (nd_repair ks n ps ms perm rnd call c1 r' us kss c')
  note p = node_inv_parts [OF nd_repair(9)]
  have "reg_change ls (localSub n) (nodeRegistry n) r' \<and> clients c1 = clients (nodeCluster n) \<and>
      nodes c1 = nodes (nodeCluster n)"
    using ReplicaRepair_change [OF p(3,1), of ks rnd ps ms perm call "nodeCluster n"] nd_repair(5) by simp
  moreover have "cluster_inv c1"
    using ReplicaRepair_inv [OF p(2,1), of ks rnd ps ms perm call] nd_repair(5) by simp
  ultimately show ?case using step_ok_delivered [OF nd_repair(9) _ _ _ _ nd_repair(7,8,6)] by blast
next
  case (nd_send n k cl outcomes reqs cl' mt)
  note p = node_inv_parts [OF nd_send(3)]
  let ?c = "(nodeCluster n)\<lparr>clients := (clients (nodeCluster n))(k \<mapsto> cl'), clientMetrics := mt\<rparr>"
  have "cluster_inv ?c"
    using cluster_inv_send [OF p(2) nd_send(1,2)] by (simp only: cluster_inv_metrics)
  then have "node_inv ls (n\<lparr>nodeCluster := ?c\<rparr>)" using nd_send(3) by (simp add: node_inv_def)
  then show ?case using p(1) by (auto simp: step_ok_def reg_change_refl intro!: queued_same)
next
  case (nd_serve e n r' us kss c')
  note p = node_inv_parts [OF nd_serve(6)]
  have "e \<noteq> Ev_unsubscribe (localSub n)" using nd_serve(2) by auto
  then have "reg_change ls (localSub n) (nodeRegistry n) r'"
    using reg_step_change [OF nd_serve(1) p(1,3)] by blast
  then show ?case
    using step_ok_delivered [OF nd_serve(6) _ p(2) refl refl nd_serve(4,5,3)] by blast
qed


lemma node_registry_own:
  "localID (node_registry ls started clk conf) = NodeID conf"
  "\<exists>m. members (node_registry ls started clk conf) (NodeID conf) = Some m \<and> State m = node_member conf started \<and>
     Liveness m = Liveness_UP \<and> OwnerId (Version m) = NodeID conf"
  by (simp_all add: node_registry_def NewRegistry_def defaultOptions_def Let_def node_member_def
      nextVersionLocked_def split: prod.split option.split)

lemma node_registry_members:
  "members (node_registry ls started clk conf) =
     [NodeID conf \<mapsto> \<lparr>State = node_member conf started, Liveness = Liveness_UP,
        Version = \<lparr>OwnerId = NodeID conf, VTimestamp = MonotonicTimestamp clk 0\<rparr>, Expiry = 0\<rparr>]"
  by (simp add: node_registry_def NewRegistry_def defaultOptions_def Let_def node_member_def
      nextVersionLocked_def)

subsection \<open>How starting ends\<close>

lemma parts_register:
  assumes "set fuddle_names \<inter> set names = {}"
  shows "\<exists>reg1 reg2. logger_Register names = Some reg1 \<and>
    foldM (\<lambda>part. part) [registry_Register, cluster_Register, replica_client_Register] reg1 = Some reg2 \<and>
    foldM (\<lambda>part. part) [client_read_Register, client_write_Register, replica_server_Register] reg2 =
      Some (names @ fuddle_names)"
proof -
  have "node_parts = [logger_Register] @ [registry_Register, cluster_Register, replica_client_Register] @
      [client_read_Register, client_write_Register, replica_server_Register]"
    by (simp add: node_parts_def)
  then have "foldM (\<lambda>part. part) ([logger_Register] @ [registry_Register, cluster_Register, replica_client_Register] @
      [client_read_Register, client_write_Register, replica_server_Register]) names = Some (names @ fuddle_names)"
    using node_parts_register [OF assms] by simp
  then show ?thesis
    unfolding foldM_append by (auto split: option.splits)
qed

lemma server_opts_apply:
  "fold apply_admin_option (admin_server_opts o') admin_defaultOptions =
     \<lparr>admin_listener = nopt_admin o', admin_collector = True\<rparr>"
  "fold apply_rpc_option (rpc_server_opts o') None = nopt_rpc o'"
  "gopt_tcpListener (fold apply_gossip_option (gossip_opts o') gossip_defaultOptions) = nopt_gossipTCP o'"
  "gopt_udpListener (fold apply_gossip_option (gossip_opts o') gossip_defaultOptions) = nopt_gossipUDP o'"
  by (auto simp: admin_server_opts_def rpc_server_opts_def gossip_opts_def admin_defaultOptions_def
      gossip_defaultOptions_def)

text \<open>The listener of a server: the one given, or else the one it opens.\<close>

definition admin_ln_of :: "node_world \<Rightarrow> node_options \<Rightarrow> config \<Rightarrow> listener option" where
  "admin_ln_of w o' conf = (case nopt_admin o' of Some l \<Rightarrow> Some l
     | None \<Rightarrow> listenTCP (net w) (ParseIP (net w) (admin_BindAddr (Admin conf))) (admin_BindPort (Admin conf)))"

definition rpc_ln_of :: "node_world \<Rightarrow> node_options \<Rightarrow> config \<Rightarrow> listener option" where
  "rpc_ln_of w o' conf = (case nopt_rpc o' of Some l \<Rightarrow> Some l
     | None \<Rightarrow> listenTCP (net w) (ParseIP (net w) (rpc_BindAddr (RPC conf))) (rpc_BindPort (RPC conf)))"

definition started_admin :: "node_world \<Rightarrow> listener \<Rightarrow> admin_server" where
  "started_admin w l = \<lparr>admin_routes = [''/metrics''], admin_addr = addr_text (net w) l, admin_serving = Some l\<rparr>"

lemma servers_started:
  "admin_NewServer (net w) conf (admin_server_opts o') = map_option (\<lambda>l. Inr (started_admin w l)) (admin_ln_of w o' conf)"
  "Serve (net w) (rpc_NewServer conf (rpc_server_opts o')) =
     map_option (\<lambda>l. Inr \<lparr>rpc_conf = conf, rpc_ln = nopt_rpc o', rpc_serving = Some l\<rparr>) (rpc_ln_of w o' conf)"
  by (simp_all add: admin_NewServer_result Serve_result server_opts_apply admin_ln_of_def rpc_ln_of_def
      started_admin_def rpc_NewServer_def Let_def cong: option.case_cong)

lemma NewNode_outcome:
  assumes "set fuddle_names \<inter> set (go_names w) = {}" and "o' = fold apply_node_option opts node_defaultOptions"
  shows "NewNode ls started clk w opts conf =
    (if \<not> log_builds w (if nopt_logPath o' \<noteq> '''' then [nopt_logPath o'] else [''stderr''])
     then Inl (LoggerFailed, \<lparr>left_admin = None, left_memberlist = False\<rparr>)
     else case admin_ln_of w o' conf of
       None \<Rightarrow> Inl (Panicked, \<lparr>left_admin = None, left_memberlist = False\<rparr>)
     | Some l \<Rightarrow>
        (case NewGossip conf (gossip_opts o') (gossip_world w) (open_lns w) of
           None \<Rightarrow> Inl (Panicked, \<lparr>left_admin = Some (started_admin w l), left_memberlist = False\<rparr>)
         | Some (Inl err, up, _) \<Rightarrow>
             Inl (GossipFailed err, \<lparr>left_admin = Some (started_admin w l), left_memberlist = up\<rparr>)
         | Some (Inr _, up, _) \<Rightarrow>
            (case rpc_ln_of w o' conf of
               None \<Rightarrow> Inl (Panicked, \<lparr>left_admin = Some (started_admin w l), left_memberlist = up\<rparr>)
             | Some l' \<Rightarrow>
                (case SubscribeLocal (node_registry ls started clk conf) of (h, r) \<Rightarrow>
                  Inr \<lparr>nodeConfig = conf, nodeRegistry = r, nodeCluster = NewCluster, localSub = h, nodeGossip = up,
                    nodeRPC = \<lparr>rpc_conf = conf, rpc_ln = nopt_rpc o', rpc_serving = Some l'\<rparr>,
                    nodeAdmin = started_admin w l\<rparr>))))"
proof -
  obtain reg1 reg2 where r: "logger_Register (go_names w) = Some reg1"
    "foldM (\<lambda>part. part) [registry_Register, cluster_Register, replica_client_Register] reg1 = Some reg2"
    "foldM (\<lambda>part. part) [client_read_Register, client_write_Register, replica_server_Register] reg2 =
       Some (go_names w @ fuddle_names)" using parts_register [OF assms(1)] by blast
  have lg: "NewLogger (log_builds w) [Log_WithLevel (nopt_logLevel o'), Log_WithPath (nopt_logPath o'),
      Log_WithCollector True] (NewPromCollector (go_names w)) =
    Some (if log_builds w (if nopt_logPath o' \<noteq> '''' then [nopt_logPath o'] else [''stderr''])
      then Inr (newMetricsCore NewLogMetrics \<lparr>core_level = nopt_logLevel o', core_fields = [], written = []\<rparr>)
      else Inl (), reg1)"
    using r(1) by (simp add: NewLogger_def NewPromCollector_def logger_defaultOptions_def Let_def)
  show ?thesis
  proof (cases "log_builds w (if nopt_logPath o' \<noteq> [] then [nopt_logPath o'] else [''stderr''])")
    case True
    show ?thesis
      unfolding NewNode_def Let_def assms(2) [symmetric] lg
      by (simp only: True if_True option.case prod.case sum.case r(2,3) servers_started not_True_eq_False if_False)
        (simp split: option.split sum.split prod.split)
  next
    case False
    show ?thesis
      unfolding NewNode_def Let_def assms(2) [symmetric] lg
      by (simp only: False if_False option.case prod.case sum.case not_False_eq_True if_True)
  qed
qed

lemma go_names_apart:
  assumes "\<forall>name \<in> set names. take 3 name = ''go_''"
  shows "set fuddle_names \<inter> set names = {}"
proof -
  have "\<forall>name \<in> set fuddle_names. take 3 name \<noteq> ''go_''" by (simp add: fuddle_names_def)
  then show ?thesis using assms by blast
qed

lemma NewGossip_up:
  assumes "NewGossip conf gopts env lns = Some (res, up, lns')"
  shows "up = (\<forall>e. res = Inl e \<longrightarrow> e = JoinFailed) \<and> res \<noteq> Inl TransportFailed"
  using assms by (auto simp: NewGossip_def newTransport_eq Let_def split: option.splits prod.splits if_splits)

text \<open>
  The sockets gossip cannot do without: one it is given, or that it opens; and the kernel must accept
  a buffer size for the UDP socket it opens.
\<close>

definition gossip_lns_of :: "node_world \<Rightarrow> node_options \<Rightarrow> (listener \<times> listener) option" where
  "gossip_lns_of w o' = transport_lns (nopt_gossipTCP o') (nopt_gossipUDP o')
     (ge_listenTCP (gossip_world w)) (ge_listenUDP (gossip_world w)) (ge_accepts (gossip_world w))"

lemma NewGossip_panics:
  "NewGossip conf (gossip_opts o') (gossip_world w) lns = None \<longleftrightarrow> gossip_lns_of w o' = None"
  by (auto simp: NewGossip_def newTransport_eq gossip_lns_of_def server_opts_apply Let_def
      split: option.splits prod.splits if_splits)

text \<open>
  C12: how the start of a node fails. Given that the metrics of the Go runtime are named apart, no
  metric is registered twice, and starting fails only in these ways. The log cannot be opened, and
  nothing runs. The memberlist cannot be created, or cannot join: the admin server goes on serving,
  and the memberlist too if it was the join that failed. Or the node panics instead of returning an
  error, as it has no listener for the admin server, and nothing runs; or none for gossip (the
  clean-up of the transport closes a UDP listener that is nil), and the admin server runs on; or none
  for the RPC server, and the admin server and the memberlist run on. The error returns of the two
  servers and of the transport are never taken.
\<close>
theorem node_start_failures:
  assumes "\<forall>name \<in> set (go_names w). take 3 name = ''go_''"
    and "NewNode ls started clk w opts conf = Inl (err, left)"
    and "o' = fold apply_node_option opts node_defaultOptions"
  shows "case err of
      LoggerFailed \<Rightarrow> left_admin left = None \<and> \<not> left_memberlist left
    | GossipFailed e \<Rightarrow> e \<in> {CreateFailed, JoinFailed} \<and> (\<exists>l. left_admin left = Some (started_admin w l)) \<and>
        (left_memberlist left \<longleftrightarrow> e = JoinFailed)
    | Panicked \<Rightarrow> (admin_ln_of w o' conf = None \<and> left_admin left = None \<and> \<not> left_memberlist left) \<or>
        (transport_lns (nopt_gossipTCP o') (nopt_gossipUDP o') (ge_listenTCP (gossip_world w))
           (ge_listenUDP (gossip_world w)) (ge_accepts (gossip_world w)) = None \<and>
         \<not> left_memberlist left \<and> (\<exists>l. left_admin left = Some (started_admin w l))) \<or>
        (rpc_ln_of w o' conf = None \<and> left_memberlist left \<and> (\<exists>l. left_admin left = Some (started_admin w l)))
    | AdminServerFailed \<Rightarrow> False
    | RPCServerFailed \<Rightarrow> False"
proof (cases "NewGossip conf (gossip_opts o') (gossip_world w) (open_lns w)")
  case None
  then show ?thesis
    using assms(2) NewGossip_panics [of conf o' w "open_lns w"]
    unfolding NewNode_outcome [OF go_names_apart [OF assms(1)] assms(3)] None
    by (auto simp: gossip_lns_of_def split: if_splits option.splits)
next
  case (Some g)
  obtain res up lns where g: "g = (res, up, lns)" using prod_cases3 by blast
  note Some = Some [unfolded g]
  note up = NewGossip_up [OF Some]
  show ?thesis
    using assms(2) up unfolding NewNode_outcome [OF go_names_apart [OF assms(1)] assms(3)] Some
    by (cases res; cases "projl res") (auto split: if_splits option.splits prod.splits)
qed

lemma NewNode_parts:
  assumes "NewNode ls started clk w opts conf = Inr n"
  shows "nodeConfig n = conf \<and> nodeCluster n = NewCluster \<and>
    (localSub n, nodeRegistry n) = SubscribeLocal (node_registry ls started clk conf)"
  using assms by (auto simp: NewNode_def Let_def split: option.splits sum.splits prod.splits)

lemma NewNode_inv:
  assumes "NewNode ls started clk w opts conf = Inr n"
  shows "node_inv ls n \<and> nodeConfig n = conf"
proof -
  let ?r = "node_registry ls started clk conf"
  obtain h r1 where h: "SubscribeLocal ?r = (h, r1)" by fastforce
  have n: "nodeConfig n = conf \<and> nodeRegistry n = r1 \<and> nodeCluster n = NewCluster \<and> localSub n = h"
    using NewNode_parts [OF assms] h by simp
  have inv: "reg_inv ls ?r" by (simp add: node_registry_def reg_inv_NewRegistry)
  have "reg_inv ls r1" using reg_inv_subs(1) [OF inv] h by (metis snd_conv)
  moreover have "localID r1 = NodeID conf" "members r1 = members ?r" "subs r1 h = Some owner_sub"
    using h node_registry_own(1) [of ls started clk conf] by (auto simp: SubscribeLocal_def Let_def owner_sub_def)
  moreover have "nodes NewCluster = {}" by (simp add: NewCluster_def)
  ultimately show ?thesis
    using node_registry_own(2) [of ls started clk conf] n cluster_inv_new by (auto simp: node_inv_def)
qed

lemma node_reachable_inv: "node_reachable ls n \<Longrightarrow> node_inv ls n"
  by (induction rule: node_reachable.induct) (use NewNode_inv node_step_ok step_ok_def in blast)+

lemma node_consistent_own:
  assumes "node_reachable ls n"
  shows "\<exists>started m. members (nodeRegistry n) (NodeID (nodeConfig n)) = Some m \<and>
    State m = node_member (nodeConfig n) started"
  using node_reachable_inv [OF assms] by (auto simp: node_inv_def)

text \<open>
  C14: a running node. In every state a node reaches, whatever gossip tells it, its own event
  included, it is not its own peer; it has a client for exactly its peers and the gauge counts them
  and itself; its registry carries its own id; its own member is up, owned by it and described as
  an active fuddle node; and the subscription that feeds replication is in place.
\<close>
theorem node_consistent:
  assumes "node_reachable ls n"
  shows "NodeID (nodeConfig n) \<notin> nodes (nodeCluster n) \<and>
    (\<forall>i. clients (nodeCluster n) i \<noteq> None \<longleftrightarrow> i \<in> nodes (nodeCluster n)) \<and>
    gauge_cell (NodesCount (nodeCluster n)) (metric_key []) = int (card (nodes (nodeCluster n))) + 1 \<and>
    localID (nodeRegistry n) = NodeID (nodeConfig n) \<and>
    (\<exists>started m. members (nodeRegistry n) (NodeID (nodeConfig n)) = Some m \<and> Liveness m = Liveness_UP \<and>
       State m = node_member (nodeConfig n) started \<and> OwnerId (Version m) = NodeID (nodeConfig n)) \<and>
    subs (nodeRegistry n) (localSub n) = Some \<lparr>ownerOnly = True\<rparr>"
  using node_reachable_inv [OF assms] by (auto simp: node_inv_def cluster_inv_def owner_sub_def)

subsection \<open>Replication to a peer\<close>

lemma change_log:
  assumes "(change ident keep gone)\<^sup>*\<^sup>* s s'"
  shows "\<exists>us. snd s' = snd s @ us \<and> follows gone (fst s') (view ident keep (fst s) us)"
  using assms
proof (induction rule: rtranclp_induct)
  case base
  show ?case by (rule exI [of _ "[]"]) (auto simp: follows_def view_def)
next
  case (step y z)
  then obtain us where us: "snd y = snd s @ us" "follows gone (fst y) (view ident keep (fst s) us)" by blast
  obtain m l m' l' where yz: "y = (m, l)" "z = (m', l')" by (cases y; cases z)
  have ch: "change ident keep gone (m, l) (m', l')" using step.hyps(2) yz by simp
  then consider u where "m' = m(ident u := if keep u then Some u else None)" "l' = l @ [u]"
    | i x where "m i = Some x" "gone x" "m' = m(i := None)" "l' = l"
    by (auto elim: change_cases)
  then show ?case
  proof cases
    case (1 u)
    then show ?thesis
      using us yz by (intro exI [of _ "us @ [u]"]) (auto simp: follows_def)
  next
    case (2 i x)
    then show ?thesis using us yz by (intro exI [of _ us]) (auto simp: follows_def)
  qed
qed

definition owned_part :: "node \<Rightarrow> string \<rightharpoonup> member2" where
  "owned_part n = visible_part owner_sub (NodeID (nodeConfig n)) (members (nodeRegistry n))"

text \<open>What a run keeps: the invariant, the updates notified, and the queue of the peer.\<close>

definition peer_run_ok ::
  "(liveness \<Rightarrow> string) \<Rightarrow> string \<Rightarrow> node \<Rightarrow> replica_client \<Rightarrow> update_request list \<Rightarrow> node \<Rightarrow> bool"
where
  "peer_run_ok ls i n cl reqs n' \<longleftrightarrow>
     node_inv ls n' \<and> nodeConfig n' = nodeConfig n \<and> localSub n' = localSub n \<and>
     (change member_id (visible owner_sub (NodeID (nodeConfig n))) has_left)\<^sup>*\<^sup>*
       (owned_part n, inbox (nodeRegistry n) (localSub n)) (owned_part n', inbox (nodeRegistry n') (localSub n)) \<and>
     (\<forall>req \<in> set reqs. UpdSourceNodeId req = NodeID (nodeConfig n)) \<and>
     (\<exists>ops cl'. inbox (nodeRegistry n') (localSub n) = inbox (nodeRegistry n) (localSub n) @ pushed ops \<and>
        clients (nodeCluster n') i = Some cl' \<and>
        run_queue push_open take_open ops (pendingQ cl) = (map UpdMember reqs, pendingQ cl'))"

lemma peer_run_step:
  assumes ok: "peer_run_ok ls i n cl reqs n'" and st: "node_step ls e n' n''"
    and e: "e \<notin> {Nd_join i, Nd_leave i, Nd_send i}"
  shows "peer_run_ok ls i n cl reqs n''"
proof -
  let ?h = "localSub n" and ?k = "visible owner_sub (NodeID (nodeConfig n))"
  note IH = ok [unfolded peer_run_ok_def]
  have sok: "step_ok ls e n' n''" using node_step_ok [OF st] IH by blast
  have lid: "localID (nodeRegistry n') = NodeID (nodeConfig n)" using IH by (auto simp: node_inv_def)
  have "feeds owner_sub ?h (nodeRegistry n') (nodeRegistry n'')"
    using sok IH by (simp add: step_ok_def reg_change_def)
  then have ch: "(change member_id ?k has_left)\<^sup>*\<^sup>*
      (owned_part n', inbox (nodeRegistry n') ?h) (owned_part n'', inbox (nodeRegistry n'') ?h)"
    using lid IH sok by (simp add: feeds_def owned_part_def step_ok_def)
  obtain ops cl' where us: "inbox (nodeRegistry n') ?h = inbox (nodeRegistry n) ?h @ pushed ops"
    "clients (nodeCluster n') i = Some cl'"
    "run_queue push_open take_open ops (pendingQ cl) = (map UpdMember reqs, pendingQ cl')" using IH by blast
  obtain vs where vs: "inbox (nodeRegistry n'') ?h = inbox (nodeRegistry n') ?h @ vs"
    using change_log [OF ch] by auto
  then have "notified ?h (nodeRegistry n') (nodeRegistry n'') = vs" by (simp add: notified_def)
  moreover have "queued i n' n''" using sok e by (auto simp: step_ok_def)
  ultimately have "clients (nodeCluster n'') i = Some (cl'\<lparr>pendingQ := fold push_open vs (pendingQ cl')\<rparr>)"
    using us(2) IH by (simp add: queued_def)
  then have "\<exists>ops cl''. inbox (nodeRegistry n'') ?h = inbox (nodeRegistry n) ?h @ pushed ops \<and>
      clients (nodeCluster n'') i = Some cl'' \<and>
      run_queue push_open take_open ops (pendingQ cl) = (map UpdMember reqs, pendingQ cl'')"
    using us vs by (intro exI [of _ "ops @ map Op_push vs"]) (simp add: run_queue_append run_queue_pushes)
  then show ?thesis
    using IH ch sok unfolding peer_run_ok_def step_ok_def by (metis (no_types, lifting) rtranclp_trans)
qed

lemma peer_run_send:
  assumes ok: "peer_run_ok ls i n cl reqs n'" and cl1: "clients (nodeCluster n') i = Some cl1"
    and send: "sendLoop (localID (nodeRegistry n')) outcomes cl1 (clientMetrics (nodeCluster n')) = (sent, cl', mt)"
  shows "peer_run_ok ls i n cl (reqs @ sent) (n'\<lparr>nodeCluster := (nodeCluster n')
    \<lparr>clients := (clients (nodeCluster n'))(i \<mapsto> cl'), clientMetrics := mt\<rparr>\<rparr>)" (is "peer_run_ok _ _ _ _ _ ?n''")
proof -
  note IH = ok [unfolded peer_run_ok_def]
  have inv: "node_inv ls n'" using IH by blast
  have "step_ok ls (Nd_send i) n' ?n''" by (rule node_step_ok [OF nd_send [OF cl1 send] inv])
  then have inv': "node_inv ls ?n''" by (simp add: step_ok_def)
  have lid: "localID (nodeRegistry n') = NodeID (nodeConfig n)" using IH by (auto simp: node_inv_def)
  note t = sendLoop_takes [OF send, unfolded lid]
  obtain ops where us: "inbox (nodeRegistry n') (localSub n) = inbox (nodeRegistry n) (localSub n) @ pushed ops"
    "run_queue push_open take_open ops (pendingQ cl) = (map UpdMember reqs, pendingQ cl1)" using IH cl1 by auto
  then have "run_queue push_open take_open (ops @ replicate (length outcomes) Op_take) (pendingQ cl) =
      (map UpdMember (reqs @ sent), pendingQ cl')" using t by (simp add: run_queue_append)
  moreover have "pushed (ops @ replicate (length outcomes) Op_take) = pushed ops" by simp
  moreover have "owned_part ?n'' = owned_part n'" by (simp add: owned_part_def)
  moreover have "\<forall>req \<in> set (reqs @ sent). UpdSourceNodeId req = NodeID (nodeConfig n)" using IH t by auto
  ultimately show ?thesis
    using IH inv' us(1) unfolding peer_run_ok_def
    by (intro conjI exI [of _ "ops @ replicate (length outcomes) Op_take"] exI [of _ cl'])
      (simp_all del: map_append)
qed

lemma run_for_peer_facts:
  assumes "run_for_peer ls i n reqs n'" and "node_inv ls n" and "clients (nodeCluster n) i = Some cl"
  shows "peer_run_ok ls i n cl reqs n'"
  using assms
proof (induction rule: run_for_peer.induct)
  case (peer_refl n)
  then show ?case by (auto simp: peer_run_ok_def intro!: exI [of _ "[]"])
next
  case (peer_step n reqs n' e n'')
  then show ?case by (blast intro: peer_run_step)
next
  case (peer_send n reqs n' cl1 outcomes sent cl' mt)
  then show ?case by (blast intro: peer_run_send)
qed

lemma joined_queue:
  "node_inv ls n \<Longrightarrow> clients (nodeCluster n) i = Some cl \<Longrightarrow> queue_ok (pendingQ cl) \<and> queue_cap (pendingQ cl) = 129"
  by (simp add: node_inv_def cluster_inv_def)

text \<open>
  C13: a node sends every peer what the peer needs. Over any run of the node during which the peer
  stays joined - registrations, heartbeats, remote updates, failure detection, repair, other peers
  coming and going, the send loop of the peer acting at any point - the queue of the peer goes
  through pushes and takes: what is taken is what the requests sent carry, in order, with the node
  as their source; and what is pushed is a list of updates such that a reader of the members
  the node owned at the start who applies it holds every member the node owns at the end, and
  otherwise only members that have left. What is sent, followed by what still waits, is in order a part of
  what waited at the start followed by what was pushed, and all of it if that is at most 129 updates.
\<close>
theorem node_replicates_owned:
  assumes "node_reachable ls n" and "run_for_peer ls i n reqs n'" and "clients (nodeCluster n) i = Some cl"
  shows "\<exists>ops cl'. clients (nodeCluster n') i = Some cl' \<and>
    run_queue push_open take_open ops (pendingQ cl) = (map UpdMember reqs, pendingQ cl') \<and>
    (\<forall>req \<in> set reqs. UpdSourceNodeId req = NodeID (nodeConfig n)) \<and>
    follows has_left (owned_part n')
      (view member_id (visible \<lparr>ownerOnly = True\<rparr> (NodeID (nodeConfig n))) (owned_part n) (pushed ops)) \<and>
    subseq (map UpdMember reqs @ pending (pendingQ cl')) (pending (pendingQ cl) @ pushed ops) \<and>
    (length (pending (pendingQ cl)) + length (pushed ops) \<le> 129 \<longrightarrow>
       map UpdMember reqs @ pending (pendingQ cl') = pending (pendingQ cl) @ pushed ops)"
proof -
  note inv = node_reachable_inv [OF assms(1)]
  note f = run_for_peer_facts [OF assms(2) inv assms(3), unfolded peer_run_ok_def]
  obtain ops cl' where us: "inbox (nodeRegistry n') (localSub n) = inbox (nodeRegistry n) (localSub n) @ pushed ops"
    "clients (nodeCluster n') i = Some cl'"
    "run_queue push_open take_open ops (pendingQ cl) = (map UpdMember reqs, pendingQ cl')" using f by blast
  from f change_log have "\<exists>vs. inbox (nodeRegistry n') (localSub n) = inbox (nodeRegistry n) (localSub n) @ vs \<and>
      follows has_left (owned_part n')
        (view member_id (visible owner_sub (NodeID (nodeConfig n))) (owned_part n) vs)" by fastforce
  moreover note joined_queue [OF inv assms(3)]
  ultimately show ?thesis
    using f us pending_queue.run_in_order [of "pendingQ cl" ops] pending_queue.run_no_loss [of "pendingQ cl" ops]
    by (intro exI [of _ ops] exI [of _ cl']) (auto simp: owner_sub_def)
qed


subsection \<open>A node with one peer\<close>

definition sample_world :: node_world where
  "sample_world = \<lparr>go_names = [''go_goroutines''], log_builds = (\<lambda>_. True),
     net = \<lparr>addr_text = (\<lambda>_. ''127.0.0.1:1''), listenTCP = (\<lambda>_ _. Some (Listener 3)), ParseIP = (\<lambda>_. None)\<rparr>,
     gossip_world = \<lparr>ge_listenTCP = Some (Listener 1), ge_listenUDP = Some (Listener 2), ge_accepts = (\<lambda>_. True),
       ge_create = (\<lambda>_. True), ge_join = (\<lambda>_. True)\<rparr>, open_lns = {}\<rparr>"

lemma sample_gossip_starts:
  "\<exists>mc lns. NewGossip conf (gossip_opts node_defaultOptions) (gossip_world sample_world)
     (open_lns sample_world) = Some (Inr mc, True, lns)"
  by (rule NewGossip_starts [where l = "Listener 1" and u = "Listener 2"]) (simp_all add: sample_world_def)

lemma sample_node_started:
  "\<exists>n. NewNode sample_text 5 5 sample_world [] (DefaultConfig ''01234567'') = Inr n \<and> nodes (nodeCluster n) = {} \<and>
     NodeID (nodeConfig n) = ''fuddle-01234567''"
proof -
  let ?c = "DefaultConfig ''01234567''"
  have d: "set fuddle_names \<inter> set (go_names sample_world) = {}" by (simp add: fuddle_names_def sample_world_def)
  have l: "admin_ln_of sample_world node_defaultOptions ?c = Some (Listener 3)"
    "rpc_ln_of sample_world node_defaultOptions ?c = Some (Listener 3)"
    "\<And>paths. log_builds sample_world paths"
    by (simp_all add: admin_ln_of_def rpc_ln_of_def sample_world_def node_defaultOptions_def)
  obtain mc lns where g: "NewGossip ?c (gossip_opts node_defaultOptions) (gossip_world sample_world)
     (open_lns sample_world) = Some (Inr mc, True, lns)" using sample_gossip_starts [of ?c] by auto
  obtain h r where h: "SubscribeLocal (node_registry sample_text 5 5 ?c) = (h, r)" by fastforce
  have "node_defaultOptions = fold apply_node_option [] node_defaultOptions" by simp
  from NewNode_outcome [OF d this, of sample_text 5 5 ?c]
  have "\<exists>n. NewNode sample_text 5 5 sample_world [] ?c = Inr n" by (simp add: l g h)
  then obtain n where n: "NewNode sample_text 5 5 sample_world [] ?c = Inr n" by blast
  then show ?thesis using NewNode_parts [OF n] by (simp add: NewCluster_def DefaultConfig_def)
qed

theorem node_start_failures_witness:
  "let w = sample_world\<lparr>net := (net sample_world)\<lparr>listenTCP := (\<lambda>_ port. if port = 8110 then None else Some (Listener 3))\<rparr>\<rparr>
   in \<exists>left. NewNode sample_text 5 5 w [] (DefaultConfig ''01234567'') = Inl (Panicked, left) \<and>
     left_memberlist left \<and> left_admin left = Some (started_admin w (Listener 3))"
proof -
  obtain w where w: "w = sample_world\<lparr>net := (net sample_world)\<lparr>listenTCP := (\<lambda>_ port. if port = 8110 then None else Some (Listener 3))\<rparr>\<rparr>"
    by blast
  let ?c = "DefaultConfig ''01234567''"
  have g: "\<forall>name \<in> set (go_names w). take 3 name = ''go_''" by (simp add: w sample_world_def)
  have l: "admin_ln_of w node_defaultOptions ?c = Some (Listener 3)" "rpc_ln_of w node_defaultOptions ?c = None"
    "\<And>paths. log_builds w paths"
    by (simp_all add: w admin_ln_of_def rpc_ln_of_def sample_world_def node_defaultOptions_def DefaultConfig_def
        DefaultRPCConfig_def DefaultAdminConfig_def)
  obtain mc lns where m: "NewGossip ?c (gossip_opts node_defaultOptions) (gossip_world w) (open_lns w) = Some (Inr mc, True, lns)"
    using sample_gossip_starts [of ?c] by (auto simp: w)
  have e: "node_defaultOptions = fold apply_node_option [] node_defaultOptions" by simp
  from NewNode_outcome [OF go_names_apart [OF g] e, of sample_text 5 5 ?c]
  obtain left where n: "NewNode sample_text 5 5 w [] ?c = Inl (Panicked, left)"
    "left_admin left = Some (started_admin w (Listener 3))" by (simp add: l m)
  moreover have "gossip_lns_of w node_defaultOptions \<noteq> None" using NewGossip_panics [of ?c] m by (metis option.distinct(1))
  ultimately have "left_memberlist left"
    using node_start_failures [OF g n(1) e] by (auto simp: l(1) gossip_lns_of_def)
  then show ?thesis using n unfolding Let_def w [symmetric] by blast
qed

theorem node_consistent_witness:
  "\<exists>n. NewNode sample_text 5 5 sample_world [] (DefaultConfig ''01234567'') = Inr n \<and>
     ''fuddle-01234567'' \<notin> nodes (nodeCluster n) \<and>
     gauge_cell (NodesCount (nodeCluster n)) (metric_key []) = 1"
proof -
  obtain n where n: "NewNode sample_text 5 5 sample_world [] (DefaultConfig ''01234567'') = Inr n"
    "nodes (nodeCluster n) = {}" "NodeID (nodeConfig n) = ''fuddle-01234567''"
    using sample_node_started by blast
  show ?thesis using node_consistent [OF node_started [OF n(1)]] n by auto
qed

lemma sample_node_joined:
  "\<exists>n cl. node_reachable sample_text n \<and> NodeID (nodeConfig n) = ''fuddle-01234567'' \<and>
     clients (nodeCluster n) ''p'' = Some cl \<and> members (nodeRegistry n) ''x'' = None"
proof -
  obtain n where n: "NewNode sample_text 5 5 sample_world [] (DefaultConfig ''01234567'') = Inr n"
    "NodeID (nodeConfig n) = ''fuddle-01234567''"
    using sample_node_started by blast
  have r: "node_reachable sample_text n" by (rule node_started [OF n(1)])
  have x: "members (nodeRegistry n) ''x'' = None"
    using NewNode_parts [OF n(1)] by (simp add: SubscribeLocal_def Let_def node_registry_members DefaultConfig_def)
  have "finite (dom (members (nodeRegistry n)))"
    using reg_inv_finite node_inv_parts(1) [OF node_reachable_inv [OF r]] by blast
  then obtain ms where ms: "iter_order ms (members (nodeRegistry n))" using iter_order_exists by blast
  obtain n1 cl where j: "node_OnJoin True ms ''p'' n = Some n1" "NodeID (nodeConfig n1) = ''fuddle-01234567''"
    "clients (nodeCluster n1) ''p'' = Some cl" "members (nodeRegistry n1) ''x'' = None"
    using n(2) x by (simp add: node_OnJoin_def OnJoin_ok OnNodeJoin_def)
  show ?thesis using node_next [OF r nd_join [OF ms j(1)]] j(2,3,4) by blast
qed

lemma node_adds:
  assumes "node_reachable ls n" and "x \<noteq> NodeID (nodeConfig n)"
    and "members (nodeRegistry n) x = None"
  shows "\<exists>n'. node_step ls (Nd_serve (Ev_add x)) n n' \<and> members (nodeRegistry n') x \<noteq> None"
proof -
  note p = node_inv_parts [OF node_reachable_inv [OF assms(1)]]
  have "\<not> update_panics 9 (zero_state x) [] (nodeRegistry n)"
    using node_reachable_inv [OF assms(1)] assms(2,3)
    by (simp add: node_inv_def update_panics_def update_outdated_def)
  then obtain r where r: "AddMember ls 9 (zero_state x) [] (nodeRegistry n) = Some r"
    by (simp add: AddMember_Some)
  let ?us = "notified (localSub n) (nodeRegistry n) r"
  have "i \<in> nodes (nodeCluster n)" if "clients (nodeCluster n) i \<noteq> None" for i
    using p(2) that by (auto simp: cluster_inv_def)
  then have "dom (clients (nodeCluster n)) \<subseteq> nodes (nodeCluster n)" unfolding dom_def by blast
  then have "finite (dom (clients (nodeCluster n)))"
    using p(2) finite_subset by (auto simp: cluster_inv_def)
  then obtain ks where ks: "iter_order ks (clients (nodeCluster n))" using iter_order_exists by blast
  let ?kss = "replicate (length ?us) ks"
  have g: "good_orders ?kss ?us (nodeCluster n)" using ks by (simp add: good_orders_def list_all_iff)
  obtain c' where c': "deliver ?kss ?us (nodeCluster n) = Some c'"
    using deliver_clients [of ?kss ?us, OF _ p(2)] g by (auto simp: good_orders_def)
  have s: "reg_step ls (Ev_add x) (nodeRegistry n) r" using step_add [OF r] by simp
  have "members r x \<noteq> None"
    using r node_reachable_inv [OF assms(1)] assms(2,3)
    by (auto simp: AddMember_Some members_update_result update_outdated_def node_inv_def)
  then show ?thesis
    using nd_serve [OF s _ refl g c'] by (intro exI [of _ "n\<lparr>nodeCluster := c', nodeRegistry := r\<rparr>"]) simp
qed

theorem node_replicates_owned_witness:
  "\<exists>n n' cl reqs ops cl'. run_for_peer sample_text ''p'' n reqs n' \<and> members (nodeRegistry n') ''x'' \<noteq> None \<and>
     clients (nodeCluster n) ''p'' = Some cl \<and> clients (nodeCluster n') ''p'' = Some cl' \<and>
     run_queue push_open take_open ops (pendingQ cl) = (map UpdMember reqs, pendingQ cl') \<and>
     follows has_left (owned_part n')
       (view member_id (visible \<lparr>ownerOnly = True\<rparr> ''fuddle-01234567'') (owned_part n) (pushed ops))"
proof -
  obtain n cl where n: "node_reachable sample_text n" "NodeID (nodeConfig n) = ''fuddle-01234567''"
    "clients (nodeCluster n) ''p'' = Some cl" "members (nodeRegistry n) ''x'' = None"
    using sample_node_joined by blast
  obtain n1 where n1: "node_step sample_text (Nd_serve (Ev_add ''x'')) n n1" "members (nodeRegistry n1) ''x'' \<noteq> None"
    using node_adds [OF n(1) _ n(4)] n(2) by auto
  have run: "run_for_peer sample_text ''p'' n [] n1" by (rule peer_step [OF peer_refl n1(1)]) simp
  obtain cl1 where cl1: "clients (nodeCluster n1) ''p'' = Some cl1"
    using node_replicates_owned [OF n(1) run n(3)] by blast
  obtain reqs cl' mt where send: "sendLoop (localID (nodeRegistry n1)) [True] cl1 (clientMetrics (nodeCluster n1)) =
    (reqs, cl', mt)" using prod_cases3 by blast
  let ?n = "n1\<lparr>nodeCluster := (nodeCluster n1)\<lparr>clients := (clients (nodeCluster n1))(''p'' \<mapsto> cl'), clientMetrics := mt\<rparr>\<rparr>"
  have "run_for_peer sample_text ''p'' n reqs ?n" using peer_send [OF run cl1 send] by simp
  moreover have "members (nodeRegistry ?n) ''x'' \<noteq> None" using n1(2) by simp
  ultimately obtain n2 where n2: "run_for_peer sample_text ''p'' n reqs n2" "members (nodeRegistry n2) ''x'' \<noteq> None"
    by blast
  obtain ops cl2 where "clients (nodeCluster n2) ''p'' = Some cl2"
    "run_queue push_open take_open ops (pendingQ cl) = (map UpdMember reqs, pendingQ cl2)"
    "follows has_left (owned_part n2)
      (view member_id (visible \<lparr>ownerOnly = True\<rparr> ''fuddle-01234567'') (owned_part n) (pushed ops))"
    using node_replicates_owned [OF n(1) n2(1) n(3)] unfolding n(2) by blast
  then show ?thesis using n2 n(3) by blast
qed

end
