(* ===== verification/CliInfo.thy ===== *)
theory CliInfo
  imports Node
begin

text \<open>
  The info command (pkg/cli/info) and the admin client it uses (pkg/admin/client): what is printed
  of a cluster and of a member, through the read server of a node. A printed line is a string, a
  table its rows; None is a panic, whatever was printed before it. The answer of a call is None when
  it fails.
\<close>

datatype info_error = MissingID | ConnectFailed | CallFailed | MemberNotFound

subsection \<open>The admin client\<close>

record admin_client_options =
  connectTimeout :: int

datatype admin_client_option = WithConnectTimeout int

fun apply_admin_client_option :: "admin_client_option \<Rightarrow> admin_client_options \<Rightarrow> admin_client_options" where
  "apply_admin_client_option (WithConnectTimeout t) opts = opts\<lparr>connectTimeout := t\<rparr>"

record admin_client =
  ac_addr :: string
  ac_conn :: bool

text \<open>\<open>dial addr timeout\<close> is the success of grpc.DialContext.\<close>

definition admin_connect :: "(string \<Rightarrow> int \<Rightarrow> bool) \<Rightarrow> string \<Rightarrow> int \<Rightarrow> bool option" where
  "admin_connect dial addr timeout = (if dial addr timeout then Some True else None)"

definition admin_Connect ::
  "(string \<Rightarrow> int \<Rightarrow> bool) \<Rightarrow> string \<Rightarrow> admin_client_option list \<Rightarrow> info_error + admin_client"
where
  "admin_Connect dial addr opts =
     (let options = fold apply_admin_client_option opts \<lparr>connectTimeout = 1000000000\<rparr>
      in case admin_connect dial addr (connectTimeout options) of
           None \<Rightarrow> Inl ConnectFailed
         | Some conn \<Rightarrow> Inr \<lparr>ac_addr = addr, ac_conn = conn\<rparr>)"

definition admin_Close :: "admin_client \<Rightarrow> admin_client" where
  "admin_Close c = c\<lparr>ac_conn := False\<rparr>"

definition admin_Members :: "member2 list option \<Rightarrow> info_error + member2 list" where
  "admin_Members rpc = (case rpc of None \<Rightarrow> Inl CallFailed | Some ms \<Rightarrow> Inr ms)"

definition admin_Member :: "member2 option option \<Rightarrow> info_error + member2" where
  "admin_Member rpc =
     (case rpc of
        None \<Rightarrow> Inl CallFailed
      | Some None \<Rightarrow> Inl MemberNotFound
      | Some (Some m) \<Rightarrow> Inr m)"

subsection \<open>The commands\<close>

text \<open>The default of the address flag.\<close>

definition info_addr_default :: string where
  "info_addr_default = ''localhost:8110''"

definition formatRevision :: "string \<Rightarrow> string" where
  "formatRevision revision = (if 25 < length revision then take 25 revision @ ''...'' else revision)"

record info_row =
  row_ID :: string
  row_Status :: string
  row_Service :: string
  row_Locality :: string
  row_Created :: int
  row_Revision :: string

definition info_row_of :: "member2 \<Rightarrow> info_row" where
  "info_row_of m = \<lparr>row_ID = MemberId (State m), row_Status = Status (State m), row_Service = Service (State m),
     row_Locality = (case Locality (State m) of None \<Rightarrow> '''' | Some l \<Rightarrow> AvailabilityZone l),
     row_Created = Started (State m), row_Revision = formatRevision (Revision (State m))\<rparr>"

definition displayMembers :: "member2 list \<Rightarrow> info_row list" where
  "displayMembers ms = map info_row_of (sort_key (\<lambda>m. MemberId (State m)) ms)"

text \<open>\<open>ks\<close> is the order in which the metadata is visited.\<close>

definition member_lines :: "string list \<Rightarrow> member2 \<Rightarrow> string list option" where
  "member_lines ks m =
     (let s = State m
      in case Locality s of
           None \<Rightarrow> None
         | Some l \<Rightarrow> Some
             ([''ID: '' @ MemberId s, ''Status: '' @ Status s, ''Service: '' @ Service s, ''Locality:'',
               ''    Region: '' @ Region l, ''    Availability Zone: '' @ AvailabilityZone l,
               ''Started: '' @ int_to_string (Started s), ''Revision: '' @ Revision s, ''Metadata:''] @
              map (\<lambda>k. ''    '' @ k @ '': '' @ (case Metadata s k of None \<Rightarrow> '''' | Some v \<Rightarrow> v)) (sort ks)))"

text \<open>\<open>rpc\<close> is the answer of the node at an address.\<close>

definition runClusterStatus ::
  "(string \<Rightarrow> int \<Rightarrow> bool) \<Rightarrow> string \<Rightarrow> (string \<Rightarrow> member2 list option) \<Rightarrow> info_error + info_row list"
where
  "runClusterStatus dial addr rpc =
     (case admin_Connect dial addr [] of
        Inl e \<Rightarrow> Inl e
      | Inr client \<Rightarrow>
          (case admin_Members (rpc (ac_addr client)) of Inl e \<Rightarrow> Inl e | Inr ms \<Rightarrow> Inr (displayMembers ms)))"

definition runMemberStatus ::
  "(string \<Rightarrow> int \<Rightarrow> bool) \<Rightarrow> string \<Rightarrow> string list \<Rightarrow> (string \<Rightarrow> string \<Rightarrow> member2 option option) \<Rightarrow> string list \<Rightarrow>
     (info_error + string list) option"
where
  "runMemberStatus dial addr args rpc ks =
     (case args of
        [] \<Rightarrow> Some (Inl MissingID)
      | i # _ \<Rightarrow>
          (case admin_Connect dial addr [] of
             Inl e \<Rightarrow> Some (Inl e)
           | Inr client \<Rightarrow>
               (case admin_Member (rpc (ac_addr client) i) of
                  Inl e \<Rightarrow> Some (Inl e)
                | Inr m \<Rightarrow> map_option Inr (member_lines ks m))))"

lemma admin_Connect_default:
  "dial addr 1000000000 \<Longrightarrow> admin_Connect dial addr [] = Inr \<lparr>ac_addr = addr, ac_conn = True\<rparr>"
  by (simp add: admin_Connect_def admin_connect_def)


subsection \<open>Properties\<close>

lemma Members_facts:
  assumes "reg_inv ls r" and "iter_order ms (members r)"
  shows "distinct (map (\<lambda>m. MemberId (State m)) (Members ms r))"
    "set (Members ms r) = {m. members r (MemberId (State m)) = Some m}"
proof -
  show "distinct (map (\<lambda>m. MemberId (State m)) (Members ms r))"
    unfolding Members_def
    by (rule map_filter_distinct_key) (use assms reg_inv_id in \<open>auto dest: iter_order_distinct\<close>)
  show "set (Members ms r) = {m. members r (MemberId (State m)) = Some m}"
    using reg_inv_id [OF assms(1)] iter_order_mem [OF assms(2)] by (force simp: Members_def set_map_filter)
qed

lemma sort_members_unique:
  assumes "distinct (map f xs)" and "distinct (map f ys)" and "set xs = set ys"
  shows "sort_key f xs = sort_key (f :: 'a \<Rightarrow> string) ys"
proof (rule sort_key_inj_key_eq)
  have "distinct xs" "distinct ys" using assms(1,2) by (auto simp: distinct_map)
  then show "mset xs = mset (sort_key f ys)" using assms(3) by (simp add: set_eq_iff_mset_eq_distinct)
  show "inj_on f (set xs)" using assms(1) by (simp add: distinct_map)
  show "sorted (map f (sort_key f ys))" by simp
qed

text \<open>
  The cluster overview shows every member once, in the order of the ids. What is printed for a
  registry does not depend on the order in which its map is visited; the ids are strictly
  increasing and are exactly those of the registry's members; and no revision is longer than 28
  characters.
\<close>
theorem info_cluster_rows:
  assumes "reg_inv ls r" and "iter_order ms (members r)" and "iter_order ms' (members r)"
    and "dial addr 1000000000"
  shows "runClusterStatus dial addr (\<lambda>_. Some (ClientReadServer_Members ms r)) =
      runClusterStatus dial addr (\<lambda>_. Some (ClientReadServer_Members ms' r)) \<and>
    (\<exists>rows. runClusterStatus dial addr (\<lambda>_. Some (ClientReadServer_Members ms r)) = Inr rows \<and>
      sorted_wrt (<) (map row_ID rows) \<and> set (map row_ID rows) = dom (members r) \<and>
      (\<forall>row \<in> set rows. length (row_Revision row) \<le> 28))"
proof -
  let ?f = "\<lambda>m. MemberId (State m)"
  note s = Members_facts [OF assms(1,2)] and s' = Members_facts [OF assms(1,3)]
  have eq: "sort_key ?f (Members ms r) = sort_key ?f (Members ms' r)"
    by (rule sort_members_unique [OF s(1) s'(1)]) (simp only: s(2) s'(2))
  have ids: "map row_ID (displayMembers (Members ms r)) = map ?f (sort_key ?f (Members ms r))"
    by (simp add: displayMembers_def info_row_of_def)
  have "distinct (map ?f (sort_key ?f (Members ms r)))" using s(1) by (simp add: distinct_map)
  then have srt: "sorted_wrt (<) (map row_ID (displayMembers (Members ms r)))"
    unfolding ids by (simp add: strict_sorted_iff)
  have "set (map row_ID (displayMembers (Members ms r))) = ?f ` set (Members ms r)" by (simp only: ids) simp
  also have "\<dots> = dom (members r)"
  proof (intro set_eqI iffI)
    show "i \<in> dom (members r)" if "i \<in> ?f ` set (Members ms r)" for i
      using that unfolding s(2) by blast
    show "i \<in> ?f ` set (Members ms r)" if i: "i \<in> dom (members r)" for i
    proof -
      obtain m where m: "members r i = Some m" using i by blast
      then have "?f m = i" by (rule reg_inv_id [OF assms(1)])
      then show ?thesis using m unfolding s(2) by (intro image_eqI [of _ _ m]) auto
    qed
  qed
  finally have dm: "set (map row_ID (displayMembers (Members ms r))) = dom (members r)" .
  have "length (row_Revision row) \<le> 28" if "row \<in> set (displayMembers (Members ms r))" for row
    using that by (auto simp: displayMembers_def info_row_of_def formatRevision_def)
  moreover have "runClusterStatus dial addr (\<lambda>_. Some (ClientReadServer_Members q r)) = Inr (displayMembers (Members q r))"
    for q by (simp add: runClusterStatus_def admin_Connect_default [of dial, OF assms(4)] admin_Members_def
        ClientReadServer_Members_def)
  moreover have "displayMembers (Members ms r) = displayMembers (Members ms' r)"
    by (simp add: displayMembers_def eq)
  ultimately show ?thesis using srt dm by metis
qed

theorem info_cluster_rows_witness:
  "\<exists>rows. runClusterStatus (\<lambda>_ _. True) info_addr_default (\<lambda>_. Some (ClientReadServer_Members [''m''] sample_registry)) =
       Inr rows \<and> set (map row_ID rows) = {''m''}"
  using info_cluster_rows [OF sample_registry_inv sample_order sample_order, of "\<lambda>_ _. True" info_addr_default]
  by auto

text \<open>
  C39: the command for a single member panics on every member without a locality, although the
  overview shows it; and every node registers itself without one, so asking any node for itself
  always panics.
\<close>
theorem info_member_panics:
  assumes "node_reachable ls n" and "dial addr 1000000000"
  shows "(members (nodeRegistry n) i = Some m \<longrightarrow>
      (runMemberStatus dial addr [i] (\<lambda>_ j. Some (ClientReadServer_Member j (nodeRegistry n))) ks = None \<longleftrightarrow>
        Locality (State m) = None)) \<and>
    runMemberStatus dial addr [NodeID (nodeConfig n)] (\<lambda>_ j. Some (ClientReadServer_Member j (nodeRegistry n))) ks = None"
proof -
  obtain started m' where "members (nodeRegistry n) (NodeID (nodeConfig n)) = Some m'"
    "State m' = node_member (nodeConfig n) started"
    using node_consistent_own [OF assms(1)] by blast
  then show ?thesis
    by (auto simp: runMemberStatus_def admin_Connect_default [of dial, OF assms(2)] admin_Member_def ClientReadServer_Member_def LookupMember_def
        member_lines_def node_member_def Let_def split: option.splits)
qed

theorem info_member_panics_witness:
  "\<exists>n. NewNode sample_text 5 5 sample_world [] (DefaultConfig ''01234567'') = Inr n \<and>
     runMemberStatus (\<lambda>_ _. True) info_addr_default [''fuddle-01234567''] (\<lambda>_ j. Some (ClientReadServer_Member j (nodeRegistry n))) [] = None"
proof -
  obtain n where n: "NewNode sample_text 5 5 sample_world [] (DefaultConfig ''01234567'') = Inr n"
    "NodeID (nodeConfig n) = ''fuddle-01234567''" using sample_node_started by blast
  show ?thesis using info_member_panics [OF node_started [OF n(1)], of "\<lambda>_ _. True"] n by auto
qed

end
