(* ===== verification/Network.thy ===== *)
theory Network
  imports Replication
begin

text \<open>
  Many nodes repairing each other (ReplicaRepair of pkg/cluster and the two ends of a Sync call): a
  network is the registry of every node, and a run is a sequence of repair rounds between any two
  of them. What a round does to one member is refined to a rumour: the nodes that hold a version of
  the member, and the nodes that will ask for it.
\<close>

type_synonym network = "string \<Rightarrow> registry"

text \<open>A round: the node that asks, the node it asks, and the order and permutation of its digest.\<close>

record repair =
  rp_near :: string
  rp_far :: string
  rp_prio :: "string list"
  rp_members :: "string list"
  rp_perm :: "nat list"
  rp_client :: replica_client

definition net_round :: "(liveness \<Rightarrow> string) \<Rightarrow> repair \<Rightarrow> network \<Rightarrow> network" where
  "net_round ls rd net =
     (case repair_round ls (rp_prio rd) (rp_members rd) (rp_perm rd) (rp_client rd)
        (net (rp_near rd)) (net (rp_far rd)) of
        (near, far) \<Rightarrow> net(rp_near rd := near, rp_far rd := far))"

definition round_digest :: "repair \<Rightarrow> network \<Rightarrow> digest" where
  "round_digest rd net = fst (Digest (rp_prio rd) (rp_members rd) (rp_perm rd) (digestLimit (rp_client rd))
     (net (rp_near rd)))"

text \<open>A round of two different nodes, with the choices Go can make.\<close>

definition round_ok :: "repair \<Rightarrow> network \<Rightarrow> bool" where
  "round_ok rd net \<longleftrightarrow> rp_near rd \<noteq> rp_far rd \<and>
     valid_digest_args (rp_prio rd) (rp_members rd) (rp_perm rd) (net (rp_near rd))"

text \<open>A digest that is not cut off at its limit.\<close>

definition round_complete :: "repair \<Rightarrow> network \<Rightarrow> bool" where
  "round_complete rd net \<longleftrightarrow>
     (let r = net (rp_near rd)
      in finite (priorityMembers r) \<and> int (card (priorityMembers r \<union> dom (members r))) < digestLimit (rp_client rd))"

fun along :: "(liveness \<Rightarrow> string) \<Rightarrow> (repair \<Rightarrow> network \<Rightarrow> bool) \<Rightarrow> repair list \<Rightarrow> network \<Rightarrow> bool" where
  "along ls P [] net = True"
| "along ls P (rd # rds) net = (P rd net \<and> along ls P rds (net_round ls rd net))"

abbreviation net_run :: "(liveness \<Rightarrow> string) \<Rightarrow> repair list \<Rightarrow> network \<Rightarrow> network" where
  "net_run ls rds net \<equiv> fold (net_round ls) rds net"

lemma along_append:
  "along ls P (rds @ rds') net \<longleftrightarrow> along ls P rds net \<and> along ls P rds' (net_run ls rds net)"
  by (induction rds arbitrary: net) auto

subsection \<open>The rumour\<close>

text \<open>Which rounds ask for the member, in a run.\<close>

fun asked :: "(liveness \<Rightarrow> string) \<Rightarrow> string \<Rightarrow> repair list \<Rightarrow> network \<Rightarrow> (string \<times> string \<times> bool) list" where
  "asked ls i [] net = []"
| "asked ls i (rd # rds) net =
     (rp_near rd, rp_far rd, i \<in> digest_ids (round_digest rd net)) # asked ls i rds (net_round ls rd net)"

text \<open>
  The nodes that hold the member and those that will ask for it. A node that asks a holder becomes a
  holder. Asking any other node passes the question on: the asking node strikes the member from its
  list, and the other node puts it on its own.
\<close>

fun rumour_step :: "string \<times> string \<times> bool \<Rightarrow> string set \<times> string set \<Rightarrow> string set \<times> string set" where
  "rumour_step (b, a, False) (H, A) = (H, A)"
| "rumour_step (b, a, True) (H, A) =
     (if a \<in> H then (insert b H, A - {b}) else (H, insert a (A - {b})))"

definition holds :: "string \<Rightarrow> monotonic_timestamp \<Rightarrow> registry \<Rightarrow> bool" where
  "holds i t r \<longleftrightarrow> (\<exists>e. members r i = Some e \<and> t \<le> VTimestamp (Version e))"

definition knows :: "string \<Rightarrow> registry \<Rightarrow> bool" where
  "knows i r \<longleftrightarrow> i \<in> priorityMembers r \<union> dom (members r)"

text \<open>
  The nodes of the rounds, and what they agree on. The member is owned by one node throughout: every
  version they store names it as owner, and it and the member itself, which refuse updates of it,
  hold the version from the start.
\<close>

definition within :: "string set \<Rightarrow> repair \<Rightarrow> bool" where
  "within N rd \<longleftrightarrow> rp_near rd \<in> N \<and> rp_far rd \<in> N"

definition one_owner ::
  "(liveness \<Rightarrow> string) \<Rightarrow> string set \<Rightarrow> string \<Rightarrow> string \<Rightarrow> monotonic_timestamp \<Rightarrow> network \<Rightarrow> bool"
where
  "one_owner ls N i own t net \<longleftrightarrow> (\<forall>n \<in> N. reg_inv ls (net n) \<and>
     (\<forall>e. members (net n) i = Some e \<longrightarrow> OwnerId (Version e) = own) \<and>
     (localID (net n) \<in> {i, own} \<longrightarrow> holds i t (net n)))"

subsection \<open>What a round does\<close>

lemma holds_fold: "holds i t r \<Longrightarrow> holds i t (fold (RemoteUpdate ls) us r)"
proof -
  assume "holds i t r"
  then obtain e where e: "members r i = Some e" "t \<le> VTimestamp (Version e)" by (auto simp: holds_def)
  obtain e' where e': "members (fold (RemoteUpdate ls) us r) i = Some e'"
    "e' = e \<or> newer (Version e) (Version e')"
    using store.fold_monotone [OF e(1)] by blast
  then have "VTimestamp (Version e) \<le> VTimestamp (Version e')" by (auto simp: newer_iff_timestamp)
  then show ?thesis using e' e(2) by (auto simp: holds_def intro: order_trans)
qed

lemma fold_RemoteUpdate_entry:
  "members (fold (RemoteUpdate ls) us r) i = Some e \<Longrightarrow>
     members r i = Some e \<or> (e \<in> set us \<and> member_id e = i)"
proof (induction us arbitrary: r)
  case (Cons u us)
  then show ?case by (fastforce simp: members_RemoteUpdate member_id_def split: if_splits)
qed simp

text \<open>The two registries after a round, by what its digest named.\<close>

lemma net_round_eq:
  assumes "round_ok rd net"
  obtains near1 where
    "Digest (rp_prio rd) (rp_members rd) (rp_perm rd) (digestLimit (rp_client rd)) (net (rp_near rd)) =
       (round_digest rd net, near1)"
    "net_round ls rd net = net
       (rp_near rd := fold (RemoteUpdate ls) (fst (Delta (round_digest rd net) (net (rp_far rd)))) near1,
        rp_far rd := snd (Delta (round_digest rd net) (net (rp_far rd))))"
proof -
  let ?near1 = "snd (Digest (rp_prio rd) (rp_members rd) (rp_perm rd) (digestLimit (rp_client rd)) (net (rp_near rd)))"
  have d: "Digest (rp_prio rd) (rp_members rd) (rp_perm rd) (digestLimit (rp_client rd)) (net (rp_near rd)) =
      (round_digest rd net, ?near1)" by (simp add: round_digest_def)
  show ?thesis
    by (rule that [OF d]) (simp add: net_round_def repair_round_eq [OF d])
qed

lemma Digest_fields:
  assumes "Digest ps ms perm lim r = (d, r1)" and "valid_digest_args ps ms perm r"
  shows "good_digest (members r) d" "members r1 = members r" "localID r1 = localID r"
    "priorityMembers r1 = priorityMembers r - digest_ids d" "reg_inv ls r1 = reg_inv ls r"
proof -
  obtain prio' where run: "digest_of (members r) ps ms perm lim (priorityMembers r) = (d, prio')"
    and r1: "r1 = r\<lparr>priorityMembers := prio'\<rparr>"
    using assms(1) by (auto simp: Digest_def split: prod.splits)
  have args: "set ps = priorityMembers r" "mset perm = mset [0..<length ms]"
    using assms(2) by (simp_all add: valid_digest_args_def)
  note spec = digest_of_spec [OF run args]
  show "good_digest (members r) d" using spec by blast
  show "members r1 = members r" "localID r1 = localID r" "reg_inv ls r1 = reg_inv ls r" using r1 by simp_all
  have "prio' = priorityMembers r - digest_ids d" using spec by blast
  then show "priorityMembers r1 = priorityMembers r - digest_ids d" using r1 by simp
qed

lemma fold_RemoteUpdate_frame [simp]:
  "localID (fold (RemoteUpdate ls) us r) = localID r"
  "priorityMembers (fold (RemoteUpdate ls) us r) = priorityMembers r"
  by (induction us arbitrary: r) simp_all

lemma Delta_prio:
  assumes "(i, s) \<in> set d"
  shows "knows i (snd (Delta d r))"
  using assms by (cases "delta_answer (members r) (i, s)")
    (auto simp: knows_def Delta_eq delta_answer_Some)

lemma knows_Delta: "knows i r \<Longrightarrow> knows i (snd (Delta d r))"
  by (auto simp: knows_def Delta_eq)

lemma holds_knows: "holds i t r \<Longrightarrow> knows i r"
  by (auto simp: holds_def knows_def)

lemma round_monotone:
  assumes "round_ok rd net"
  shows "holds i t (net n) \<Longrightarrow> holds i t (net_round ls rd net n)"
    "knows i (net n) \<Longrightarrow> n \<noteq> rp_near rd \<or> i \<notin> digest_ids (round_digest rd net) \<Longrightarrow> knows i (net_round ls rd net n)"
    "localID (net_round ls rd net n) = localID (net n)"
proof -
  obtain near1 where d: "Digest (rp_prio rd) (rp_members rd) (rp_perm rd) (digestLimit (rp_client rd))
      (net (rp_near rd)) = (round_digest rd net, near1)"
    and r: "net_round ls rd net = net
      (rp_near rd := fold (RemoteUpdate ls) (fst (Delta (round_digest rd net) (net (rp_far rd)))) near1,
       rp_far rd := snd (Delta (round_digest rd net) (net (rp_far rd))))"
    by (rule net_round_eq [OF assms])
  have a: "valid_digest_args (rp_prio rd) (rp_members rd) (rp_perm rd) (net (rp_near rd))"
    using assms by (simp add: round_ok_def)
  note f = Digest_fields [OF d a]
  show "holds i t (net_round ls rd net n)" if "holds i t (net n)"
    using that f(2) holds_fold [of i t near1] by (auto simp: r holds_def)
  show "localID (net_round ls rd net n) = localID (net n)" by (simp add: r f(3))
  show "knows i (net_round ls rd net n)"
    if k: "knows i (net n)" "n \<noteq> rp_near rd \<or> i \<notin> digest_ids (round_digest rd net)"
  proof -
    consider "n = rp_far rd" | "n = rp_near rd" "n \<noteq> rp_far rd" | "n \<noteq> rp_near rd" "n \<noteq> rp_far rd" by blast
    then show ?thesis
    proof cases
      case 1
      then show ?thesis using k(1) knows_Delta by (simp add: r)
    next
      case 2
      have "\<exists>e. members (fold (RemoteUpdate ls) us near1) i = Some e" if "members near1 i = Some e" for us e
        using store.fold_monotone [OF that] by blast
      then show ?thesis using k 2 f(2,4) by (auto simp: r knows_def)
    next
      case 3
      then show ?thesis using k(1) by (simp add: r)
    qed
  qed
qed

lemma one_owner_round:
  assumes "one_owner ls N i own t net" and "round_ok rd net" and "within N rd"
  shows "one_owner ls N i own t (net_round ls rd net)"
proof -
  obtain near1 where d: "Digest (rp_prio rd) (rp_members rd) (rp_perm rd) (digestLimit (rp_client rd))
      (net (rp_near rd)) = (round_digest rd net, near1)"
    and r: "net_round ls rd net = net
      (rp_near rd := fold (RemoteUpdate ls) (fst (Delta (round_digest rd net) (net (rp_far rd)))) near1,
       rp_far rd := snd (Delta (round_digest rd net) (net (rp_far rd))))"
    by (rule net_round_eq [OF assms(2)])
  have a: "valid_digest_args (rp_prio rd) (rp_members rd) (rp_perm rd) (net (rp_near rd))"
    using assms(2) by (simp add: round_ok_def)
  note f = Digest_fields [OF d a]
  have inv: "n \<in> N \<Longrightarrow> reg_inv ls (net n)"
    and own: "n \<in> N \<Longrightarrow> members (net n) i = Some e \<Longrightarrow> OwnerId (Version e) = own" for n e
    using assms(1) by (auto simp: one_owner_def)
  have N: "rp_near rd \<in> N" "rp_far rd \<in> N" using assms(3) by (simp_all add: within_def)
  have "reg_inv ls (net_round ls rd net n)" if "n \<in> N" for n
    using inv [OF that] f(5) inv [OF N(1)] inv [OF N(2)]
    by (simp add: r reg_inv_fold_RemoteUpdate)
  moreover have "OwnerId (Version e) = own" if n: "n \<in> N" and e: "members (net_round ls rd net n) i = Some e" for n e
  proof (cases "n = rp_near rd \<and> n \<noteq> rp_far rd")
    case True
    then have "members near1 i = Some e \<or> (e \<in> set (fst (Delta (round_digest rd net) (net (rp_far rd)))) \<and> member_id e = i)"
      using e fold_RemoteUpdate_entry [of ls _ near1 i e] by (auto simp: r)
    moreover have "OwnerId (Version e) = own" if u: "e \<in> set (fst (Delta (round_digest rd net) (net (rp_far rd))))" "member_id e = i"
    proof -
      obtain j s m where "members (net (rp_far rd)) j = Some m" "e = copyMember m"
        using u(1) by (auto simp: set_fst_Delta)
      then show ?thesis using own [OF N(2)] reg_inv_id [OF inv [OF N(2)]] u(2) by (auto simp: member_id_def)
    qed
    ultimately show ?thesis using own [OF N(1)] f(2) by auto
  next
    case False
    then show ?thesis using e own [OF n] by (cases "n = rp_far rd") (auto simp: r)
  qed
  moreover have "holds i t (net_round ls rd net n)" if "n \<in> N" "localID (net_round ls rd net n) \<in> {i, own}" for n
    using that assms(1) round_monotone(1,3) [OF assms(2)] by (auto simp: one_owner_def)
  ultimately show ?thesis by (simp add: one_owner_def)
qed

text \<open>Asking a holder makes a holder.\<close>

lemma ask_holder:
  assumes "one_owner ls N i own t net" and "round_ok rd net" and "within N rd" and "MonotonicTimestamp 0 0 < t"
    and "i \<in> digest_ids (round_digest rd net)" and "holds i t (net (rp_far rd))"
  shows "holds i t (net_round ls rd net (rp_near rd))"
proof (cases "localID (net (rp_near rd)) \<in> {i, own}")
  case True
  then show ?thesis using assms(1,3) round_monotone(1) [OF assms(2)] by (auto simp: one_owner_def within_def)
next
  case False
  obtain near1 where d: "Digest (rp_prio rd) (rp_members rd) (rp_perm rd) (digestLimit (rp_client rd))
      (net (rp_near rd)) = (round_digest rd net, near1)" by (rule net_round_eq [OF assms(2)])
  have a: "valid_digest_args (rp_prio rd) (rp_members rd) (rp_perm rd) (net (rp_near rd))" "rp_near rd \<noteq> rp_far rd"
    using assms(2) by (simp_all add: round_ok_def)
  obtain m where m: "members (net (rp_far rd)) i = Some m" "t \<le> VTimestamp (Version m)"
    using assms(6) by (auto simp: holds_def)
  have N: "rp_near rd \<in> N" "rp_far rd \<in> N" using assms(3) by (simp_all add: within_def)
  have inv: "reg_inv ls (net (rp_far rd))" using assms(1) N by (simp add: one_owner_def)
  have o: "OwnerId (Version m) = own" using assms(1) m(1) N by (auto simp: one_owner_def)
  have near: "net_round ls rd net (rp_near rd) = fst (repair_round ls (rp_prio rd) (rp_members rd) (rp_perm rd)
      (rp_client rd) (net (rp_near rd)) (net (rp_far rd)))"
    using a(2) by (simp add: net_round_def split: prod.split)
  obtain e where e: "members (net_round ls rd net (rp_near rd)) i = Some e" "\<not> newer (Version e) (Version m)"
    using repair_not_behind [OF d Digest_fields(1) [OF d a(1)] assms(5) m(1) reg_inv_id [OF inv m(1)], of ls]
      False o less_le_trans [OF assms(4) m(2)] unfolding near by auto
  have "OwnerId (Version e) = own"
    using one_owner_round [OF assms(1-3)] e(1) N by (auto simp: one_owner_def)
  then have "VTimestamp (Version m) \<le> VTimestamp (Version e)" using e(2) o by (auto simp: newer_iff_timestamp)
  then show ?thesis using e(1) m(2) by (auto simp: holds_def)
qed

subsection \<open>The run refines the rumour\<close>

definition rumour_sound :: "string \<Rightarrow> monotonic_timestamp \<Rightarrow> network \<Rightarrow> string set \<times> string set \<Rightarrow> bool" where
  "rumour_sound i t net HA \<longleftrightarrow> (\<forall>n \<in> fst HA. holds i t (net n)) \<and> (\<forall>n \<in> snd HA. knows i (net n))"

lemma rumour_step_sound:
  assumes "one_owner ls N i own t net" and "round_ok rd net" and "within N rd" and "MonotonicTimestamp 0 0 < t"
    and "rumour_sound i t net HA"
  shows "rumour_sound i t (net_round ls rd net)
    (rumour_step (rp_near rd, rp_far rd, i \<in> digest_ids (round_digest rd net)) HA)"
proof -
  obtain H A where HA: "HA = (H, A)" by (cases HA)
  let ?net = "net_round ls rd net"
  note mono = round_monotone [OF assms(2), where ls = ls]
  have H: "holds i t (?net n)" if "n \<in> H" for n using that assms(5) mono(1) by (simp add: rumour_sound_def HA)
  have A: "knows i (?net n)" if "n \<in> A" "n \<noteq> rp_near rd \<or> i \<notin> digest_ids (round_digest rd net)" for n
    using that assms(5) mono(2) by (simp add: rumour_sound_def HA)
  show ?thesis
  proof (cases "i \<in> digest_ids (round_digest rd net)")
    case False
    then show ?thesis using H A by (simp add: rumour_sound_def HA)
  next
    case True
    have near: "holds i t (?net (rp_near rd))" if "rp_far rd \<in> H"
      using ask_holder [OF assms(1-4) True] that assms(5) by (simp add: rumour_sound_def HA)
    obtain near1 where r: "?net = net
        (rp_near rd := fold (RemoteUpdate ls) (fst (Delta (round_digest rd net) (net (rp_far rd)))) near1,
         rp_far rd := snd (Delta (round_digest rd net) (net (rp_far rd))))" by (rule net_round_eq [OF assms(2)])
    obtain s where "(i, s) \<in> set (round_digest rd net)" using True by (auto simp: digest_ids_def)
    then have "knows i (?net (rp_far rd))" using Delta_prio by (simp add: r)
    then show ?thesis using True H A near by (auto simp: rumour_sound_def HA)
  qed
qed

lemma run_sound:
  assumes "one_owner ls N i own t net" and "along ls round_ok rds net" and "\<forall>rd \<in> set rds. within N rd"
    and "MonotonicTimestamp 0 0 < t" and "rumour_sound i t net HA"
  shows "rumour_sound i t (net_run ls rds net) (fold rumour_step (asked ls i rds net) HA) \<and>
    one_owner ls N i own t (net_run ls rds net)"
  using assms
proof (induction rds arbitrary: net HA)
  case (Cons rd rds)
  then show ?case using rumour_step_sound [of ls N i own t net rd HA] one_owner_round [of ls N i own t net rd] by simp
qed simp

text \<open>A digest that is not cut off asks for everything its node knows.\<close>

lemma complete_asks:
  assumes "round_ok rd net" and "round_complete rd net" and "knows i (net (rp_near rd))"
  shows "i \<in> digest_ids (round_digest rd net)"
proof -
  obtain near1 where d: "Digest (rp_prio rd) (rp_members rd) (rp_perm rd) (digestLimit (rp_client rd))
      (net (rp_near rd)) = (round_digest rd net, near1)" by (rule net_round_eq [OF assms(1)])
  have "digest_ids (round_digest rd net) =
      priorityMembers (net (rp_near rd)) \<union> dom (members (net (rp_near rd)))"
    using Digest_complete [OF d] assms(1,2) by (auto simp: round_ok_def round_complete_def Let_def)
  then show ?thesis using assms(3) by (simp add: knows_def)
qed

text \<open>A node that visits others, each asking and being asked, makes all of them holders.\<close>

definition visits :: "string \<Rightarrow> string list \<Rightarrow> repair list \<Rightarrow> bool" where
  "visits p qs rds \<longleftrightarrow> map (\<lambda>rd. (rp_near rd, rp_far rd)) rds = concat (map (\<lambda>q. [(p, q), (q, p)]) qs)"

lemma pair_spreads:
  assumes "one_owner ls N i own t net" and "MonotonicTimestamp 0 0 < t" and "holds i t (net p)"
    and "along ls round_ok [r1, r2] net" and "along ls round_complete [r1, r2] net"
    and "rp_near r1 = p" "rp_far r1 = q" "rp_near r2 = q" "rp_far r2 = p" and "p \<in> N" "q \<in> N"
  shows "holds i t (net_run ls [r1, r2] net q)"
proof -
  let ?net = "net_round ls r1 net"
  have ok: "round_ok r1 net" "round_ok r2 ?net" and full: "round_complete r1 net" "round_complete r2 ?net"
    using assms(4,5) by simp_all
  have N: "within N r1" "within N r2" using assms(6-11) by (simp_all add: within_def)
  have "i \<in> digest_ids (round_digest r1 net)"
    by (rule complete_asks [OF ok(1) full(1)]) (use holds_knows assms(3,6) in auto)
  then have "rumour_sound i t ?net ({p}, {q})"
    using rumour_step_sound [OF assms(1) ok(1) N(1) assms(2), of "({p}, {})"] assms(3,6,7) ok(1)
    by (auto simp: rumour_sound_def round_ok_def split: if_splits)
  then have k: "knows i (?net q)" "holds i t (?net p)" by (simp_all add: rumour_sound_def)
  have "i \<in> digest_ids (round_digest r2 ?net)"
    by (rule complete_asks [OF ok(2) full(2)]) (use k(1) assms(8) in simp)
  then show ?thesis
    using ask_holder [OF one_owner_round [OF assms(1) ok(1) N(1)] ok(2) N(2) assms(2)] k(2) assms(8,9) by simp
qed

lemma holds_run:
  "along ls round_ok rds net \<Longrightarrow> holds i t (net n) \<Longrightarrow> holds i t (net_run ls rds net n)"
  by (induction rds arbitrary: net) (simp_all add: round_monotone(1))

lemma visits_spread:
  assumes "one_owner ls N i own t net" and "MonotonicTimestamp 0 0 < t" and "holds i t (net p)"
    and "along ls round_ok rds net" and "along ls round_complete rds net" and "visits p qs rds" and "set (p # qs) \<subseteq> N"
  shows "\<forall>q \<in> set (p # qs). holds i t (net_run ls rds net q)"
  using assms
proof (induction qs arbitrary: rds net)
  case Nil
  then show ?case by (simp add: visits_def)
next
  case (Cons q qs)
  then obtain r1 r2 rds' where rds: "rds = [r1, r2] @ rds'" "rp_near r1 = p" "rp_far r1 = q" "rp_near r2 = q"
    "rp_far r2 = p" "visits p qs rds'"
    by (cases rds; cases "tl rds") (auto simp: visits_def)
  let ?net = "net_run ls [r1, r2] net"
  have a: "along ls round_ok [r1, r2] net" "along ls round_complete [r1, r2] net"
    "along ls round_ok rds' ?net" "along ls round_complete rds' ?net"
    using Cons.prems(4,5) unfolding rds(1) along_append by auto
  have N: "p \<in> N" "q \<in> N" "set (p # qs) \<subseteq> N" using Cons.prems(7) by auto
  have w: "\<forall>rd \<in> set [r1, r2]. within N rd" using rds(2-5) N by (auto simp: within_def)
  have q: "holds i t (?net q)" by (rule pair_spreads [OF Cons.prems(1-3) a(1,2) rds(2-5)]) (use N in auto)
  have o: "one_owner ls N i own t ?net"
    using run_sound [OF Cons.prems(1) a(1) w Cons.prems(2), of "({}, {})"] by (simp add: rumour_sound_def)
  have "\<forall>q \<in> set (p # qs). holds i t (net_run ls rds' ?net q)"
    by (rule Cons.IH [OF o Cons.prems(2) holds_run [OF a(1) Cons.prems(3)] a(3,4) rds(6) N(3)])
  moreover have "holds i t (net_run ls rds' ?net q)" by (rule holds_run [OF a(3) q])
  ultimately show ?case by (simp add: rds(1))
qed


text \<open>
  C6: repair spreads a member through a network of any number of nodes. For every run of rounds
  between some of them, in any order and with any digest limits, what the nodes store and ask for is at
  least the rumour: a node that asks a holder holds the member from then on, and a node that asks
  another passes the question on to it. When a holder visits others, asks each and is asked by each,
  and no digest is cut off, all of them hold it. The version held is the one the rumour started
  from or a newer one, while the member's owner does not change.
\<close>
theorem repair_spreads:
  assumes "one_owner ls N i own t net" and "along ls round_ok rds net" and "\<forall>rd \<in> set rds. within N rd"
    and "MonotonicTimestamp 0 0 < t" and "\<forall>n \<in> H. holds i t (net n)" and "\<forall>n \<in> A. knows i (net n)"
  shows "(case fold rumour_step (asked ls i rds net) (H, A) of (H', A') \<Rightarrow>
      (\<forall>n \<in> H'. holds i t (net_run ls rds net n)) \<and> (\<forall>n \<in> A'. knows i (net_run ls rds net n))) \<and>
    (\<forall>p qs. p \<in> H \<longrightarrow> set (p # qs) \<subseteq> N \<longrightarrow> visits p qs rds \<longrightarrow> along ls round_complete rds net \<longrightarrow>
      (\<forall>q \<in> set qs. holds i t (net_run ls rds net q)))"
proof (intro conjI allI impI)
  have "rumour_sound i t net (H, A)" using assms(5,6) by (simp add: rumour_sound_def)
  then show "case fold rumour_step (asked ls i rds net) (H, A) of (H', A') \<Rightarrow>
      (\<forall>n \<in> H'. holds i t (net_run ls rds net n)) \<and> (\<forall>n \<in> A'. knows i (net_run ls rds net n))"
    using run_sound [OF assms(1-4)] by (auto simp: rumour_sound_def split: prod.split)
next
  fix p qs assume "p \<in> H" "set (p # qs) \<subseteq> N" "visits p qs rds" "along ls round_complete rds net"
  then show "\<forall>q \<in> set qs. holds i t (net_run ls rds net q)"
    using visits_spread [OF assms(1,4) _ assms(2)] assms(5) by auto
qed

text \<open>The question is passed on: a node that asks about a member it does not store no longer asks.\<close>

lemma asker_forgets:
  assumes "round_ok rd net" and "i \<in> digest_ids (round_digest rd net)"
    and "members (net (rp_near rd)) i = None" and "members (net (rp_far rd)) i = None" and "\<And>n. reg_inv ls (net n)"
  shows "\<not> knows i (net_round ls rd net (rp_near rd)) \<and> i \<in> priorityMembers (net_round ls rd net (rp_far rd))"
proof -
  obtain near1 where d: "Digest (rp_prio rd) (rp_members rd) (rp_perm rd) (digestLimit (rp_client rd))
      (net (rp_near rd)) = (round_digest rd net, near1)"
    and r: "net_round ls rd net = net
      (rp_near rd := fold (RemoteUpdate ls) (fst (Delta (round_digest rd net) (net (rp_far rd)))) near1,
       rp_far rd := snd (Delta (round_digest rd net) (net (rp_far rd))))"
    by (rule net_round_eq [OF assms(1)])
  have a: "valid_digest_args (rp_prio rd) (rp_members rd) (rp_perm rd) (net (rp_near rd))" "rp_near rd \<noteq> rp_far rd"
    using assms(1) by (simp_all add: round_ok_def)
  note f = Digest_fields [OF d a(1)]
  let ?us = "fst (Delta (round_digest rd net) (net (rp_far rd)))"
  have "members (fold (RemoteUpdate ls) ?us near1) i = None"
  proof (rule ccontr)
    assume "members (fold (RemoteUpdate ls) ?us near1) i \<noteq> None"
    then obtain e where "e \<in> set ?us" "member_id e = i"
      using fold_RemoteUpdate_entry [of ls ?us near1 i] assms(3) f(2) by auto
    then show False using assms(4) reg_inv_id [OF assms(5)] by (force simp: set_fst_Delta member_id_def)
  qed
  moreover have "i \<notin> priorityMembers near1" using f(4) assms(2) by simp
  moreover obtain s where "(i, s) \<in> set (round_digest rd net)" using assms(2) by (auto simp: digest_ids_def)
  ultimately show ?thesis
    using a(2) assms(4) Delta_prio [of i s "round_digest rd net" "net (rp_far rd)"]
    by (auto simp: r knows_def)
qed


subsection \<open>Two nodes of a network\<close>

definition sample_net_state :: network where
  "sample_net_state = (\<lambda>_. sample_registry)(''n2'' := sample_far)"

definition sample_repairs :: "repair list" where
  "sample_repairs =
     [\<lparr>rp_near = ''n2'', rp_far = ''n1'', rp_prio = [], rp_members = [''x''], rp_perm = [0],
        rp_client = sample_client ''n1''\<rparr>,
      \<lparr>rp_near = ''n1'', rp_far = ''n2'', rp_prio = [''x''], rp_members = [''m''], rp_perm = [0],
        rp_client = sample_client ''n2''\<rparr>]"

lemma sample_first_round:
  "members (net_round sample_text (hd sample_repairs) sample_net_state ''n1'') = members sample_registry"
  "priorityMembers (net_round sample_text (hd sample_repairs) sample_net_state ''n1'') = {''x''}"
proof -
  let ?rd = "hd sample_repairs"
  have ok: "round_ok ?rd sample_net_state"
    by (simp add: round_ok_def sample_repairs_def sample_net_state_def valid_digest_args_def iter_order_def)
  have d: "round_digest ?rd sample_net_state = [(''x'', MonotonicTimestamp 50 0)]"
    by (simp add: round_digest_def sample_repairs_def sample_net_state_def Digest_def digest_of_def
        digest_entry_def shuffleStrings_def sample_client_def sample_member_def)
  obtain near1 where r: "net_round sample_text ?rd sample_net_state = sample_net_state
      (rp_near ?rd := fold (RemoteUpdate sample_text) (fst (Delta (round_digest ?rd sample_net_state)
         (sample_net_state (rp_far ?rd)))) near1,
       rp_far ?rd := snd (Delta (round_digest ?rd sample_net_state) (sample_net_state (rp_far ?rd))))"
    by (rule net_round_eq [OF ok])
  have "net_round sample_text ?rd sample_net_state ''n1'' = snd (Delta [(''x'', MonotonicTimestamp 50 0)] sample_registry)"
    unfolding r d by (simp add: sample_repairs_def sample_net_state_def)
  then show "members (net_round sample_text ?rd sample_net_state ''n1'') = members sample_registry"
    "priorityMembers (net_round sample_text ?rd sample_net_state ''n1'') = {''x''}"
    by (auto simp: Delta_eq delta_answer_def)
qed

theorem repair_spreads_witness:
  "holds ''x'' (MonotonicTimestamp 50 0) (net_run sample_text sample_repairs sample_net_state ''n1'')"
proof -
  let ?t = "MonotonicTimestamp 50 0"
  have own: "one_owner sample_text UNIV ''x'' ''n2'' ?t sample_net_state"
    by (auto simp: one_owner_def sample_net_state_def holds_def sample_member_def split: if_splits)
  have ok: "along sample_text round_ok sample_repairs sample_net_state"
    "along sample_text round_complete sample_repairs sample_net_state"
    using sample_first_round
    by (simp_all add: sample_repairs_def sample_net_state_def round_ok_def round_complete_def
        valid_digest_args_def iter_order_def sample_client_def)
  have pos: "MonotonicTimestamp 0 0 < ?t" by (simp add: less_monotonic_timestamp_def)
  have v: "visits ''n2'' [''n1''] sample_repairs" by (simp add: visits_def sample_repairs_def)
  have h: "\<forall>n \<in> {''n2''}. holds ''x'' ?t (sample_net_state n)"
    by (simp add: sample_net_state_def holds_def sample_member_def)
  show ?thesis using conjunct2 [OF repair_spreads [OF own ok(1) _ pos h, of "{}"]] v ok(2) by (auto simp: within_def)
qed

end
