(* ===== verification/Agreement.thy ===== *)
theory Agreement
  imports Network Ownership
begin

text \<open>
  The whole system: any number of nodes, each running its registry (pkg/registry/registry), and
  the messages between them (pkg/registry/client and pkg/registry/server). A message once sent, an
  update forwarded to a replica or an answer to a digest, may reach any node at any later time, any
  number of times or never. What holds of every state such a run reaches is proved here: a version
  stands for one update only, so nodes that store the same version of a member store the same member.
\<close>

subsection \<open>The versions a node has given out\<close>

definition stamped :: "registry \<Rightarrow> version2 \<Rightarrow> bool" where
  "stamped r v \<longleftrightarrow> (\<exists>lv. lastVersion r = Some lv \<and> VTimestamp v \<le> VTimestamp lv)"

text \<open>
  The readings of the clock do not go back, and the counter has room for them: 2 ^ 64 updates
  within one millisecond do not happen.
\<close>

definition clock_ok :: "int list \<Rightarrow> registry \<Rightarrow> bool" where
  "clock_ok nows r \<longleftrightarrow> sorted nows \<and>
     (case lastVersion r of
        None \<Rightarrow> length nows < 2 ^ 64
      | Some lv \<Rightarrow> (\<forall>now \<in> set nows. Timestamp (VTimestamp lv) \<le> now) \<and>
          unat (Counter (VTimestamp lv)) + length nows < 2 ^ 64)"

definition own_stamp :: "registry \<Rightarrow> bool" where
  "own_stamp r \<longleftrightarrow> (\<forall>lv. lastVersion r = Some lv \<longrightarrow> OwnerId lv = localID r)"

lemma next_stamp:
  assumes "own_stamp r" and "clock_ok (now # nows) r"
  shows "\<not> stamped r (fst (nextVersionLocked now r))"
    "stamped (snd (nextVersionLocked now r)) (fst (nextVersionLocked now r))"
    "stamped r v \<Longrightarrow> stamped (snd (nextVersionLocked now r)) v"
    "own_stamp (snd (nextVersionLocked now r))"
    "clock_ok nows (snd (nextVersionLocked now r))"
proof -
  let ?v = "fst (nextVersionLocked now r)"
  have n: "newer lv ?v \<and> unat (Counter (VTimestamp ?v)) \<le> unat (Counter (VTimestamp lv)) + 1"
    if "lastVersion r = Some lv" for lv
    using nextVersion_newer [OF that] assms that by (simp add: own_stamp_def clock_ok_def)
  then show "\<not> stamped r ?v" by (auto simp: stamped_def newer_iff_timestamp)
  show "stamped (snd (nextVersionLocked now r)) ?v" by (simp add: stamped_def)
  show "stamped (snd (nextVersionLocked now r)) v" if s: "stamped r v"
  proof -
    obtain lv where lv: "lastVersion r = Some lv" "VTimestamp v \<le> VTimestamp lv"
      using s by (auto simp: stamped_def)
    have "VTimestamp lv < VTimestamp ?v" using n [OF lv(1)] by (simp add: newer_iff_timestamp)
    then show ?thesis using lv(2) by (simp add: stamped_def)
  qed
  show "own_stamp (snd (nextVersionLocked now r))" by (simp add: own_stamp_def)
  show "clock_ok nows (snd (nextVersionLocked now r))"
  proof (cases "lastVersion r")
    case None
    then have "Counter (VTimestamp ?v) = 0" by (simp add: nextVersionLocked_def Let_def)
    then show ?thesis using assms(2) None by (simp add: clock_ok_def)
  next
    case (Some lv)
    then show ?thesis using n [OF Some] assms(2) by (auto simp: clock_ok_def)
  qed
qed

lemma clock_ok_tail: "clock_ok (now # nows) r \<Longrightarrow> clock_ok nows r"
  by (auto simp: clock_ok_def split: option.splits)

lemma stamped_cong: "lastVersion r' = lastVersion r \<Longrightarrow> stamped r' v = stamped r v"
  by (simp add: stamped_def)

lemma clock_ok_cong: "lastVersion r' = lastVersion r \<Longrightarrow> clock_ok nows r' = clock_ok nows r"
  by (simp add: clock_ok_def)

subsection \<open>What an operation of a node issues\<close>

text \<open>
  From \<open>r\<close> to \<open>r'\<close> the node issues the members \<open>W\<close>, each under a version it had not given out before;
  what it stores and what it queues for its replicas (handle 0, the first a registry hands out) was
  there before or is one of them, and the entries it owns are at least as new as those of \<open>W\<close>.
\<close>

definition issues :: "member2 set \<Rightarrow> registry \<Rightarrow> registry \<Rightarrow> bool" where
  "issues W r r' \<longleftrightarrow> localID r' = localID r \<and> nextHandle r \<le> nextHandle r' \<and> own_stamp r' \<and>
     (\<forall>v. stamped r v \<longrightarrow> stamped r' v) \<and>
     (\<forall>w \<in> W. OwnerId (Version w) = localID r \<and> \<not> stamped r (Version w) \<and> stamped r' (Version w)) \<and>
     (\<forall>w \<in> W. \<forall>w' \<in> W. Version w = Version w' \<longrightarrow> w = w') \<and>
     (\<forall>i m. members r' i = Some m \<longrightarrow> members r i = Some m \<or> (m \<in> W \<and> member_id m = i)) \<and>
     set (inbox r' 0) \<subseteq> set (inbox r 0) \<union> W \<and>
     (\<forall>w \<in> W. \<forall>m. members r' (member_id w) = Some m \<longrightarrow> OwnerId (Version m) = localID r \<longrightarrow>
        VTimestamp (Version w) \<le> VTimestamp (Version m))"

lemma issuesD:
  assumes "issues W r r'"
  shows "localID r' = localID r" "nextHandle r \<le> nextHandle r'" "own_stamp r'"
    "stamped r v \<Longrightarrow> stamped r' v"
    "w \<in> W \<Longrightarrow> OwnerId (Version w) = localID r" "w \<in> W \<Longrightarrow> \<not> stamped r (Version w)"
    "w \<in> W \<Longrightarrow> stamped r' (Version w)"
    "w \<in> W \<Longrightarrow> w' \<in> W \<Longrightarrow> Version w = Version w' \<Longrightarrow> w = w'"
    "members r' i = Some m \<Longrightarrow> members r i = Some m \<or> m \<in> W \<and> member_id m = i"
    "u \<in> set (inbox r' 0) \<Longrightarrow> u \<in> set (inbox r 0) \<or> u \<in> W"
    "w \<in> W \<Longrightarrow> members r' (member_id w) = Some m \<Longrightarrow> OwnerId (Version m) = localID r \<Longrightarrow>
       VTimestamp (Version w) \<le> VTimestamp (Version m)"
  using assms by (simp_all add: issues_def subset_iff)

lemma issues_none:
  assumes "own_stamp r" and "localID r' = localID r" and "lastVersion r' = lastVersion r"
    and "nextHandle r \<le> nextHandle r'" and "members r' \<subseteq>\<^sub>m members r" and "inbox r' 0 = inbox r 0"
  shows "issues {} r r'"
  using assms by (auto simp: issues_def own_stamp_def stamped_def map_le_def dom_def)

lemma issues_trans:
  assumes "issues W r r1" and "issues W' r1 r2"
  shows "issues (W \<union> W') r r2"
proof -
  have "VTimestamp (Version w) \<le> VTimestamp (Version m)"
    if w: "w \<in> W" and m: "members r2 (member_id w) = Some m" "OwnerId (Version m) = localID r" for w m
  proof (cases "members r1 (member_id w) = Some m")
    case True
    then show ?thesis using assms(1) w m(2) by (auto simp: issues_def)
  next
    case False
    then have "m \<in> W'" using assms(2) m(1) by (auto simp: issues_def)
    then have "\<not> stamped r1 (Version m)" using assms(2) by (auto simp: issues_def)
    moreover have "stamped r1 (Version w)" using assms(1) w by (auto simp: issues_def)
    ultimately show ?thesis by (auto simp: stamped_def)
  qed
  moreover have "w = w'" if "w \<in> W \<union> W'" "w' \<in> W \<union> W'" "Version w = Version w'" for w w'
    using that assms by (auto simp: issues_def)
  ultimately show ?thesis using assms unfolding issues_def by (auto 4 4)
qed

lemma issues_update:
  assumes "own_stamp r" and "clock_ok (opt_now (get_options clk opts) # nows) r"
  shows "\<exists>W. issues W r (update_result ls clk st lv ex opts r)"
    "clock_ok nows (update_result ls clk st lv ex opts r)"
proof -
  let ?n = "nextVersionLocked (opt_now (get_options clk opts)) r"
  let ?m = "\<lparr>State = st, Liveness = lv, Version = fst ?n, Expiry = ex\<rparr>"
  let ?u = "update_result ls clk st lv ex opts r"
  note nx = next_stamp [OF assms]
  have none: "issues {} r r" by (rule issues_none [OF assms(1)]) simp_all
  have skip: "issues {} r (snd ?n)" using nx by (simp add: issues_def)
  have put: "issues {?m} r (notifySubscribersLocked ?m True (setMemberLocked ls ?m (snd ?n)))"
    using nx by (auto simp: issues_def own_stamp_def stamped_def member_id_def inbox_notify)
  show "\<exists>W. issues W r ?u"
    using none skip put by (auto simp: update_result_def update_version_def Let_def)
  show "clock_ok nows ?u"
    using nx(5) clock_ok_tail [OF assms(2)]
    by (auto simp: update_result_def Let_def clock_ok_def)
qed

lemma issues_decision:
  assumes "own_stamp r" and "clock_ok (clk # nows) r"
  shows "\<exists>W. issues W r (apply_decision ls clk i m d r)" "clock_ok nows (apply_decision ls clk i m d r)"
proof -
  have del: "issues {} r (deleteMemberLocked ls i r)"
    by (rule issues_none [OF assms(1)]) (auto simp: map_le_def)
  have keep: "issues {} r r" by (rule issues_none [OF assms(1)]) simp_all
  show "\<exists>W. issues W r (apply_decision ls clk i m d r)"
    using del keep issues_update(1) [OF assms(1), of "[]" clk nows] assms(2)
    by (cases d) (auto simp: defaultOptions_def)
  show "clock_ok nows (apply_decision ls clk i m d r)"
    using issues_update(2) [OF assms(1), of "[]" clk nows] assms(2) clock_ok_tail [OF assms(2)]
    by (cases d) (auto simp: defaultOptions_def clock_ok_def)
qed

lemma issues_liveness:
  assumes "UpdateLiveness ls clks ms ts r = Some r'" and "own_stamp r" and "clock_ok (map clks ms) r"
  shows "\<exists>W. issues W r r'"
  using assms unfolding UpdateLiveness_def
proof (induction ms arbitrary: r)
  case Nil
  then have "issues {} r r'" by (intro issues_none) simp_all
  then show ?case by blast
next
  case (Cons i ms)
  then obtain r1 where r1: "updateMemberLivenessLocked ls (clks i) i ts r = Some r1"
    "foldM (\<lambda>i. updateMemberLivenessLocked ls (clks i) i ts) ms r1 = Some r'"
    by (auto split: option.splits)
  have c: "clock_ok (clks i # map clks ms) r" using Cons.prems(3) by simp
  have "\<exists>m d. r1 = apply_decision ls (clks i) i m d r"
  proof (cases "members r i")
    case None
    then have "r1 = apply_decision ls (clks i) i undefined Keep r"
      using r1(1) by (simp add: updateMemberLivenessLocked_def split: if_splits)
    then show ?thesis by blast
  next
    case (Some m)
    then show ?thesis using r1(1) updateMemberLiveness_decision [OF Some] by (auto split: if_splits)
  qed
  then obtain W where W: "issues W r r1" "clock_ok (map clks ms) r1"
    using issues_decision [OF Cons.prems(2) c] by metis
  then obtain W' where "issues W' r1 r'"
    using Cons.IH [OF r1(2)] by (auto simp: issues_def)
  then show ?case using issues_trans [OF W(1)] by blast
qed

subsection \<open>A step of a node\<close>

text \<open>
  What a node does on its own: every operation of its registry other than an update from another
  node, where the clock is as \<open>clock_ok\<close> asks when a version is given out.
\<close>

fun quiet :: "reg_event \<Rightarrow> bool" where
  "quiet (Ev_join i) = True"
| "quiet (Ev_leave i) = True"
| "quiet (Ev_subscribe h) = True"
| "quiet (Ev_unsubscribe h) = True"
| "quiet Ev_digest = True"
| "quiet _ = False"

inductive own_step :: "(liveness \<Rightarrow> string) \<Rightarrow> registry \<Rightarrow> registry \<Rightarrow> bool" for ls where
  own_add: "clock_ok [opt_now (get_options clk opts)] r \<Longrightarrow> AddMember ls clk st opts r = Some r' \<Longrightarrow>
    own_step ls r r'"
| own_heartbeat: "clock_ok [opt_now (get_options clk' opts)] r \<Longrightarrow>
    MemberHeartbeat ls clk clk' st opts r = Some r' \<Longrightarrow> own_step ls r r'"
| own_remove: "clock_ok [opt_now (get_options clk' opts)] r \<Longrightarrow>
    RemoveMember ls clk clk' i opts r = Some r' \<Longrightarrow> own_step ls r r'"
| own_pass: "iter_order ms (members r) \<Longrightarrow> clock_ok (map clks ms) r \<Longrightarrow>
    UpdateLiveness ls clks ms ts r = Some r' \<Longrightarrow> own_step ls r r'"
| own_quiet: "reg_step ls e r r' \<Longrightarrow> quiet e \<Longrightarrow> own_step ls r r'"

lemma own_step_inv: "own_step ls r r' \<Longrightarrow> reg_inv ls r \<Longrightarrow> reg_inv ls r'"
  by (induction rule: own_step.induct)
    (auto intro: reg_inv_public reg_step_inv step_liveness)

lemma quiet_frame:
  assumes "reg_step ls e r r'" and "quiet e" and "0 < nextHandle r"
  shows "localID r' = localID r \<and> lastVersion r' = lastVersion r \<and> nextHandle r \<le> nextHandle r' \<and>
    members r' = members r \<and> inbox r' 0 = inbox r 0"
  using assms
proof (induction rule: reg_step.induct)
  case (step_digest ps r ms perm limit d r')
  from Digest_frame [OF this(4)] show ?case by auto
qed (auto simp: OnNodeJoin_def OnNodeLeave_def SubscribeLocal_def Subscribe_eq unsubscribe_def Let_def)

lemma own_step_issues:
  assumes "own_step ls r r'" and "own_stamp r" and "0 < nextHandle r"
  shows "\<exists>W. issues W r r'"
  using assms
proof (induction rule: own_step.induct)
  case (own_add clk opts r st r')
  then show ?case using issues_update(1) [of r opts clk "[]"] by (simp add: AddMember_Some)
next
  case (own_heartbeat clk' opts r clk st r')
  have "issues {} r (r\<lparr>lastSeen := s\<rparr>)" for s by (rule issues_none [OF own_heartbeat(3)]) simp_all
  then show ?case
    using issues_update(1) [of r opts clk' "[]"] own_heartbeat
    by (auto simp: MemberHeartbeat_Some split: if_splits)
next
  case (own_remove clk' opts r clk i r')
  have "issues {} r r" by (rule issues_none [OF own_remove(3)]) simp_all
  then show ?case
    using issues_update(1) [of r opts clk' "[]"] own_remove
    by (auto simp: RemoveMember_Some split: option.splits)
next
  case (own_pass ms r clks ts r')
  then show ?case by (blast intro: issues_liveness)
next
  case (own_quiet e r r')
  have "issues {} r r'"
    using quiet_frame [OF own_quiet(1,2,4)] by (intro issues_none [OF own_quiet(3)]) auto
  then show ?case by blast
qed

subsection \<open>The system\<close>

text \<open>
  The registries of all nodes, by node id, and the messages sent so far. A node subscribes its
  replica clients before anything else (NewCluster and OnJoin of pkg/cluster), through handle 0;
  what the handle is sent and, when a node joins, what is stored can be forwarded to any replica (the
  client's Update), and the answer to any digest can reach any node (the client's Sync).
\<close>

inductive system :: "(liveness \<Rightarrow> string) \<Rightarrow> network \<Rightarrow> member2 set \<Rightarrow> bool" for ls where
  sys_start: "system ls (\<lambda>n. snd (SubscribeLocal (NewRegistry ls (clk n) n (opts n)))) {}"
| sys_own: "system ls net sent \<Longrightarrow> own_step ls (net n) r \<Longrightarrow> system ls (net(n := r)) sent"
| sys_forward: "system ls net sent \<Longrightarrow> u \<in> set (inbox (net n) 0) \<Longrightarrow> system ls net (insert u sent)"
| sys_bootstrap: "system ls net sent \<Longrightarrow> members (net n) i = Some m \<Longrightarrow> system ls net (insert m sent)"
| sys_answer: "system ls net sent \<Longrightarrow> Delta d (net n) = (us, r) \<Longrightarrow>
    system ls (net(n := r)) (set us \<union> sent)"
| sys_deliver: "system ls net sent \<Longrightarrow> u \<in> sent \<Longrightarrow> system ls (net(n := RemoteUpdate ls u (net n))) sent"

text \<open>A repair round of the network is a run of the system.\<close>

lemma sys_deliver_all:
  "system ls net sent \<Longrightarrow> set us \<subseteq> sent \<Longrightarrow> system ls (net(n := fold (RemoteUpdate ls) us (net n))) sent"
proof (induction us arbitrary: net)
  case (Cons u us)
  have u: "u \<in> sent" "set us \<subseteq> sent" using Cons.prems(2) by auto
  have "system ls ((net(n := RemoteUpdate ls u (net n)))
      (n := fold (RemoteUpdate ls) us ((net(n := RemoteUpdate ls u (net n))) n))) sent"
    by (rule Cons.IH [OF sys_deliver [OF Cons.prems(1) u(1)] u(2)])
  then show ?case by (simp only: fun_upd_upd fun_upd_same fold_simps)
qed simp

lemma sys_round:
  assumes "system ls net sent" and "round_ok rd net"
  shows "\<exists>sent'. sent \<subseteq> sent' \<and> system ls (net_round ls rd net) sent'"
proof -
  obtain near1 where d: "Digest (rp_prio rd) (rp_members rd) (rp_perm rd) (digestLimit (rp_client rd))
      (net (rp_near rd)) = (round_digest rd net, near1)"
    and r: "net_round ls rd net = net
      (rp_near rd := fold (RemoteUpdate ls) (fst (Delta (round_digest rd net) (net (rp_far rd)))) near1,
       rp_far rd := snd (Delta (round_digest rd net) (net (rp_far rd))))"
    by (rule net_round_eq [OF assms(2)])
  have ok: "rp_near rd \<noteq> rp_far rd" "set (rp_prio rd) = priorityMembers (net (rp_near rd))"
    "iter_order (rp_members rd) (members (net (rp_near rd)))"
    "mset (rp_perm rd) = mset [0..<length (rp_members rd)]"
    using assms(2) by (simp_all add: round_ok_def valid_digest_args_def)
  obtain us far where far: "Delta (round_digest rd net) (net (rp_far rd)) = (us, far)" by fastforce
  have "own_step ls (net (rp_near rd)) near1"
    by (rule own_quiet [OF step_digest [OF ok(2-4) d]]) simp
  from sys_own [OF assms(1) this] have 1: "system ls (net(rp_near rd := near1)) sent" .
  from sys_answer [OF this, of "round_digest rd net" "rp_far rd" us far] far ok(1)
  have 2: "system ls (net(rp_near rd := near1, rp_far rd := far)) (set us \<union> sent)" by auto
  from sys_deliver_all [OF 2, of us "rp_near rd"] far ok(1) r
  have "system ls (net_round ls rd net) (set us \<union> sent)" by (simp add: fun_upd_twist)
  then show ?thesis by blast
qed

subsection \<open>The invariant of the system\<close>

text \<open>
  \<open>H\<close> is every member ever issued, as copyMember of replicarepair.go copies it (the deadline of an
  entry stays at the node that stored it).
\<close>

definition node_agrees :: "member2 set \<Rightarrow> (liveness \<Rightarrow> string) \<Rightarrow> string \<Rightarrow> registry \<Rightarrow> bool" where
  "node_agrees H ls n r \<longleftrightarrow> localID r = n \<and> reg_inv ls r \<and> 0 < nextHandle r \<and> own_stamp r \<and>
     (\<forall>i m. members r i = Some m \<longrightarrow> copyMember m \<in> H) \<and>
     (\<forall>u \<in> set (inbox r 0). copyMember u \<in> H) \<and>
     (\<forall>x \<in> H. OwnerId (Version x) = n \<longrightarrow> stamped r (Version x) \<and>
        (\<forall>m. members r (member_id x) = Some m \<longrightarrow> OwnerId (Version m) = n \<longrightarrow>
           VTimestamp (Version x) \<le> VTimestamp (Version m)))"

definition system_agrees :: "member2 set \<Rightarrow> (liveness \<Rightarrow> string) \<Rightarrow> network \<Rightarrow> member2 set \<Rightarrow> bool" where
  "system_agrees H ls net sent \<longleftrightarrow> (\<forall>n. node_agrees H ls n (net n)) \<and> (\<forall>u \<in> sent. copyMember u \<in> H) \<and>
     (\<forall>x \<in> H. \<forall>y \<in> H. Version x = Version y \<longrightarrow> x = y)"

lemma copyMember_id [simp]: "member_id (copyMember m) = member_id m"
  by (simp add: member_id_def)

lemma node_agrees_other:
  assumes "node_agrees H ls n r" and "\<forall>w \<in> W. OwnerId (Version w) \<noteq> n"
  shows "node_agrees (H \<union> copyMember ` W) ls n r"
  using assms by (auto simp: node_agrees_def)

lemma node_agrees_own:
  assumes "node_agrees H ls n r" and "issues W r r'" and "reg_inv ls r'"
  shows "node_agrees (H \<union> copyMember ` W) ls n r'"
proof -
  have n: "localID r = n" and old: "\<And>x. x \<in> H \<Longrightarrow> OwnerId (Version x) = n \<Longrightarrow> stamped r (Version x)"
    using assms(1) by (auto simp: node_agrees_def)
  have "VTimestamp (Version x) \<le> VTimestamp (Version m)"
    if x: "x \<in> H" "OwnerId (Version x) = n" "members r' (member_id x) = Some m" "OwnerId (Version m) = n" for x m
  proof (cases "members r (member_id x) = Some m")
    case True
    then show ?thesis using x assms(1) by (auto simp: node_agrees_def)
  next
    case False
    then have "m \<in> W" using x(3) assms(2) by (auto simp: issues_def)
    then have "\<not> stamped r (Version m)" using assms(2) by (auto simp: issues_def)
    then show ?thesis using old [OF x(1,2)] by (auto simp: stamped_def)
  qed
  moreover have "stamped r' (Version x)" if "x \<in> H" "OwnerId (Version x) = n" for x
    using old [OF that] assms(2) by (simp add: issues_def)
  moreover have "copyMember m \<in> H \<union> copyMember ` W" if "members r' i = Some m" for i m
    using issuesD(9) [OF assms(2) that] assms(1) by (auto simp: node_agrees_def)
  moreover have "copyMember u \<in> H \<union> copyMember ` W" if "u \<in> set (inbox r' 0)" for u
    using issuesD(10) [OF assms(2) that] assms(1) by (auto simp: node_agrees_def)
  moreover have "localID r' = n" "0 < nextHandle r'" "own_stamp r'"
    using assms(1,2) by (auto simp: node_agrees_def issues_def)
  moreover have "stamped r' (Version w)" if "w \<in> W" for w using that assms(2) by (auto simp: issues_def)
  moreover have "VTimestamp (Version w) \<le> VTimestamp (Version m)"
    if "w \<in> W" "members r' (member_id w) = Some m" "OwnerId (Version m) = n" for w m
    using that assms(2) n by (auto simp: issues_def)
  ultimately show ?thesis using assms(3) by (simp add: node_agrees_def ball_Un)
qed

lemma own_step_agrees:
  assumes "system_agrees H ls net sent" and "own_step ls (net n) r"
  shows "\<exists>H'. system_agrees H' ls (net(n := r)) sent"
proof -
  have agree: "node_agrees H ls k (net k)" for k using assms(1) by (simp add: system_agrees_def)
  obtain W where W: "issues W (net n) r"
    using own_step_issues [OF assms(2)] agree [of n] by (auto simp: node_agrees_def)
  have r: "reg_inv ls r" using own_step_inv [OF assms(2)] agree [of n] by (auto simp: node_agrees_def)
  have own: "OwnerId (Version w) = n" "\<not> stamped (net n) (Version w)" if "w \<in> W" for w
    using issuesD(5,6) [OF W that] agree [of n] by (simp_all add: node_agrees_def)
  have new: "Version x \<noteq> Version w" if "x \<in> H" "w \<in> W" for x w
    using that own [OF that(2)] agree [of n] by (auto simp: node_agrees_def)
  have "x = y" if xy: "x \<in> H \<union> copyMember ` W" "y \<in> H \<union> copyMember ` W" "Version x = Version y" for x y
  proof -
    consider "x \<in> H" "y \<in> H" | "x \<in> copyMember ` W" "y \<in> copyMember ` W"
      | "x \<in> H" "y \<in> copyMember ` W" | "x \<in> copyMember ` W" "y \<in> H" using xy by blast
    then show ?thesis
    proof cases
      case 1
      then show ?thesis using assms(1) xy(3) by (simp add: system_agrees_def)
    next
      case 2
      then obtain w w' where "w \<in> W" "x = copyMember w" "w' \<in> W" "y = copyMember w'" by blast
      then show ?thesis using issuesD(8) [OF W, of w w'] xy(3) by simp
    next
      case 3
      then show ?thesis using new xy(3) by auto
    next
      case 4
      then show ?thesis using new xy(3) by (metis copyMember_fields(3) imageE)
    qed
  qed
  moreover have "node_agrees (H \<union> copyMember ` W) ls k ((net(n := r)) k)" for k
    using node_agrees_own [OF agree [of n] W r] node_agrees_other [OF agree [of k], of W] own(1) by auto
  ultimately have "system_agrees (H \<union> copyMember ` W) ls (net(n := r)) sent"
    using assms(1) by (auto simp: system_agrees_def)
  then show ?thesis by blast
qed

lemma agrees_deliver:
  assumes "node_agrees H ls n r" and "copyMember u \<in> H"
  shows "node_agrees H ls n (RemoteUpdate ls u r)"
proof -
  have n: "localID r = n" using assms(1) by (simp add: node_agrees_def)
  have "VTimestamp (Version x) \<le> VTimestamp (Version m)"
    if "x \<in> H" "OwnerId (Version x) = n" "members (RemoteUpdate ls u r) (member_id x) = Some m" "OwnerId (Version m) = n"
    for x m
    using that assms(1) n
    by (auto simp: members_RemoteUpdate remote_accepted_def node_agrees_def split: if_splits)
  moreover have "copyMember m \<in> H" if "members (RemoteUpdate ls u r) i = Some m" for i m
    using that assms by (auto simp: members_RemoteUpdate node_agrees_def split: if_splits)
  moreover have "copyMember v \<in> H" if "v \<in> set (inbox (RemoteUpdate ls u r) 0)" for v
    using that assms by (auto simp: RemoteUpdate_eq inbox_notify node_agrees_def split: if_splits)
  ultimately show ?thesis
    using assms(1) by (simp add: node_agrees_def own_stamp_def stamped_def reg_inv_RemoteUpdate)
qed

lemma agrees_frame:
  assumes "node_agrees H ls n r" and "Delta d r = (us, r')"
  shows "node_agrees H ls n r'" "u \<in> set us \<Longrightarrow> copyMember u \<in> H"
proof -
  have r': "r' = r\<lparr>priorityMembers := priorityMembers r'\<rparr>" using assms(2) by (auto simp: Delta_eq)
  show "node_agrees H ls n r'"
    using assms(1) by (subst r') (simp add: node_agrees_def own_stamp_def stamped_def)
  show "copyMember u \<in> H" if u: "u \<in> set us"
  proof -
    have "u \<in> set (fst (Delta d r))" using u assms(2) by simp
    then obtain i m where "members r i = Some m" "u = copyMember m" by (auto simp: set_fst_Delta)
    then show ?thesis using assms(1) by (auto simp: node_agrees_def copyMember_def)
  qed
qed

lemma agrees_start:
  assumes "\<And>n. net n = snd (SubscribeLocal (NewRegistry ls (clk n) n (opts n)))"
  shows "\<exists>H. system_agrees H ls net {}"
proof -
  let ?H = "{copyMember m |m n i. members (net n) i = Some m}"
  have entry: "OwnerId (Version m) = n \<and> lastVersion (net n) = Some (Version m) \<and>
      (\<forall>j m'. members (net n) j = Some m' \<longrightarrow> m' = m)" if "members (net n) i = Some m" for n i m
    using that by (auto simp: assms SubscribeLocal_def NewRegistry_def Let_def nextVersionLocked_def
        split: option.splits if_splits)
  have one: "x = y" if h: "x \<in> ?H" "y \<in> ?H" "OwnerId (Version x) = OwnerId (Version y)" for x y
  proof -
    obtain m n i m' n' i' where x: "members (net n) i = Some m" "x = copyMember m"
      and y: "members (net n') i' = Some m'" "y = copyMember m'" using h(1,2) by blast
    have "n = n'" using entry [OF x(1)] entry [OF y(1)] h(3) x(2) y(2) by simp
    then show ?thesis using entry [OF y(1)] x y by blast
  qed
  have "node_agrees ?H ls n (net n)" for n
  proof -
    have h: "stamped (net n) (Version x) \<and> (\<forall>m. members (net n) (member_id x) = Some m \<longrightarrow>
        VTimestamp (Version x) \<le> VTimestamp (Version m))" if x: "x \<in> ?H" "OwnerId (Version x) = n" for x
    proof -
      obtain m k i where m: "members (net k) i = Some m" "x = copyMember m" using x(1) by blast
      have "k = n" using entry [OF m(1)] x(2) m(2) by simp
      then have m': "members (net n) i = Some m" using m(1) by simp
      have "m' = m" if "members (net n) (member_id x) = Some m'" for m' using entry [OF m'] that by blast
      then show ?thesis using entry [OF m'] m(2) by (auto simp: stamped_def)
    qed
    have "own_stamp (net n)"
      by (auto simp: assms own_stamp_def SubscribeLocal_def NewRegistry_def Let_def nextVersionLocked_def
          split: option.splits)
    moreover have "reg_inv ls (net n)" unfolding assms by (rule reg_inv_subs(1) [OF reg_inv_NewRegistry])
    moreover have "localID (net n) = n" "inbox (net n) 0 = []" "0 < nextHandle (net n)"
      by (simp_all add: assms SubscribeLocal_def Let_def)
    moreover have "copyMember m \<in> ?H" if "members (net n) i = Some m" for i m using that by blast
    ultimately show ?thesis using h unfolding node_agrees_def by auto
  qed
  moreover have "x = y" if "x \<in> ?H" "y \<in> ?H" "Version x = Version y" for x y
    using one [OF that(1,2)] that(3) by simp
  ultimately have "system_agrees ?H ls net {}" unfolding system_agrees_def by blast
  then show ?thesis by blast
qed

lemma system_inv: "system ls net sent \<Longrightarrow> \<exists>H. system_agrees H ls net sent"
proof (induction rule: system.induct)
  case (sys_start clk opts)
  show ?case by (rule agrees_start) simp
next
  case (sys_own net sent n r)
  then show ?case using own_step_agrees by blast
next
  case (sys_forward net sent u n)
  then obtain H where "system_agrees H ls net sent" by blast
  then have "system_agrees H ls net (insert u sent)"
    using sys_forward(2) by (auto simp: system_agrees_def node_agrees_def)
  then show ?case by blast
next
  case (sys_bootstrap net sent n i m)
  then obtain H where "system_agrees H ls net sent" by blast
  then have "system_agrees H ls net (insert m sent)"
    using sys_bootstrap(2) by (auto simp: system_agrees_def node_agrees_def)
  then show ?case by blast
next
  case (sys_answer net sent d n us r)
  then obtain H where H: "system_agrees H ls net sent" by blast
  then have "node_agrees H ls n (net n)" by (simp add: system_agrees_def)
  from H agrees_frame [OF this sys_answer(2)] have "system_agrees H ls (net(n := r)) (set us \<union> sent)"
    by (auto simp: system_agrees_def)
  then show ?case by blast
next
  case (sys_deliver net sent u n)
  then obtain H where H: "system_agrees H ls net sent" by blast
  with sys_deliver(2) have "system_agrees H ls (net(n := RemoteUpdate ls u (net n))) sent"
    by (simp add: system_agrees_def agrees_deliver)
  then show ?case by blast
qed

text \<open>Nodes with the same version of a member store the same; Fleet states what each part says.\<close>

lemma system_nodes_agree:
  assumes "system ls net sent" and "members (net b) i = Some mb"
  shows "(\<forall>a ma. members (net a) i = Some ma \<longrightarrow>
      (Version ma = Version mb \<longrightarrow> State ma = State mb \<and> Liveness ma = Liveness mb) \<and>
      stamped (net (OwnerId (Version ma))) (Version ma) \<and>
      (OwnerId (Version ma) = b \<longrightarrow> OwnerId (Version mb) = b \<longrightarrow> \<not> newer (Version mb) (Version ma))) \<and>
    (\<forall>u \<in> sent. stamped (net (OwnerId (Version u))) (Version u)) \<and>
    (OwnerId (Version mb) = b \<longrightarrow> (\<forall>a. a \<notin> {b, i} \<longrightarrow>
      (\<exists>m. members (RemoteUpdate ls mb (net a)) i = Some m \<and>
        (State m = State mb \<and> Liveness m = Liveness mb \<and> Version m = Version mb \<or>
         OwnerId (Version m) \<noteq> b \<and> \<not> newer (Version m) (Version mb)))))"
proof -
  obtain H where H: "system_agrees H ls net sent" using system_inv [OF assms(1)] by blast
  have agree: "node_agrees H ls n (net n)" for n using H by (simp add: system_agrees_def)
  have issued: "copyMember m \<in> H" "member_id m = i" if "members (net n) i = Some m" for n m
    using agree [of n] that reg_inv_id by (auto simp: node_agrees_def member_id_def)
  have one: "State m = State mb \<and> Liveness m = Liveness mb"
    if "members (net n) i = Some m" "Version m = Version mb" for n m
  proof -
    have "copyMember m = copyMember mb"
      using H issued(1) [OF that(1)] issued(1) [OF assms(2)] that(2) by (simp add: system_agrees_def)
    then show ?thesis by (metis copyMember_fields(1,2))
  qed
  have stamp: "stamped (net (OwnerId (Version m))) (Version m)" if "copyMember m \<in> H" for m
    using agree [of "OwnerId (Version m)"] that
    by (force simp: node_agrees_def dest: bspec [of H _ "copyMember m"])
  then have sent: "stamped (net (OwnerId (Version u))) (Version u)" if "u \<in> sent" for u
    using H that by (simp add: system_agrees_def)
  have bound: "VTimestamp (Version m) \<le> VTimestamp (Version mb)"
    if "members (net n) i = Some m" "OwnerId (Version m) = b" "OwnerId (Version mb) = b" for n m
    using agree [of b] issued [OF that(1)] that(2,3) assms(2)
    by (force simp: node_agrees_def dest: bspec [of H _ "copyMember m"])
  have "\<exists>m. members (RemoteUpdate ls mb (net a)) i = Some m \<and>
      (State m = State mb \<and> Liveness m = Liveness mb \<and> Version m = Version mb \<or>
       OwnerId (Version m) \<noteq> b \<and> \<not> newer (Version m) (Version mb))"
    if b: "OwnerId (Version mb) = b" and a: "a \<notin> {b, i}" for a
  proof (cases "remote_accepted (net a) mb")
    case True
    then show ?thesis using issued(2) [OF assms(2)] by (auto simp: members_RemoteUpdate member_id_def)
  next
    case False
    then obtain m where m: "members (net a) i = Some m" "\<not> newer (Version m) (Version mb)"
      using a b agree [of a] issued(2) [OF assms(2)]
      by (auto simp: remote_accepted_def node_agrees_def member_id_def)
    have "Version m = Version mb" if o: "OwnerId (Version m) = b"
      using bound [OF m(1) o b] m(2) o b versions.fresher_irrefl
      by (cases "Version m"; cases "Version mb") (auto simp: newer_iff_timestamp)
    then show ?thesis using m one [OF m(1)] False by (auto simp: members_RemoteUpdate)
  qed
  moreover have "\<not> newer (Version mb) (Version m)"
    if "members (net n) i = Some m" "OwnerId (Version m) = b" "OwnerId (Version mb) = b" for n m
    using bound [OF that] by (auto simp: newer_iff_timestamp)
  ultimately show ?thesis using one stamp [OF issued(1)] sent by blast
qed

end
