(* ===== verification/Fleet.thy ===== *)
theory Fleet
  imports Node Agreement
begin

text \<open>
  All nodes of a cluster together, each as pkg/node/node.go wires it: registry, peers with their
  queues and send loops, replica server and the repair ticker. What one node sends (the updates its
  send loops forward, the answers of its replica server) reaches others as calls of their servers
  and as the results of their repair. Such a fleet refines the system of Agreement, so nodes that
  store the same version of a member store the same member.
\<close>

subsection \<open>Steps\<close>

text \<open>
  \<open>sent\<close> is every update and answer sent so far. A step of a node is one of \<open>node_step\<close>: one of its own,
  under the condition that its clock does not go back while versions are given out (\<open>own_step\<close>); a
  send loop; an answer to a digest; or one that takes a message in, an update from a peer or a repair
  whose answers have been sent.
\<close>

inductive fleet :: "(liveness \<Rightarrow> string) \<Rightarrow> (string \<Rightarrow> node) \<Rightarrow> member2 set \<Rightarrow> bool" for ls where
  fleet_start: "(\<And>i. NewNode ls (started i) (clk i) (w i) (opts i) (conf i) = Inr (ns i) \<and> NodeID (conf i) = i) \<Longrightarrow>
    fleet ls ns {}"
| fleet_own: "fleet ls ns sent \<Longrightarrow> node_step ls e (ns i) n' \<Longrightarrow>
    own_step ls (nodeRegistry (ns i)) (nodeRegistry n') \<Longrightarrow> fleet ls (ns(i := n')) sent"
| fleet_send: "fleet ls ns sent \<Longrightarrow> clients (nodeCluster (ns i)) k = Some cl \<Longrightarrow>
    sendLoop (localID (nodeRegistry (ns i))) outcomes cl (clientMetrics (nodeCluster (ns i))) = (reqs, cl', mt) \<Longrightarrow>
    fleet ls (ns(i := (ns i)\<lparr>nodeCluster := (nodeCluster (ns i))
      \<lparr>clients := (clients (nodeCluster (ns i)))(k \<mapsto> cl'), clientMetrics := mt\<rparr>\<rparr>)) (UpdMember ` set reqs \<union> sent)"
| fleet_answer: "fleet ls ns sent \<Longrightarrow> ReplicaServer_Sync req mt (nodeRegistry (ns i)) = (us, mt', r') \<Longrightarrow>
    fleet ls (ns(i := (ns i)\<lparr>nodeRegistry := r'\<rparr>)) (set us \<union> sent)"
| fleet_update: "fleet ls ns sent \<Longrightarrow> u \<in> sent \<Longrightarrow> node_step ls (Nd_serve (Ev_remote u)) (ns i) n' \<Longrightarrow>
    fleet ls (ns(i := n')) sent"
| fleet_repair: "fleet ls ns sent \<Longrightarrow> n = ns i \<Longrightarrow> iter_order ks (clients (nodeCluster n)) \<Longrightarrow>
    set ps = priorityMembers (nodeRegistry n) \<Longrightarrow> iter_order ms (members (nodeRegistry n)) \<Longrightarrow>
    mset perm = mset [0..<length ms] \<Longrightarrow> (\<forall>peer req us. call peer req = Some us \<longrightarrow> set us \<subseteq> sent) \<Longrightarrow>
    ReplicaRepair ls ks rnd ps ms perm call (nodeCluster n) (nodeRegistry n) = (c1, r') \<Longrightarrow>
    us = notified (localSub n) (nodeRegistry n) r' \<Longrightarrow> good_orders kss us c1 \<Longrightarrow>
    deliver kss us c1 = Some c' \<Longrightarrow>
    fleet ls (ns(i := n\<lparr>nodeCluster := c', nodeRegistry := r'\<rparr>)) sent"

subsection \<open>What a node queues\<close>

lemma queue_set:
  assumes "queue_ok p"
  shows "set (pending (fold push_open us p)) \<subseteq> set (pending p) \<union> set us"
  using set_drop_subset
  by (fastforce simp: pending_queue.pushes_keep_newest [OF assms] newest_def)

lemma queue_ok_client: "node_inv ls n \<Longrightarrow> clients (nodeCluster n) k = Some cl \<Longrightarrow> queue_ok (pendingQ cl)"
  by (auto simp: node_inv_def cluster_inv_def)

definition queues :: "node \<Rightarrow> member2 set" where
  "queues n = (\<Union>cl \<in> ran (clients (nodeCluster n)). set (pending (pendingQ cl)))"

definition sendable :: "nat \<Rightarrow> registry \<Rightarrow> member2 set" where
  "sendable h r = set (inbox r h) \<union> ran (members r)"

lemma queued_set:
  assumes "\<forall>k. queued k n n'" and "node_inv ls n"
  shows "queues n' \<subseteq> queues n \<union> sendable (localSub n) (nodeRegistry n')"
proof
  fix u assume "u \<in> queues n'"
  then obtain k cl' where k: "clients (nodeCluster n') k = Some cl'" "u \<in> set (pending (pendingQ cl'))"
    by (auto simp: queues_def ran_def)
  let ?us = "notified (localSub n) (nodeRegistry n) (nodeRegistry n')"
  obtain cl where cl: "clients (nodeCluster n) k = Some cl" "cl' = cl\<lparr>pendingQ := fold push_open ?us (pendingQ cl)\<rparr>"
    using assms(1) k(1) by (auto simp: queued_def)
  have "u \<in> set (pending (pendingQ cl)) \<union> set ?us"
    using queue_set [OF queue_ok_client [OF assms(2) cl(1)]] k(2) cl(2) by auto
  moreover have "set ?us \<subseteq> set (inbox (nodeRegistry n') (localSub n))"
    by (simp add: notified_def set_drop_subset)
  ultimately show "u \<in> queues n \<union> sendable (localSub n) (nodeRegistry n')"
    using cl(1) by (auto simp: queues_def sendable_def ran_def)
qed

lemma join_queues:
  assumes "node_OnJoin dial_ok ms i n = Some n'"
  shows "queues n' \<subseteq> queues n \<union> sendable (localSub n) (nodeRegistry n')"
proof (cases "i = NodeID (nodeConfig n) \<or> \<not> dial_ok")
  case True
  then have "nodeCluster n' = nodeCluster n" using assms by (auto simp: node_OnJoin_def OnJoin_failed split: if_splits)
  then show ?thesis by (simp add: queues_def)
next
  case False
  let ?r = "OnNodeJoin i (nodeRegistry n)"
  have r: "nodeRegistry n' = ?r" and c: "clients (nodeCluster n') = (clients (nodeCluster n))(i \<mapsto>
      \<lparr>targetID = i, digestLimit = 0, pendingQ = fold push_open (OwnedMembers ms ?r) (newPendingUpdates 128),
       updateTimeout = 20000000000\<rparr>)"
    using assms False by (auto simp: node_OnJoin_def OnJoin_ok)
  have "set (OwnedMembers ms ?r) \<subseteq> ran (members ?r)"
    by (auto simp: OwnedMembers_def set_map_filter ran_def)
  then have "set (pending (fold push_open (OwnedMembers ms ?r) (newPendingUpdates 128))) \<subseteq> ran (members ?r)"
    using queue_set [OF new_queue(1), of "OwnedMembers ms ?r"] new_queue(3) by auto
  then show ?thesis unfolding queues_def sendable_def r c by (fastforce simp: ran_def split: if_splits)
qed

lemma node_step_queues:
  assumes "node_step ls e n n'" and "node_inv ls n"
  shows "queues n' \<subseteq> queues n \<union> sendable (localSub n) (nodeRegistry n')"
proof -
  note ok = node_step_ok [OF assms]
  consider "\<forall>i. e \<notin> {Nd_join i, Nd_leave i, Nd_send i}" | i where "e = Nd_join i" | i where "e = Nd_leave i"
    | i where "e = Nd_send i" by blast
  then show ?thesis
  proof cases
    case 1
    then have "\<forall>k. queued k n n'" using ok by (simp add: step_ok_def)
    then show ?thesis by (rule queued_set [OF _ assms(2)])
  next
    case 2
    then show ?thesis using assms(1) by (auto elim!: node_step.cases dest: join_queues)
  next
    case 3
    then obtain ms clk where "n' = node_OnLeave ms clk i n" using assms(1) by (auto elim: node_step.cases)
    then have "clients (nodeCluster n') \<subseteq>\<^sub>m clients (nodeCluster n)"
      by (auto simp: node_OnLeave_def OnLeave_def Let_def map_le_def split: option.splits)
    then show ?thesis by (force simp: queues_def ran_def map_le_def dom_def)
  next
    case 4
    then obtain cl outcomes reqs cl' mt where cl: "clients (nodeCluster n) i = Some cl"
      "sendLoop (localID (nodeRegistry n)) outcomes cl (clientMetrics (nodeCluster n)) = (reqs, cl', mt)"
      "n' = n\<lparr>nodeCluster := (nodeCluster n)\<lparr>clients := (clients (nodeCluster n))(i \<mapsto> cl'), clientMetrics := mt\<rparr>\<rparr>"
      using assms(1) by (auto elim: node_step.cases)
    have "set (pending (pendingQ cl')) \<subseteq> set (pending (pendingQ cl))"
      using cl(2) by (auto simp: sendLoop_eq dest: in_set_dropD split: if_splits)
    then show ?thesis using cl(1) by (auto simp: cl(3) queues_def ran_def split: if_splits)
  qed
qed

subsection \<open>The fleet refines the system\<close>

lemma sys_send_all:
  assumes "finite X" and "X \<subseteq> sendable 0 (regs n)" and "system ls regs sent"
  shows "system ls regs (X \<union> sent)"
  using assms
proof (induction rule: finite_induct)
  case (insert u X)
  then have s: "system ls regs (X \<union> sent)" and u: "u \<in> set (inbox (regs n) 0) \<or> (\<exists>i. members (regs n) i = Some u)"
    by (auto simp: sendable_def ran_def)
  then have "system ls regs (insert u (X \<union> sent))" using sys_forward [OF s] sys_bootstrap [OF s] by blast
  then show ?case by simp
qed simp

lemma finite_sendable: "reg_inv ls r \<Longrightarrow> finite (sendable h r)"
  by (simp add: sendable_def finite_ran reg_inv_finite)

text \<open>Every queued update can be sent in the system, and everything sent has been.\<close>

definition refines :: "(liveness \<Rightarrow> string) \<Rightarrow> (string \<Rightarrow> node) \<Rightarrow> member2 set \<Rightarrow> member2 set \<Rightarrow> bool" where
  "refines ls ns sent sent' \<longleftrightarrow> system ls (\<lambda>i. nodeRegistry (ns i)) sent' \<and> sent \<subseteq> sent' \<and>
     (\<forall>i. node_inv ls (ns i) \<and> localSub (ns i) = 0 \<and> queues (ns i) \<subseteq> sent')"

lemma registries_upd: "(\<lambda>j. nodeRegistry ((ns(i := n)) j)) = (\<lambda>j. nodeRegistry (ns j))(i := nodeRegistry n)"
  by auto

lemma refines_step:
  assumes "refines ls ns sent sent'" and "system ls ((\<lambda>j. nodeRegistry (ns j))(i := nodeRegistry n')) sent''"
    and "sent' \<subseteq> sent''" and "sent1 \<subseteq> sent''"
    and "node_inv ls n'" and "localSub n' = 0" and "queues n' \<subseteq> queues (ns i) \<union> sendable 0 (nodeRegistry n')"
  shows "\<exists>sent'. refines ls (ns(i := n')) sent1 sent'"
proof -
  let ?s = "sendable 0 (nodeRegistry n')"
  have "system ls ((\<lambda>j. nodeRegistry (ns j))(i := nodeRegistry n')) (?s \<union> sent'')"
    by (rule sys_send_all [OF _ _ assms(2), of _ i])
      (use finite_sendable node_inv_parts(1) [OF assms(5)] in auto)
  moreover have old: "node_inv ls (ns k)" "localSub (ns k) = 0" "queues (ns k) \<subseteq> sent''" for k
    using assms(1,3) by (auto simp: refines_def)
  moreover have "queues n' \<subseteq> ?s \<union> sent''" using assms(7) old(3) [of i] by blast
  moreover have "sent1 \<subseteq> ?s \<union> sent''" using assms(4) by blast
  ultimately have "refines ls (ns(i := n')) sent1 (?s \<union> sent'')"
    using assms(5,6) unfolding refines_def registries_upd by (auto intro: le_supI2)
  then show ?thesis by blast
qed

lemma node_step_refines:
  assumes "refines ls ns sent sent'" and "node_step ls e (ns i) n'"
    and "system ls ((\<lambda>j. nodeRegistry (ns j))(i := nodeRegistry n')) sent'"
  shows "\<exists>sent'. refines ls (ns(i := n')) sent sent'"
proof -
  have inv: "node_inv ls (ns i)" "localSub (ns i) = 0" "sent \<subseteq> sent'" using assms(1) by (auto simp: refines_def)
  note ok = node_step_ok [OF assms(2) inv(1)]
  show ?thesis
    by (rule refines_step [OF assms(1,3) subset_refl inv(3)])
      (use ok inv(2) node_step_queues [OF assms(2) inv(1)] in \<open>simp_all add: step_ok_def\<close>)
qed

lemma start_refines:
  assumes "\<And>i. NewNode ls (started i) (clk i) (w i) (opts i) (conf i) = Inr (ns i) \<and> NodeID (conf i) = i"
  shows "refines ls ns {} {}"
proof -
  let ?reg = "\<lambda>i. node_registry ls (started i) (clk i) (conf i)"
  have parts: "nodeCluster (ns i) = NewCluster" "(localSub (ns i), nodeRegistry (ns i)) = SubscribeLocal (?reg i)" for i
    using NewNode_parts assms by blast+
  have 0: "nextHandle (?reg i) = 0" for i
    by (simp add: node_registry_def NewRegistry_def Let_def nextVersionLocked_def split: option.split)
  have "(\<lambda>i. nodeRegistry (ns i)) = (\<lambda>i. snd (SubscribeLocal (NewRegistry ls (clk i) i
      [WithLocalMember (node_member (conf i) (started i)),
       WithHeartbeatTimeout (Milliseconds (HeartbeatTimeout (RegistryConf (conf i)))),
       WithReconnectTimeout (Milliseconds (ReconnectTimeout (RegistryConf (conf i)))),
       WithTombstoneTimeout (Milliseconds (TombstoneTimeout (RegistryConf (conf i)))), WithLogger True])))"
  proof
    fix i
    have "NodeID (conf i) = i" using assms by blast
    then show "nodeRegistry (ns i) = snd (SubscribeLocal (NewRegistry ls (clk i) i
      [WithLocalMember (node_member (conf i) (started i)),
       WithHeartbeatTimeout (Milliseconds (HeartbeatTimeout (RegistryConf (conf i)))),
       WithReconnectTimeout (Milliseconds (ReconnectTimeout (RegistryConf (conf i)))),
       WithTombstoneTimeout (Milliseconds (TombstoneTimeout (RegistryConf (conf i)))), WithLogger True]))"
      using parts(2) [of i] by (metis node_registry_def snd_conv)
  qed
  then have "system ls (\<lambda>i. nodeRegistry (ns i)) {}" by (simp only: sys_start)
  moreover have "localSub (ns i) = 0" for i
    using parts(2) [of i] 0 by (simp add: SubscribeLocal_def Let_def)
  moreover have "queues (ns i) = {}" for i by (simp add: queues_def parts(1) NewCluster_def)
  ultimately show ?thesis using NewNode_inv assms unfolding refines_def by blast
qed

lemma repair_registry:
  assumes "ReplicaRepair ls ks rnd ps ms perm call c r = (c1, r')"
  shows "r' = r \<or> (\<exists>lim d near. Digest ps ms perm lim r = (d, near) \<and>
    (r' = near \<or> (\<exists>peer req us. call peer req = Some us \<and> r' = fold (RemoteUpdate ls) us near)))"
  using assms
  by (fastforce simp: ReplicaRepair_def client_Sync_def sync_request_of_def sync_response_def Let_def
      split: option.splits prod.splits)

lemma fleet_refines: "fleet ls ns sent \<Longrightarrow> \<exists>sent'. refines ls ns sent sent'"
proof (induction rule: fleet.induct)
  case (fleet_start started clk w opts conf ns)
  then show ?case using start_refines by blast
next
  case (fleet_own ns sent e i n')
  then obtain sent' where r: "refines ls ns sent sent'" by blast
  have "system ls ((\<lambda>j. nodeRegistry (ns j))(i := nodeRegistry n')) sent'"
    by (rule sys_own) (use r fleet_own(3) in \<open>auto simp: refines_def\<close>)
  then show ?case by (rule node_step_refines [OF r fleet_own(2)])
next
  case (fleet_send ns sent i k cl outcomes reqs cl' mt)
  then obtain sent' where r: "refines ls ns sent sent'" by blast
  let ?n = "(ns i)\<lparr>nodeCluster := (nodeCluster (ns i))
      \<lparr>clients := (clients (nodeCluster (ns i)))(k \<mapsto> cl'), clientMetrics := mt\<rparr>\<rparr>"
  have step: "node_step ls (Nd_send k) (ns i) ?n" by (rule nd_send [OF fleet_send(2,3)])
  have inv: "node_inv ls (ns i)" "localSub (ns i) = 0" "queues (ns i) \<subseteq> sent'" "sent \<subseteq> sent'"
    using r by (auto simp: refines_def)
  have "UpdMember ` set reqs \<subseteq> set (pending (pendingQ cl))"
    using fleet_send(3) set_take_subset by (fastforce simp: sendLoop_eq split: if_splits)
  then have sent: "UpdMember ` set reqs \<union> sent \<subseteq> sent'"
    using inv(3,4) fleet_send(2) by (force simp: queues_def ran_def)
  have "system ls ((\<lambda>j. nodeRegistry (ns j))(i := nodeRegistry ?n)) sent'"
    using r by (simp add: refines_def fun_upd_idem)
  then show ?case
    by (rule refines_step [OF r _ subset_refl sent])
      (use node_step_ok [OF step inv(1)] node_step_queues [OF step inv(1)] inv(2) in \<open>simp_all add: step_ok_def\<close>)
next
  case (fleet_answer ns sent req mt i us mt' r')
  then obtain sent' where r: "refines ls ns sent sent'" by blast
  have inv: "node_inv ls (ns i)" "localSub (ns i) = 0" "sent \<subseteq> sent'"
    "system ls (\<lambda>j. nodeRegistry (ns j)) sent'" using r by (auto simp: refines_def)
  have d: "Delta (SyncDigest req) (nodeRegistry (ns i)) = (us, r')"
    using fleet_answer(2) by (auto simp: ReplicaServer_Sync_def split: prod.splits)
  then have r': "r' = (nodeRegistry (ns i))\<lparr>priorityMembers := priorityMembers r'\<rparr>" by (auto simp: Delta_eq)
  have "system ls ((\<lambda>j. nodeRegistry (ns j))(i := r')) (set us \<union> sent')" by (rule sys_answer [OF inv(4) d])
  then have s: "system ls ((\<lambda>j. nodeRegistry (ns j))(i := nodeRegistry ((ns i)\<lparr>nodeRegistry := r'\<rparr>))) (set us \<union> sent')"
    by simp
  have n': "node_inv ls ((ns i)\<lparr>nodeRegistry := r'\<rparr>)"
    using inv(1) by (subst r') (simp add: node_inv_def)
  show ?case
    by (rule refines_step [OF r s]) (use n' inv(2,3) in \<open>auto simp: queues_def\<close>)
next
  case (fleet_update ns sent u i n')
  then obtain sent' where r: "refines ls ns sent sent'" by blast
  have "nodeRegistry n' = RemoteUpdate ls u (nodeRegistry (ns i))"
    using fleet_update(3) by (auto elim!: node_step.cases simp: remote_step_iff)
  moreover have "system ls ((\<lambda>j. nodeRegistry (ns j))(i := RemoteUpdate ls u (nodeRegistry (ns i)))) sent'"
    by (rule sys_deliver) (use r fleet_update(2) in \<open>auto simp: refines_def\<close>)
  ultimately have "system ls ((\<lambda>j. nodeRegistry (ns j))(i := nodeRegistry n')) sent'" by (simp only:)
  then show ?case by (rule node_step_refines [OF r fleet_update(3)])
next
  case (fleet_repair ns sent n i ks ps ms perm call rnd c1 r' us kss c')
  then obtain sent' where r: "refines ls ns sent sent'" by blast
  let ?regs = "\<lambda>j. nodeRegistry (ns j)"
  have s: "system ls ?regs sent'" "sent \<subseteq> sent'" using r by (auto simp: refines_def)
  have step: "node_step ls Nd_repair (ns i) (n\<lparr>nodeCluster := c', nodeRegistry := r'\<rparr>)"
    using nd_repair [OF fleet_repair(3-6,8-11)] fleet_repair(2) by simp
  have "system ls (?regs(i := r')) sent'"
    using repair_registry [OF fleet_repair(8)]
  proof (elim disjE exE conjE)
    assume "r' = nodeRegistry n"
    then show ?thesis using s(1) fleet_repair(2) by (simp add: fun_upd_idem)
  next
    fix lim d near assume d: "Digest ps ms perm lim (nodeRegistry n) = (d, near)"
    have "own_step ls (nodeRegistry n) near"
      by (rule own_quiet [OF step_digest [OF fleet_repair(4-6) d]]) simp
    then have near: "system ls (?regs(i := near)) sent'"
      unfolding fleet_repair(2) by (rule sys_own [OF s(1)])
    then show ?thesis if "r' = near" using that by simp
    show ?thesis if "call peer req = Some us" "r' = fold (RemoteUpdate ls) us near" for peer req us
      using sys_deliver_all [OF near, of us i] fleet_repair(7) that s(2) by fastforce
  qed
  then have "system ls (?regs(i := nodeRegistry (n\<lparr>nodeCluster := c', nodeRegistry := r'\<rparr>))) sent'" by simp
  then show ?case by (rule node_step_refines [OF r step])
qed

subsection \<open>Agreement\<close>

text \<open>
  C3: nodes that store the same version of a member store the same member. Any number of nodes run
  as NewNode wires them: they register, hear from, remove, expire and take over members, peers join
  and leave, the send loops forward what is queued, digests are answered and repaired from; messages
  may be lost, delayed, repeated and reordered, and clocks may disagree between nodes as long as
  none goes back. Then (1) two nodes with the same version of a member have the same state and
  liveness of it; (2) no node stores and no message carries a version later than the last one its
  owner has given out; (3) while the owner still owns the member, no node stores a later version
  from the same owner; (4) once the owner's entry is delivered to another node, other than the one whose
  id the member has (which never takes an update of its own entry), that node stores the same, unless
  it stores a version of another owner that is not older.
\<close>
theorem nodes_agree:
  assumes "fleet ls ns sent" and "regs = (\<lambda>n. nodeRegistry (ns n))" and "members (regs b) i = Some mb"
  shows "(\<forall>a ma. members (regs a) i = Some ma \<longrightarrow>
      (Version ma = Version mb \<longrightarrow> State ma = State mb \<and> Liveness ma = Liveness mb) \<and>
      stamped (regs (OwnerId (Version ma))) (Version ma) \<and>
      (OwnerId (Version ma) = b \<longrightarrow> OwnerId (Version mb) = b \<longrightarrow> \<not> newer (Version mb) (Version ma))) \<and>
    (\<forall>u \<in> sent. stamped (regs (OwnerId (Version u))) (Version u)) \<and>
    (OwnerId (Version mb) = b \<longrightarrow> (\<forall>a. a \<notin> {b, i} \<longrightarrow>
      (\<exists>m. members (RemoteUpdate ls mb (regs a)) i = Some m \<and>
        (State m = State mb \<and> Liveness m = Liveness mb \<and> Version m = Version mb \<or>
         OwnerId (Version m) \<noteq> b \<and> \<not> newer (Version m) (Version mb)))))"
proof -
  obtain sent' where r: "refines ls ns sent sent'" using fleet_refines [OF assms(1)] by blast
  then have s: "system ls regs sent'" and sub: "sent \<subseteq> sent'" by (simp_all add: refines_def assms(2))
  show ?thesis using system_nodes_agree [OF s assms(3)] sub by blast
qed

text \<open>A fleet in which a node joins another, queues its own entry for it and sends it.\<close>

lemma sample_node:
  "\<exists>n. NewNode sample_text 5 5 sample_world [] ((DefaultConfig ''01234567'')\<lparr>NodeID := i\<rparr>) = Inr n"
proof -
  let ?c = "(DefaultConfig ''01234567'')\<lparr>NodeID := i\<rparr>"
  have d: "set fuddle_names \<inter> set (go_names sample_world) = {}" by (simp add: fuddle_names_def sample_world_def)
  have l: "admin_ln_of sample_world node_defaultOptions ?c = Some (Listener 3)"
    "rpc_ln_of sample_world node_defaultOptions ?c = Some (Listener 3)"
    "\<And>paths. log_builds sample_world paths"
    by (simp_all add: admin_ln_of_def rpc_ln_of_def sample_world_def node_defaultOptions_def)
  obtain mc lns where g: "NewGossip ?c (gossip_opts node_defaultOptions) (gossip_world sample_world)
     (open_lns sample_world) = Some (Inr mc, True, lns)" using sample_gossip_starts [of ?c] by auto
  have "node_defaultOptions = fold apply_node_option [] node_defaultOptions" by simp
  from NewNode_outcome [OF d this, of sample_text 5 5 ?c]
  show ?thesis by (simp add: l g split: prod.split)
qed

lemma sample_join:
  assumes "members (nodeRegistry n) = [NodeID (nodeConfig n) \<mapsto> m]" and "OwnerId (Version m) = localID (nodeRegistry n)"
    and "i \<noteq> NodeID (nodeConfig n)"
  shows "\<exists>n' cl cl' mt. node_step ls (Nd_join i) n n' \<and> nodeRegistry n' = OnNodeJoin i (nodeRegistry n) \<and>
    clients (nodeCluster n') i = Some cl \<and>
    sendLoop lid [True] cl (clientMetrics (nodeCluster n')) = ([\<lparr>UpdMember = m, UpdSourceNodeId = lid\<rparr>], cl', mt)"
proof -
  let ?id = "NodeID (nodeConfig n)" and ?r = "OnNodeJoin i (nodeRegistry n)"
  have ms: "iter_order [?id] (members (nodeRegistry n))" using assms(1) by (simp add: iter_order_def)
  have us: "OwnedMembers [?id] ?r = [m]" using assms(1,2) by (simp add: OwnedMembers_def OnNodeJoin_def)
  let ?cl = "\<lparr>targetID = i, digestLimit = 0, pendingQ = push_open m (newPendingUpdates 128),
    updateTimeout = 20000000000\<rparr>"
  obtain n' where n': "node_OnJoin True [?id] i n = Some n'" "nodeRegistry n' = ?r" "clients (nodeCluster n') i = Some ?cl"
    using assms(3) by (simp add: node_OnJoin_def OnJoin_ok us)
  have "sendLoop lid [True] ?cl mt0 = ([\<lparr>UpdMember = m, UpdSourceNodeId = lid\<rparr>],
      snd (sendLoop lid [True] ?cl mt0))" for mt0
    by (simp add: push_open_def Push_def newPendingUpdates_def Take_def Let_def)
  then show ?thesis using nd_join [OF ms n'(1)] n' by (metis prod.collapse)
qed

lemma node_registry_prio: "priorityMembers (node_registry ls started clk conf) = {}"
  by (simp add: node_registry_def)

definition sample_entry :: "string \<Rightarrow> member2" where
  "sample_entry i = \<lparr>State = node_member ((DefaultConfig ''01234567'')\<lparr>NodeID := i\<rparr>) 5, Liveness = Liveness_UP,
     Version = \<lparr>OwnerId = i, VTimestamp = MonotonicTimestamp 5 0\<rparr>, Expiry = 0\<rparr>"

lemma sample_entry_fields [simp]:
  "MemberId (State (sample_entry i)) = i" "OwnerId (Version (sample_entry i)) = i"
  "VTimestamp (Version (sample_entry i)) = MonotonicTimestamp 5 0"
  by (simp_all add: sample_entry_def node_member_def)

lemma sample_fleet:
  obtains ns where "fleet sample_text ns {}" "\<And>i. NodeID (nodeConfig (ns i)) = i"
    "\<And>i. members (nodeRegistry (ns i)) = [i \<mapsto> sample_entry i]" "\<And>i. localID (nodeRegistry (ns i)) = i"
    "\<And>i. clients (nodeCluster (ns i)) = Map.empty" "\<And>i. subs (nodeRegistry (ns i)) (localSub (ns i)) = Some owner_sub"
    "\<And>i. priorityMembers (nodeRegistry (ns i)) = {}"
proof -
  let ?c = "\<lambda>i. (DefaultConfig ''01234567'')\<lparr>NodeID := i\<rparr>"
  obtain ns where ns: "NewNode sample_text 5 5 sample_world [] (?c i) = Inr (ns i)" for i
    using sample_node by metis
  have 0: "fleet sample_text ns {}"
    by (rule fleet_start [of sample_text "\<lambda>_. 5" "\<lambda>_. 5" "\<lambda>_. sample_world" "\<lambda>_. []" ?c]) (simp add: ns)
  have start: "NodeID (nodeConfig (ns i)) = i" "members (nodeRegistry (ns i)) = [i \<mapsto> sample_entry i]"
    "localID (nodeRegistry (ns i)) = i" "clients (nodeCluster (ns i)) = Map.empty"
    "subs (nodeRegistry (ns i)) (localSub (ns i)) = Some owner_sub" "priorityMembers (nodeRegistry (ns i)) = {}" for i
    using NewNode_parts [OF ns [of i]] node_inv_parts(3) [OF conjunct1 [OF NewNode_inv [OF ns [of i]]]]
    by (simp_all add: SubscribeLocal_def Let_def node_registry_members node_registry_own(1) NewCluster_def
        sample_entry_def node_registry_prio)
  show ?thesis by (rule that [OF 0 start])
qed

theorem nodes_agree_witness:
  "\<exists>ns sent u. fleet sample_text ns sent \<and> members (nodeRegistry (ns ''n2'')) ''n1'' = Some u \<and>
     OwnerId (Version u) = ''n1'' \<and> stamped (nodeRegistry (ns ''n1'')) (Version u)"
proof -
  obtain ns where 0: "fleet sample_text ns {}" and start: "\<And>i. NodeID (nodeConfig (ns i)) = i"
    "\<And>i. members (nodeRegistry (ns i)) = [i \<mapsto> sample_entry i]" "\<And>i. localID (nodeRegistry (ns i)) = i"
    "\<And>i. clients (nodeCluster (ns i)) = Map.empty" "\<And>i. subs (nodeRegistry (ns i)) (localSub (ns i)) = Some owner_sub"
    using sample_fleet by metis
  let ?m = sample_entry
  obtain n1 cl cl' mt where join: "node_step sample_text (Nd_join ''n2'') (ns ''n1'') n1"
    "nodeRegistry n1 = OnNodeJoin ''n2'' (nodeRegistry (ns ''n1''))" "clients (nodeCluster n1) ''n2'' = Some cl"
    "sendLoop ''n1'' [True] cl (clientMetrics (nodeCluster n1)) = ([\<lparr>UpdMember = ?m ''n1'', UpdSourceNodeId = ''n1''\<rparr>], cl', mt)"
    using sample_join [of "ns ''n1''" "?m ''n1''" "''n2''" sample_text "''n1''"] start [of "''n1''"] by auto
  let ?ns1 = "ns(''n1'' := n1)"
  have "own_step sample_text (nodeRegistry (ns ''n1'')) (nodeRegistry n1)"
    unfolding join(2) by (rule own_quiet [OF step_join]) simp
  from fleet_own [OF 0 join(1) this] have 1: "fleet sample_text ?ns1 {}" .
  let ?n1 = "n1\<lparr>nodeCluster := (nodeCluster n1)\<lparr>clients := (clients (nodeCluster n1))(''n2'' \<mapsto> cl'),
      clientMetrics := mt\<rparr>\<rparr>"
  let ?ns2 = "?ns1(''n1'' := ?n1)"
  have 2: "fleet sample_text ?ns2 {?m ''n1''}"
    using fleet_send [OF 1, of "''n1''" "''n2''" cl "[True]"] join(2-4) start(3) by (simp add: OnNodeJoin_def)
  let ?n = "ns ''n2''"
  let ?r = "RemoteUpdate sample_text (?m ''n1'') (nodeRegistry ?n)"
  have acc: "remote_accepted (nodeRegistry ?n) (?m ''n1'')" "\<not> lost_ownership (nodeRegistry ?n) (?m ''n1'')"
    using start [of "''n2''"] by (simp_all add: remote_accepted_def lost_ownership_def)
  then have none: "notified (localSub ?n) (nodeRegistry ?n) ?r = []"
    using start(5) [of "''n2''"] by (simp add: RemoteUpdate_eq notified_def inbox_notify owner_sub_def)
  have "node_step sample_text (Nd_serve (Ev_remote (?m ''n1''))) ?n (?n\<lparr>nodeCluster := nodeCluster ?n, nodeRegistry := ?r\<rparr>)"
    by (rule nd_serve [OF step_remote _ none [symmetric], where kss = "[]"]) (simp_all add: good_orders_def deliver_def)
  then have serve: "node_step sample_text (Nd_serve (Ev_remote (?m ''n1''))) (?ns2 ''n2'') (?n\<lparr>nodeRegistry := ?r\<rparr>)"
    by simp
  let ?ns3 = "?ns2(''n2'' := ?n\<lparr>nodeRegistry := ?r\<rparr>)"
  have 3: "fleet sample_text ?ns3 {?m ''n1''}" by (rule fleet_update [OF 2 _ serve]) simp
  have m: "members (nodeRegistry (?ns3 ''n1'')) ''n1'' = Some (?m ''n1'')"
    "members (nodeRegistry (?ns3 ''n2'')) ''n1'' = Some (?m ''n1'')"
    using start(2) acc by (simp_all add: join(2) OnNodeJoin_def members_RemoteUpdate)
  obtain ns' u where f: "fleet sample_text ns' {u}" "members (nodeRegistry (ns' ''n1'')) ''n1'' = Some u"
    "members (nodeRegistry (ns' ''n2'')) ''n1'' = Some u" "OwnerId (Version u) = ''n1''"
    by (rule that [OF 3 m]) simp
  have "stamped (nodeRegistry (ns' ''n1'')) (Version u)"
    using conjunct1 [OF nodes_agree [OF f(1) refl f(2)]] f(3,4) by metis
  then show ?thesis using f by blast
qed

subsection \<open>Convergence\<close>

lemma visits_within: "visits p qs rds \<Longrightarrow> set (p # qs) \<subseteq> N \<Longrightarrow> \<forall>rd \<in> set rds. within N rd"
proof
  fix rd assume "visits p qs rds" "set (p # qs) \<subseteq> N" "rd \<in> set rds"
  then have "(rp_near rd, rp_far rd) \<in> set (concat (map (\<lambda>q. [(p, q), (q, p)]) qs))"
    by (metis (mono_tags, lifting) image_eqI list.set_map visits_def)
  then show "within N rd" using \<open>set (p # qs) \<subseteq> N\<close> by (auto simp: within_def)
qed

lemma own_entry_fold:
  "members (fold (RemoteUpdate ls) us r) i = Some e \<Longrightarrow> OwnerId (Version e) = localID r \<Longrightarrow> members r i = Some e"
proof (induction us arbitrary: r)
  case (Cons u us)
  then have "members (RemoteUpdate ls u r) i = Some e" by simp
  then show ?case using Cons.prems(2) by (auto simp: members_RemoteUpdate remote_accepted_def split: if_splits)
qed simp

lemma own_entry_round:
  assumes "round_ok rd regs" and "members (net_round ls rd regs n) i = Some e"
    and "OwnerId (Version e) = localID (regs n)"
  shows "members (regs n) i = Some e"
proof -
  obtain near1 where d: "Digest (rp_prio rd) (rp_members rd) (rp_perm rd) (digestLimit (rp_client rd))
      (regs (rp_near rd)) = (round_digest rd regs, near1)"
    and r: "net_round ls rd regs = regs
      (rp_near rd := fold (RemoteUpdate ls) (fst (Delta (round_digest rd regs) (regs (rp_far rd)))) near1,
       rp_far rd := snd (Delta (round_digest rd regs) (regs (rp_far rd))))"
    by (rule net_round_eq [OF assms(1)])
  have "valid_digest_args (rp_prio rd) (rp_members rd) (rp_perm rd) (regs (rp_near rd))"
    using assms(1) by (simp add: round_ok_def)
  note f = Digest_fields [OF d this]
  show ?thesis
    using assms(2,3) own_entry_fold [of ls _ near1 i e] f(2,3) by (auto simp: r split: if_splits)
qed

lemma own_entry_run:
  "along ls round_ok rds regs \<Longrightarrow> members (net_run ls rds regs n) i = Some e \<Longrightarrow>
     OwnerId (Version e) = localID (regs n) \<Longrightarrow> members (regs n) i = Some e"
proof (induction rds arbitrary: regs)
  case (Cons rd rds)
  have "members (net_round ls rd regs n) i = Some e"
    using Cons.IH [of "net_round ls rd regs"] Cons.prems round_monotone(3) by auto
  then show ?case using own_entry_round Cons.prems(1,3) by (metis along.simps(2))
qed simp

lemma sys_rounds:
  "system ls regs sent \<Longrightarrow> along ls round_ok rds regs \<Longrightarrow> \<exists>sent'. system ls (net_run ls rds regs) sent'"
proof (induction rds arbitrary: regs sent)
  case (Cons rd rds)
  obtain sent' where "system ls (net_round ls rd regs) sent'"
    using sys_round [OF Cons.prems(1)] Cons.prems(2) by auto
  then show ?case using Cons.IH Cons.prems(2) by auto
qed auto

text \<open>
  C4: nodes converge. After any run of the nodes, whatever was lost, let one node own a member that
  no node of a group stores for another owner. When the owner repairs with each of the others, asking
  and being asked, with digests that are not cut off, all of them end up with exactly the owner's
  entry: its state, its liveness and its version; and the owner still has it. Digests are cut off
  unless the digest limit is above the number of members: the clients a node makes when a peer joins
  do not set it, which leaves one member to a digest (\<open>default_digest_single\<close>).
\<close>
theorem repair_converges:
  assumes "fleet ls ns sent" and "members (nodeRegistry (ns b)) i = Some mb" and "OwnerId (Version mb) = b"
    and "\<forall>n \<in> N. \<forall>e. members (nodeRegistry (ns n)) i = Some e \<longrightarrow> OwnerId (Version e) = b"
    and "set (b # qs) \<subseteq> N" and "i \<notin> N - {b}" and "MonotonicTimestamp 0 0 < VTimestamp (Version mb)"
    and "along ls round_ok rds (\<lambda>n. nodeRegistry (ns n))"
    and "along ls round_complete rds (\<lambda>n. nodeRegistry (ns n))" and "visits b qs rds"
  shows "\<forall>q \<in> set (b # qs). \<exists>m. members (net_run ls rds (\<lambda>n. nodeRegistry (ns n)) q) i = Some m \<and>
    State m = State mb \<and> Liveness m = Liveness mb \<and> Version m = Version mb"
proof
  let ?regs = "\<lambda>n. nodeRegistry (ns n)" and ?t = "VTimestamp (Version mb)"
  let ?last = "net_run ls rds ?regs"
  fix q assume q: "q \<in> set (b # qs)"
  obtain sent' where r: "refines ls ns sent sent'" using fleet_refines [OF assms(1)] by blast
  then have s: "system ls ?regs sent'" by (simp add: refines_def)
  then obtain H where H: "system_agrees H ls ?regs sent'" using system_inv by blast
  then have node: "localID (?regs n) = n" "reg_inv ls (?regs n)" for n
    by (simp_all add: system_agrees_def node_agrees_def)
  have b: "b \<in> N" using assms(5) by simp
  have held: "holds i ?t (?regs b)" using assms(2) by (auto simp: holds_def)
  have "holds i ?t (?regs n)" if "n \<in> N" "localID (?regs n) \<in> {i, b}" for n
    using that held node(1) assms(6) by auto
  then have own: "one_owner ls N i b ?t ?regs" using node(2) assms(4) by (auto simp: one_owner_def)
  have "one_owner ls N i b ?t ?last"
    using run_sound [OF own assms(8) visits_within [OF assms(10,5)] assms(7), of "({}, {})"]
    by (simp add: rumour_sound_def)
  then have owner: "OwnerId (Version m) = b" if "n \<in> N" "members (?last n) i = Some m" for n m
    using that by (auto simp: one_owner_def)
  have spread: "holds i ?t (?last n)" if "n \<in> set (b # qs)" for n
    using visits_spread [OF own assms(7) held assms(8,9,10,5)] that by blast
  obtain m' where m': "members (?last b) i = Some m'" using spread [of b] by (auto simp: holds_def)
  then have "members (?regs b) i = Some m'"
    using own_entry_run [OF assms(8) m'] owner [OF b m'] node(1) [of b] by simp
  then have mb: "members (?last b) i = Some mb" using m' assms(2) by simp
  obtain m where m: "members (?last q) i = Some m" "?t \<le> VTimestamp (Version m)"
    using spread [OF q] by (auto simp: holds_def)
  have o: "OwnerId (Version m) = b" using owner m(1) q assms(5) by blast
  obtain sent'' where "system ls ?last sent''" using sys_rounds [OF s assms(8)] by blast
  note agree = system_nodes_agree [OF this mb]
  have "\<not> newer (Version mb) (Version m)" using agree m(1) o assms(3) by blast
  then have "Version m = Version mb"
    using m(2) o assms(3) by (cases "Version m"; cases "Version mb") (auto simp: newer_iff_timestamp)
  then show "\<exists>m. members (?last q) i = Some m \<and> State m = State mb \<and> Liveness m = Liveness mb \<and>
      Version m = Version mb"
    using agree m(1) by blast
qed

definition fleet_repairs :: "repair list" where
  "fleet_repairs =
     [\<lparr>rp_near = ''n1'', rp_far = ''n2'', rp_prio = [], rp_members = [''n1''], rp_perm = [0],
        rp_client = sample_client ''n2''\<rparr>,
      \<lparr>rp_near = ''n2'', rp_far = ''n1'', rp_prio = [''n1''], rp_members = [''n2''], rp_perm = [0],
        rp_client = sample_client ''n1''\<rparr>]"

theorem repair_converges_witness:
  "\<exists>ns m. fleet sample_text ns {} \<and> members (nodeRegistry (ns ''n2'')) ''n1'' = None \<and>
     members (net_run sample_text fleet_repairs (\<lambda>n. nodeRegistry (ns n)) ''n2'') ''n1'' = Some m \<and>
     Version m = Version (sample_entry ''n1'')"
proof -
  obtain ns where 0: "fleet sample_text ns {}"
    and e: "\<And>i. members (nodeRegistry (ns i)) = [i \<mapsto> sample_entry i]"
    and prio: "\<And>i. priorityMembers (nodeRegistry (ns i)) = {}"
    using sample_fleet by metis
  let ?regs = "\<lambda>n. nodeRegistry (ns n)" and ?r1 = "hd fleet_repairs" and ?r2 = "fleet_repairs ! 1"
  have ok1: "round_ok ?r1 ?regs" and full1: "round_complete ?r1 ?regs"
    by (simp_all add: fleet_repairs_def round_ok_def round_complete_def valid_digest_args_def iter_order_def
        e prio sample_client_def)
  have d: "round_digest ?r1 ?regs = [(''n1'', MonotonicTimestamp 5 0)]"
    by (simp add: round_digest_def fleet_repairs_def Digest_def digest_of_def digest_entry_def shuffleStrings_def
        sample_client_def e prio)
  obtain near1 where r: "net_round sample_text ?r1 ?regs = ?regs
      (rp_near ?r1 := fold (RemoteUpdate sample_text) (fst (Delta (round_digest ?r1 ?regs) (?regs (rp_far ?r1)))) near1,
       rp_far ?r1 := snd (Delta (round_digest ?r1 ?regs) (?regs (rp_far ?r1))))"
    by (rule net_round_eq [OF ok1])
  have n2: "members (net_round sample_text ?r1 ?regs ''n2'') = [''n2'' \<mapsto> sample_entry ''n2'']"
    "priorityMembers (net_round sample_text ?r1 ?regs ''n2'') = {''n1''}"
    unfolding r d by (auto simp: fleet_repairs_def Delta_eq delta_answer_def e prio)
  have "round_ok ?r2 (net_round sample_text ?r1 ?regs)" "round_complete ?r2 (net_round sample_text ?r1 ?regs)"
    using n2 by (simp_all add: fleet_repairs_def round_ok_def round_complete_def valid_digest_args_def
        iter_order_def sample_client_def)
  then have run: "along sample_text round_ok fleet_repairs ?regs" "along sample_text round_complete fleet_repairs ?regs"
    using ok1 full1 by (simp_all add: fleet_repairs_def)
  have v: "visits ''n1'' [''n2''] fleet_repairs" by (simp add: visits_def fleet_repairs_def)
  have own: "\<forall>n \<in> {''n1'', ''n2''}. \<forall>m. members (?regs n) ''n1'' = Some m \<longrightarrow> OwnerId (Version m) = ''n1''"
    by (simp add: e)
  have "\<forall>q \<in> set [''n1'', ''n2'']. \<exists>m. members (net_run sample_text fleet_repairs ?regs q) ''n1'' = Some m \<and>
      State m = State (sample_entry ''n1'') \<and> Liveness m = Liveness (sample_entry ''n1'') \<and>
      Version m = Version (sample_entry ''n1'')"
    by (rule repair_converges [OF 0 _ _ own _ _ _ run v]) (simp_all add: e less_monotonic_timestamp_def)
  then obtain m where "members (net_run sample_text fleet_repairs ?regs ''n2'') ''n1'' = Some m"
    "Version m = Version (sample_entry ''n1'')" by auto
  moreover have "members (?regs ''n2'') ''n1'' = None" by (simp add: e)
  ultimately show ?thesis using 0 by blast
qed

end
