(* ===== verification/FcmStart.thy ===== *)
theory FcmStart
  imports FcmClient Servers
begin

text \<open>
  The cluster manager as a process: NewServer and Shutdown of pkg/fcm/server/server.go, pkg/fcm/fcm.go
  with its options, and the start command of pkg/cli/fcm/start. A request is served by the handlers
  of FcmServer. The HTTP library is what it is given; its Shutdown has stopped accepting requests
  when it returns.
\<close>

subsection \<open>The server\<close>

datatype fcm_server_option = FcmServer_WithListener "listener option" | FcmServer_WithLogger

fun apply_fcm_server_option :: "fcm_server_option \<Rightarrow> listener option \<Rightarrow> listener option" where
  "apply_fcm_server_option (FcmServer_WithListener ln) o' = ln"
| "apply_fcm_server_option FcmServer_WithLogger o' = o'"

text \<open>
  The routes it answers, its address, its timeouts in nanoseconds and the listener it serves. The
  timeouts are configuration of the HTTP library: a slow handler, whose reply is then lost, is not
  modelled.
\<close>

record fcm_server =
  fs_routes :: "(http_method \<times> string \<times> (string \<Rightarrow> fcm_handler)) list"
  fs_addr :: string
  fs_ReadTimeout :: int
  fs_WriteTimeout :: int
  fs_IdleTimeout :: int
  fs_ReadHeaderTimeout :: int
  fs_serving :: "listener option"

definition fcm_http_server :: "string \<Rightarrow> listener option \<Rightarrow> fcm_server" where
  "fcm_http_server a ln = \<lparr>fs_routes = fcm_routes, fs_addr = a,
     fs_ReadTimeout = 1 * 1000000000, fs_WriteTimeout = 1 * 1000000000, fs_IdleTimeout = 30 * 1000000000,
     fs_ReadHeaderTimeout = 2 * 1000000000, fs_serving = ln\<rparr>"

definition fcm_NewServer ::
  "os_net \<Rightarrow> string \<Rightarrow> int \<Rightarrow> fcm_server_option list \<Rightarrow> (unit + fcm_server) option"
where
  "fcm_NewServer os addr port opts =
     (let serve = (\<lambda>ln. case Addr os ln of
            None \<Rightarrow> None
          | Some a \<Rightarrow> Some (Inr (fcm_http_server a ln)))
      in case fold apply_fcm_server_option opts None of
           Some ln \<Rightarrow> serve (Some ln)
         | None \<Rightarrow>
             let ln = listenTCP os (ParseIP os addr) port
             in if ln = None
                then (case Addr os ln of None \<Rightarrow> None | Some a \<Rightarrow> Some (Inl ()))
                else serve ln)"

definition fcm_server_Shutdown ::
  "(string \<times> nat list \<times> nat list) list \<Rightarrow> fcm_world \<times> fcm_server \<Rightarrow> fcm_world \<times> fcm_server"
where
  "fcm_server_Shutdown ord ws =
     (let s' = (snd ws)\<lparr>fs_serving := None\<rparr>; m' = manager_Shutdown ord (fst ws)
      in ((m', snd (fst ws)), s'))"

subsection \<open>The manager\<close>

record fcm_main_options =
  fmo_defaultCluster :: bool
  fmo_listener :: "listener option"
  fmo_clusterLogDir :: string

definition fcm_main_defaultOptions :: fcm_main_options where
  "fcm_main_defaultOptions = \<lparr>fmo_defaultCluster = False, fmo_listener = None, fmo_clusterLogDir = ''''\<rparr>"

datatype fcm_main_option =
  Fcm_WithDefaultCluster bool | Fcm_WithListener "listener option" | Fcm_WithLogger | Fcm_WithClusterLogDir string

fun apply_fcm_main_option :: "fcm_main_option \<Rightarrow> fcm_main_options \<Rightarrow> fcm_main_options" where
  "apply_fcm_main_option (Fcm_WithDefaultCluster b) o' = o'\<lparr>fmo_defaultCluster := b\<rparr>"
| "apply_fcm_main_option (Fcm_WithListener ln) o' = o'\<lparr>fmo_listener := ln\<rparr>"
| "apply_fcm_main_option Fcm_WithLogger o' = o'"
| "apply_fcm_main_option (Fcm_WithClusterLogDir d) o' = o'\<lparr>fmo_clusterLogDir := d\<rparr>"

text \<open>The end of NewFCM: a manager that serves, an error it returns, a panic, or still starting.\<close>

datatype fcm_start = Fcm_up fcm_server | Fcm_cluster_error fcm_error | Fcm_server_error
  | Fcm_panic | Fcm_starting

definition NewFCM ::
  "os_net \<Rightarrow> string \<Rightarrow> int \<Rightarrow> fcm_main_option list \<Rightarrow> cluster_env \<Rightarrow> machine \<Rightarrow> fcm_world \<times> fcm_start"
where
  "NewFCM os addr port opts e m =
     (let options = fold apply_fcm_main_option opts fcm_main_defaultOptions
      in case NewFCM_clusters (fmo_defaultCluster options) (fmo_clusterLogDir options) e m of
           (w, Running) \<Rightarrow> (w, Fcm_starting)
         | (w, Failed x) \<Rightarrow> (w, if x = LogPanic then Fcm_panic else Fcm_cluster_error x)
         | (w, LoopDone) \<Rightarrow>
             (w, case fcm_NewServer os addr port
                   [FcmServer_WithLogger, FcmServer_WithListener (fmo_listener options)] of
                None \<Rightarrow> Fcm_panic
              | Some (Inl _) \<Rightarrow> Fcm_server_error
              | Some (Inr s) \<Rightarrow> Fcm_up s))"

definition FCM_Shutdown ::
  "(string \<times> nat list \<times> nat list) list \<Rightarrow> fcm_world \<times> fcm_server \<Rightarrow> fcm_world \<times> fcm_server"
where
  "FCM_Shutdown ord ws = fcm_server_Shutdown ord ws"

subsection \<open>The start command\<close>

record fcm_flags =
  ff_addr :: string
  ff_port :: int
  ff_cluster :: bool
  ff_logLevel :: string
  ff_clusterLogDir :: string

definition fcm_flag_defaults :: fcm_flags where
  "fcm_flag_defaults = \<lparr>ff_addr = ''127.0.0.1'', ff_port = 8220, ff_cluster = False,
     ff_logLevel = ''info'', ff_clusterLogDir = ''''\<rparr>"

text \<open>
  The command: it starts the manager, which serves requests until the interrupt signal, and shuts
  it down. An error is fatal: the process exits with status 1. The level is that of its logger.
\<close>

datatype fcm_exit = Fcm_exited nat level "nat set" | Fcm_crashed | Fcm_not_up

definition fcm_run ::
  "os_net \<Rightarrow> fcm_flags \<Rightarrow> cluster_env \<Rightarrow> fcm_request list \<Rightarrow> (string \<times> nat list \<times> nat list) list \<Rightarrow>
     machine \<Rightarrow> fcm_exit"
where
  "fcm_run os flags e reqs ord m =
     (let lvl = StringToLevel (ff_logLevel flags)
      in case NewFCM os (ff_addr flags) (ff_port flags)
           [Fcm_WithDefaultCluster (ff_cluster flags), Fcm_WithLogger,
            Fcm_WithClusterLogDir (ff_clusterLogDir flags)] e m of
           (w, Fcm_up s) \<Rightarrow> Fcm_exited 0 lvl (running (fst (fst (FCM_Shutdown ord (fold serve reqs w, s)))))
         | (w, Fcm_cluster_error x) \<Rightarrow> Fcm_exited 1 lvl {}
         | (w, Fcm_server_error) \<Rightarrow> Fcm_exited 1 lvl {}
         | (w, Fcm_panic) \<Rightarrow> Fcm_crashed
         | (w, Fcm_starting) \<Rightarrow> Fcm_not_up)"


subsection \<open>Nodes that no cluster owns\<close>

definition registered :: "manager \<Rightarrow> nat set" where
  "registered cs = \<Union> (cluster_nodes ` ran cs)"

definition orphans :: "fcm_world \<Rightarrow> nat set" where
  "orphans w = running (fst w) - registered (snd w)"

text \<open>
  What a request leaves without an owner: the nodes of a creation that failed, or those of the cluster
  a new one with the same id takes the place of.
\<close>

definition orphaned :: "fcm_request \<Rightarrow> fcm_world \<Rightarrow> nat set" where
  "orphaned req w = (case req of
     Create (Some body) e _ _ \<Rightarrow>
       (case fcm_NewCluster [WithFuddleNodes (req_Nodes body), WithMemberNodes (req_Members body)] e (fst w) of
          ((m, c), r) \<Rightarrow>
            if r \<noteq> LoopDone then cluster_nodes c
            else (case snd w (cluster_id c) of None \<Rightarrow> {} | Some d \<Rightarrow> cluster_nodes d))
   | _ \<Rightarrow> {})"

lemma registered_iff: "k \<in> registered cs \<longleftrightarrow> (\<exists>i c. cs i = Some c \<and> k \<in> cluster_nodes c)"
  by (auto simp: registered_def ran_def)

lemma registered_restrict: "k \<in> registered (cs |` A) \<longleftrightarrow> (\<exists>i \<in> A. \<exists>c. cs i = Some c \<and> k \<in> cluster_nodes c)"
  by (auto simp: registered_iff restrict_map_def split: if_splits)

lemma registered_split:
  assumes "cs i = Some c"
  shows "registered cs = cluster_nodes c \<union> registered (cs(i := None))"
proof -
  have "(\<exists>j d. cs j = Some d \<and> k \<in> cluster_nodes d) \<longleftrightarrow>
      k \<in> cluster_nodes c \<or> (\<exists>j d. j \<noteq> i \<and> cs j = Some d \<and> k \<in> cluster_nodes d)" for k
    using assms by (metis option.inject)
  then show ?thesis by (auto simp: registered_iff set_eq_iff)
qed

lemma registered_upd: "registered (cs(i \<mapsto> c)) = cluster_nodes c \<union> registered (cs(i := None))"
  using registered_split [of "cs(i \<mapsto> c)" i c] by simp

lemma registered_none: "cs i = None \<Longrightarrow> registered (cs(i := None)) = registered cs"
  by (simp add: fun_upd_idem)

lemma registered_others:
  assumes "world_inv (m, cs)" and "cs i = Some c"
  shows "cluster_nodes c \<subseteq> running m" "cluster_nodes c \<inter> registered (cs(i := None)) = {}"
proof -
  show "cluster_nodes c \<subseteq> running m" using world_inv_lookup(2) [OF assms] by (simp add: fcm_inv_def)
  show "cluster_nodes c \<inter> registered (cs(i := None)) = {}"
    using world_inv_lookup(4) [OF assms] by (fastforce simp: registered_def ran_def split: if_splits)
qed

text \<open>The nodes of the other clusters run on while one cluster changes.\<close>

lemma change_frame:
  assumes "good_change (m, c) (m', c')"
  shows "running m' - (cluster_nodes c' \<union> R) = running m - (cluster_nodes c \<union> R)"
proof -
  have "running m' - cluster_nodes c' = running m - cluster_nodes c"
    using assms by (simp add: good_change_def own_change_def)
  then show ?thesis by blast
qed

lemma changes_cluster_orphans: "changes_cluster i w w' \<Longrightarrow> orphans w' = orphans w"
proof -
  assume ch: "changes_cluster i w w'"
  obtain m cs where w: "w = (m, cs)" by (cases w)
  show ?thesis
  proof (cases "w' = w")
    case False
    then obtain c m' c' where c: "cs i = Some c" "good_change (m, c) (m', c')" "w' = (m', cs(i \<mapsto> c'))"
      using ch w by (auto simp: changes_cluster_def)
    show ?thesis
      using change_frame [OF c(2)] registered_split [of cs i, OF c(1)] w c(3)
      by (simp add: orphans_def registered_upd)
  qed simp
qed

lemma deleteCluster_orphans:
  assumes "world_inv w" and "request_ok (Delete i mks fks) w"
  shows "orphans (fst (deleteCluster i mks fks w)) = orphans w"
proof -
  obtain m cs where w: "w = (m, cs)" by (cases w)
  show ?thesis
  proof (cases "cs i")
    case None
    then show ?thesis using w by (simp add: deleteCluster_def manager_Delete_def)
  next
    case (Some c)
    then have "deleteCluster i mks fks w = ((m\<lparr>running := running m - cluster_nodes c\<rparr>, cs(i := None)), HttpOK ())"
      using assms(2) w by (auto simp: request_ok_def intro!: deleteCluster_found)
    then show ?thesis using w registered_split [of cs, OF Some] by (auto simp: orphans_def)
  qed
qed

lemma createCluster_orphans:
  assumes "world_inv w"
  shows "orphans (fst (createCluster body e fks mks w)) = orphans w \<union> orphaned (Create body e fks mks) w"
proof (cases body)
  case None
  then show ?thesis by (simp add: createCluster_def orphaned_def)
next
  case (Some req)
  obtain m cs where w: "w = (m, cs)" by (cases w)
  obtain m' c' r where c: "fcm_NewCluster [WithFuddleNodes (req_Nodes req), WithMemberNodes (req_Members req)] e m
      = ((m', c'), r)" by (metis prod_cases3 prod.collapse)
  have mo: "machine_ok m" using assms w by (simp add: world_inv_def)
  obtain i dir where g: "good_change (m, new_cluster i dir) (m', c')"
    using fcm_NewCluster_good [OF mo c] by blast
  have e: "cluster_nodes (new_cluster i dir) = {}" by (simp add: new_cluster_def cluster_nodes_def)
  have f: "running m' - (cluster_nodes c' \<union> R) = running m - R" for R using change_frame [OF g, of R] e by simp
  show ?thesis
  proof (cases "r = LoopDone")
    case True
    then have s: "fst (createCluster body e fks mks w) = (m', cs(cluster_id c' \<mapsto> c'))"
      using Some w c by (simp add: createCluster_def manager_Add_def)
    show ?thesis
    proof (cases "cs (cluster_id c')")
      case None
      then show ?thesis using Some True w c s f
        by (simp add: orphans_def orphaned_def registered_upd registered_none)
    next
      case (Some d)
      then show ?thesis
        using \<open>body = Some req\<close> True w c s f registered_split [of cs, OF Some]
          registered_others [OF assms [unfolded w] Some]
        by (auto simp: orphans_def orphaned_def registered_upd)
    qed
  next
    case False
    then have s: "fst (createCluster body e fks mks w) = (m', cs)"
      using Some w c by (simp add: createCluster_def)
    have "cluster_nodes c' \<inter> registered cs = {}"
      using good_change_frame [OF g world_inv_lookup(2) [OF assms [unfolded w]]] e
      by (fastforce simp: registered_def ran_def)
    moreover have "cluster_nodes c' \<subseteq> running m'" using g by (simp add: good_change_def fcm_inv_def)
    ultimately show ?thesis
      using Some False w c s f [of "registered cs"] by (auto simp: orphans_def orphaned_def)
  qed
qed

lemma serve_orphans:
  assumes "world_inv w" and "request_ok req w"
  shows "orphans (serve req w) = orphans w \<union> orphaned req w"
proof (cases req)
  case (Create body e fks mks)
  then show ?thesis using createCluster_orphans [OF assms(1)] by simp
next
  case (Describe i fks mks)
  then show ?thesis by (simp add: describeCluster_def orphaned_def split: option.splits)
next
  case (Health i fks ps)
  then show ?thesis by (simp add: clusterHealth_def orphaned_def split: option.splits)
next
  case (PromTargets i fks ids)
  then show ?thesis by (simp add: clusterPromTargets_def orphaned_def split: option.splits)
next
  case (Delete i mks fks)
  then show ?thesis using assms deleteCluster_orphans by (simp add: orphaned_def)
next
  case (Add i body nes mes)
  then show ?thesis using changes_cluster_orphans [OF node_handlers_change(1) [OF assms(1)]]
    by (simp add: orphaned_def)
next
  case (Remove i body fkss mkss)
  then show ?thesis using changes_cluster_orphans [OF node_handlers_change(2) [OF assms(1)]]
    by (simp add: orphaned_def)
qed


subsection \<open>Shutdown\<close>

text \<open>Shutdown visits every cluster once, and in it every member and every node once.\<close>

definition visits_all :: "(string \<times> nat list \<times> nat list) list \<Rightarrow> manager \<Rightarrow> bool" where
  "visits_all ord cs \<longleftrightarrow> iter_order (map fst ord) cs \<and>
     (\<forall>(i, mks, fks) \<in> set ord. \<forall>c. cs i = Some c \<longrightarrow>
        iter_order mks (memberNodes c) \<and> iter_order fks (fuddleNodes c))"

lemma manager_Shutdown_fold:
  assumes "\<forall>(i, mks, fks) \<in> set ord. \<forall>c. cs i = Some c \<longrightarrow>
    iter_order mks (memberNodes c) \<and> iter_order fks (fuddleNodes c)"
  shows "manager_Shutdown ord (m, cs) =
    m\<lparr>running := running m - registered (cs |` (fst ` set ord))\<rparr>"
  using assms
proof (induction ord arbitrary: m)
  case Nil
  then show ?case by (simp add: manager_Shutdown_def registered_def)
next
  case (Cons o1 ord)
  obtain i mks fks where o1: "o1 = (i, mks, fks)" by (cases o1)
  let ?N = "\<lambda>is. registered (cs |` is)"
  have split: "?N (fst ` set (o1 # ord)) = ?N {i} \<union> ?N (fst ` set ord)"
    by (simp add: set_eq_iff registered_restrict o1)
  have step: "manager_Shutdown (o1 # ord) (m, cs) = manager_Shutdown ord (m\<lparr>running := running m - ?N {i}\<rparr>, cs)"
  proof (cases "cs i")
    case None
    then have "?N {i} = {}" by (simp add: set_eq_iff registered_restrict)
    then show ?thesis using None o1 by (simp add: manager_Shutdown_def)
  next
    case (Some c)
    then have "iter_order mks (memberNodes c)" "iter_order fks (fuddleNodes c)" "?N {i} = cluster_nodes c"
      using Cons.prems o1 by (auto simp: registered_restrict)
    then show ?thesis using Some o1 by (simp add: manager_Shutdown_def cluster_Shutdown_running)
  qed
  show ?case using Cons step split by (simp add: Diff_Un [symmetric] Diff_eq Int_assoc)
qed

lemma Shutdown_leaves_orphans:
  assumes "visits_all ord (snd w)"
  shows "running (manager_Shutdown ord w) = orphans w"
proof -
  obtain m cs where w: "w = (m, cs)" by (cases w)
  have "fst ` set ord = dom cs"
    using assms w by (auto simp: visits_all_def iter_order_def)
  then have "cs |` (fst ` set ord) = cs" by (auto simp: restrict_map_def fun_eq_iff domIff)
  then show ?thesis
    using manager_Shutdown_fold [of ord cs m] assms w by (simp add: orphans_def visits_all_def)
qed

subsection \<open>Runs of the manager\<close>

fun requests_ok :: "fcm_request list \<Rightarrow> fcm_world \<Rightarrow> bool" where
  "requests_ok [] w = True"
| "requests_ok (req # reqs) w = (request_ok req w \<and> requests_ok reqs (serve req w))"

fun orphaned_run :: "fcm_request list \<Rightarrow> fcm_world \<Rightarrow> nat set" where
  "orphaned_run [] w = {}"
| "orphaned_run (req # reqs) w = orphaned req w \<union> orphaned_run reqs (serve req w)"

lemma run_orphans:
  assumes "world_inv w" and "requests_ok reqs w"
  shows "orphans (fold serve reqs w) = orphans w \<union> orphaned_run reqs w"
  using assms
proof (induction reqs arbitrary: w)
  case (Cons req reqs)
  then show ?case using serve_inv serve_orphans by auto
qed simp

lemma NewFCM_clusters_orphans:
  assumes "NewFCM_clusters b dir e idle_machine = (w, LoopDone)"
  shows "orphans w = {}"
proof (cases b)
  case False
  then show ?thesis using assms by (auto simp: NewFCM_clusters_def orphans_def idle_machine_def)
next
  case True
  have mo: "machine_ok idle_machine" by (simp add: machine_ok_def idle_machine_def)
  obtain m' c' r where c: "fcm_NewCluster [WithFuddleNodes 3, WithMemberNodes 20, WithDefaultCluster,
      WithLogDir dir] e idle_machine = ((m', c'), r)" by (metis prod_cases3 prod.collapse)
  then have w: "w = (m', manager_Add c' Map.empty)"
    using assms True by (cases r) (simp_all add: NewFCM_clusters_def)
  obtain i d where g: "good_change (idle_machine, new_cluster i d) (m', c')"
    using fcm_NewCluster_good [OF mo c] by blast
  have "running m' - cluster_nodes c' = {}"
    using g by (auto simp: good_change_def own_change_def idle_machine_def)
  then show ?thesis using w by (auto simp: orphans_def manager_Add_def registered_upd)
qed

lemma fcm_NewServer_result:
  "fcm_NewServer os addr port opts =
     map_option (\<lambda>l. Inr (fcm_http_server (addr_text os l) (Some l)))
       (case fold apply_fcm_server_option opts None of Some l \<Rightarrow> Some l
        | None \<Rightarrow> listenTCP os (ParseIP os addr) port)"
  by (auto simp: fcm_NewServer_def Addr_def Let_def split: option.split)

lemma NewFCM_up:
  assumes "NewFCM os addr port opts e idle_machine = (w, Fcm_up s)"
  shows "world_inv w" "orphans w = {}"
proof -
  let ?o = "fold apply_fcm_main_option opts fcm_main_defaultOptions"
  have r: "NewFCM_clusters (fmo_defaultCluster ?o) (fmo_clusterLogDir ?o) e idle_machine = (w, LoopDone)"
    using assms by (auto simp: NewFCM_def Let_def split: prod.splits loop_result.splits if_splits)
  show "world_inv w" using NewFCM_inv [of "fmo_defaultCluster ?o" "fmo_clusterLogDir ?o" e] r by simp
  show "orphans w = {}" by (rule NewFCM_clusters_orphans [OF r])
qed

text \<open>
  What a creation is when it leaves nothing: it answers with the new cluster, whose id no other has.
\<close>

fun all_created :: "fcm_request list \<Rightarrow> fcm_world \<Rightarrow> bool" where
  "all_created [] w = True"
| "all_created (req # reqs) w \<longleftrightarrow>
     (case req of
        Create (Some body) e fks mks \<Rightarrow>
          (case snd (createCluster (Some body) e fks mks w) of
             HttpOK info \<Rightarrow> snd w (cr_ID info) = None
           | _ \<Rightarrow> False)
      | _ \<Rightarrow> True) \<and> all_created reqs (serve req w)"

lemma created_orphans:
  assumes "snd (createCluster (Some body) e fks mks w) = HttpOK info" and "snd w (cr_ID info) = None"
  shows "orphaned (Create (Some body) e fks mks) w = {}"
proof -
  obtain m c r where c: "fcm_NewCluster [WithFuddleNodes (req_Nodes body), WithMemberNodes (req_Members body)] e (fst w)
      = ((m, c), r)" by (metis prod_cases3 prod.collapse)
  then have "r = LoopDone" "cr_ID info = cluster_id c"
    using assms(1) by (auto simp: createCluster_def failure_reply_def cluster_info_def split: loop_result.splits if_splits)
  then show ?thesis using c assms(2) by (simp add: orphaned_def)
qed

lemma all_created_orphans: "all_created reqs w \<Longrightarrow> orphaned_run reqs w = {}"
proof (induction reqs arbitrary: w)
  case (Cons req reqs)
  have "orphaned req w = {}"
  proof (cases "\<exists>body e fks mks. req = Create (Some body) e fks mks")
    case True
    then obtain body e fks mks where req: "req = Create (Some body) e fks mks" by blast
    show ?thesis
      using Cons.prems unfolding req by (auto split: reply.splits dest: created_orphans)
  next
    case False
    then show ?thesis by (auto simp: orphaned_def split: fcm_request.splits option.splits)
  qed
  then show ?case using Cons by simp
qed simp

lemma NewFCM_without_cluster:
  assumes "o' = [Fcm_WithDefaultCluster False, Fcm_WithLogger, Fcm_WithClusterLogDir d]"
  shows "NewFCM os addr port o' e m = ((m, Map.empty), case listenTCP os (ParseIP os addr) port of
      None \<Rightarrow> Fcm_panic
    | Some l \<Rightarrow> Fcm_up (fcm_http_server (addr_text os l) (Some l)))"
  using assms by (simp add: NewFCM_def NewFCM_clusters_def fcm_NewServer_result fcm_main_defaultOptions_def Let_def
      split: option.split)

text \<open>
  C29: what a run of the cluster manager leaves behind, its requests being served one at a time (the
  handlers hold no lock; \<open>add_racing_delete\<close> is what may happen otherwise). A manager without a default
  cluster is up, serving its listener, exactly when it can open that listener, and otherwise crashes,
  because it asks the nil listener for its address. From a start that succeeds, with or without a
  default cluster, it serves requests until the signal and exits with status 0; the nodes that were
  not shut down are exactly those of creations that did not answer with a cluster and of clusters whose id
  a later one took. When every creation answers with a cluster that has a new id, none is left.
\<close>
theorem fcm_run_leaves:
  assumes "NewFCM os (ff_addr flags) (ff_port flags) [Fcm_WithDefaultCluster (ff_cluster flags), Fcm_WithLogger,
      Fcm_WithClusterLogDir (ff_clusterLogDir flags)] e idle_machine = (w, Fcm_up s)"
    and "requests_ok reqs w" and "visits_all ord (snd (fold serve reqs w))"
  shows "fcm_run os flags e reqs ord idle_machine =
      Fcm_exited 0 (StringToLevel (ff_logLevel flags)) (orphaned_run reqs w) \<and>
    (all_created reqs w \<longrightarrow> orphaned_run reqs w = {}) \<and>
    (\<exists>ln. listenTCP os (ParseIP os (ff_addr flags)) (ff_port flags) = Some ln \<and> fs_serving s = Some ln) \<and>
    (case listenTCP os' (ParseIP os' (ff_addr flags)) (ff_port flags) of
       None \<Rightarrow> fcm_run os' (flags\<lparr>ff_cluster := False\<rparr>) e reqs ord idle_machine = Fcm_crashed
     | Some ln \<Rightarrow> \<exists>s'. NewFCM os' (ff_addr flags) (ff_port flags) [Fcm_WithDefaultCluster False, Fcm_WithLogger,
           Fcm_WithClusterLogDir (ff_clusterLogDir flags)] e idle_machine = ((idle_machine, Map.empty), Fcm_up s') \<and>
           fs_serving s' = Some ln)"
proof (intro conjI)
  have "running (manager_Shutdown ord (fold serve reqs w)) = orphaned_run reqs w"
    using Shutdown_leaves_orphans [OF assms(3)] run_orphans [OF NewFCM_up(1) [OF assms(1)] assms(2)]
      NewFCM_up(2) [OF assms(1)] by simp
  then show "fcm_run os flags e reqs ord idle_machine =
      Fcm_exited 0 (StringToLevel (ff_logLevel flags)) (orphaned_run reqs w)"
    using assms(1) by (simp add: fcm_run_def FCM_Shutdown_def fcm_server_Shutdown_def Let_def)
  show "all_created reqs w \<longrightarrow> orphaned_run reqs w = {}" using all_created_orphans by blast
  show "\<exists>ln. listenTCP os (ParseIP os (ff_addr flags)) (ff_port flags) = Some ln \<and> fs_serving s = Some ln"
    using assms(1)
    by (auto simp: NewFCM_def fcm_NewServer_result fcm_main_defaultOptions_def Let_def
        fcm_http_server_def split: prod.splits loop_result.splits option.splits sum.splits if_splits)
qed (auto simp: fcm_run_def NewFCM_without_cluster fcm_http_server_def split: option.split)

text \<open>
  Two handlers at once: an addition has looked its cluster up, a deletion then removes the cluster,
  and the addition goes on with the pointer it holds. Every node it starts runs on after a shutdown.
\<close>
lemma add_racing_delete:
  assumes "world_inv w" and "request_ok (Delete i mks fks) w" and "deleteCluster i mks fks w = (w1, reply)"
    and "addNodes i body nes mes (fst w1, snd w) = ((m', cs'), reply')" and "visits_all ord (snd w1)"
  shows "running m' - running (fst w1) \<subseteq> running (manager_Shutdown ord (m', snd w1))"
proof -
  have "world_inv w1" using serve_inv [OF assms(1,2)] assms(3) by simp
  then have "registered (snd w1) \<subseteq> running (fst w1)"
    using registered_others(1) [of "fst w1" "snd w1"] by (auto simp: registered_def ran_def)
  moreover have "running (manager_Shutdown ord (m', snd w1)) = orphans (m', snd w1)"
    using Shutdown_leaves_orphans [of ord "(m', snd w1)"] assms(5) by simp
  ultimately show ?thesis by (auto simp: orphans_def)
qed


text \<open>A creation of two nodes of which the second finds no port.\<close>

definition sample_failing_env :: cluster_env where
  "sample_failing_env = sample_cluster_env\<lparr>node_envs := [sample_node_env, sample_node_env\<lparr>gossipTCPLn := None\<rparr>]\<rparr>"

definition sample_net :: os_net where
  "sample_net = \<lparr>addr_text = (\<lambda>_. ''127.0.0.1:8220''), listenTCP = (\<lambda>_ _. Some (Listener 1)), ParseIP = (\<lambda>_. None)\<rparr>"

lemma sample_failing_create:
  "\<exists>m c. fcm_NewCluster [WithFuddleNodes 2, WithMemberNodes 0] sample_failing_env idle_machine = ((m, c), Failed ListenFailed) \<and>
     cluster_nodes c = {0}"
proof -
  obtain conf where l: "listen_all sample_node_env (new_cluster ''89abcdef'' ''t'') = Inr (conf, ''0.0.0.0:8'')"
    using sample_listen by blast
  have st: "node_starts sample_node_env conf" by (simp add: sample_node_env_def)
  have f: "listen_all (sample_node_env\<lparr>gossipTCPLn := None\<rparr>) c = Inl ListenFailed" for c
    by (simp add: listen_all_def and_then_def listen_addr_def)
  show ?thesis
    using l st f
    by (simp add: fcm_NewCluster_def sample_failing_env_def sample_cluster_env_def idle_machine_def
        fcm_defaultOptions_def add_node_turn_def AddFuddleNode_def new_cluster_def cluster_nodes_def Let_def go_defs)
qed

theorem fcm_run_leaves_witness:
  "fcm_run sample_net fcm_flag_defaults sample_failing_env
     [Create (Some \<lparr>req_Nodes = 2, req_Members = 0\<rparr>) sample_failing_env [] []] [] idle_machine =
   Fcm_exited 0 InfoLevel {0} \<and>
   fcm_run sample_net fcm_flag_defaults sample_failing_env
     [Create (Some \<lparr>req_Nodes = 1, req_Members = 0\<rparr>) sample_cluster_env [0] []] [(''89abcdef'', [], [0])] idle_machine =
   Fcm_exited 0 InfoLevel {}"
proof
  obtain m c where c: "fcm_NewCluster [WithFuddleNodes 2, WithMemberNodes 0] sample_failing_env idle_machine =
      ((m, c), Failed ListenFailed)" "cluster_nodes c = {0}" using sample_failing_create by blast
  obtain s where s: "NewFCM sample_net (ff_addr fcm_flag_defaults) (ff_port fcm_flag_defaults)
      [Fcm_WithDefaultCluster (ff_cluster fcm_flag_defaults), Fcm_WithLogger,
       Fcm_WithClusterLogDir (ff_clusterLogDir fcm_flag_defaults)] sample_failing_env idle_machine =
      ((idle_machine, Map.empty), Fcm_up s)"
    by (simp add: NewFCM_def NewFCM_clusters_def fcm_NewServer_result fcm_main_defaultOptions_def
        fcm_flag_defaults_def sample_net_def)
  have lvl: "StringToLevel (ff_logLevel fcm_flag_defaults) = InfoLevel" by code_simp
  let ?req = "Create (Some \<lparr>req_Nodes = 2, req_Members = 0\<rparr>) sample_failing_env [] []"
  have o: "orphaned_run [?req] (idle_machine, Map.empty) = {0}" by (simp add: orphaned_def c)
  have v: "visits_all [] (snd (fold serve [?req] (idle_machine, Map.empty)))"
    by (simp add: visits_all_def iter_order_def createCluster_def c)
  show "fcm_run sample_net fcm_flag_defaults sample_failing_env [?req] [] idle_machine = Fcm_exited 0 InfoLevel {0}"
    using fcm_run_leaves [OF s _ v] o lvl by (simp add: request_ok_def)
  let ?req = "Create (Some \<lparr>req_Nodes = 1, req_Members = 0\<rparr>) sample_cluster_env [0] []"
  have st: "sample_start = (idle_machine, Map.empty)" by (simp add: sample_start_def NewFCM_clusters_def)
  obtain w' r c where w: "sample_create = (w', HttpOK r)" "cr_ID r = ''89abcdef''"
    "snd w' ''89abcdef'' = Some c" "dom (fuddleNodes c) = {0}" "memberNodes c = Map.empty"
    using sample_create_eq by blast
  note w = w(1) [unfolded st] w(2-)
  have "snd w' = Map.empty(''89abcdef'' \<mapsto> c)"
    using w(1,3) by (auto simp: createCluster_def manager_Add_def split: prod.splits if_splits)
  then have v: "visits_all [(''89abcdef'', [], [0])] (snd (fold serve [?req] (idle_machine, Map.empty)))"
    using w by (simp add: visits_all_def iter_order_def)
  have "all_created [?req] (idle_machine, Map.empty)" using w by simp
  then show "fcm_run sample_net fcm_flag_defaults sample_failing_env [?req] [(''89abcdef'', [], [0])] idle_machine =
      Fcm_exited 0 InfoLevel {}"
    using fcm_run_leaves [OF s _ v] lvl by (simp add: request_ok_def)
qed

end
