(* ===== verification/ClockDemo.thy ===== *)
theory ClockDemo
  imports FcmServer Node
begin

text \<open>
  The clock demo (demos/clock): a cluster of fuddle nodes, clock services and frontends in one
  process, and the gRPC resolver through which a frontend finds the clock services in the registry.
  The fuddle SDK is third-party code: a client is the member it registered and the addresses it was
  given, and what it knows of the registry changes when it says so. The gRPC library is what the
  resolver last gave it. Listeners, dials and the start of nodes are answers of the environment.
\<close>

subsection \<open>The resolver\<close>

record sdk_member =
  sdk_ID :: string
  sdk_Service :: string
  sdk_Started :: int
  sdk_Revision :: string
  sdk_Metadata :: "(string \<rightharpoonup> string) option"

definition resolve_addrs :: "string \<Rightarrow> sdk_member list \<Rightarrow> string list" where
  "resolve_addrs service ms = List.map_filter (\<lambda>m.
     if sdk_Service m = service then
       (case sdk_Metadata m of None \<Rightarrow> None | Some md \<Rightarrow> md ''rpc-addr'')
     else None) ms"

text \<open>The last state given to the client connection, and whether the resolver is subscribed.\<close>

record resolver =
  rs_service :: string
  rs_state :: "string list option"
  rs_subscribed :: bool

definition resolve :: "sdk_member list \<Rightarrow> resolver \<Rightarrow> resolver" where
  "resolve ms r = r\<lparr>rs_state := Some (resolve_addrs (rs_service r) ms)\<rparr>"

definition ResolveNow :: "sdk_member list \<Rightarrow> resolver \<Rightarrow> resolver" where
  "ResolveNow ms r = resolve ms r"

definition resolver_Close :: "resolver \<Rightarrow> resolver" where
  "resolver_Close r = r\<lparr>rs_subscribed := False\<rparr>"

text \<open>Subscribing; \<open>fires\<close> says whether the SDK calls a new subscriber at once.\<close>

definition resolver_start :: "bool \<Rightarrow> sdk_member list \<Rightarrow> resolver \<Rightarrow> resolver" where
  "resolver_start fires ms r = (let r1 = r\<lparr>rs_subscribed := True\<rparr> in if fires then resolve ms r1 else r1)"

definition Build :: "bool \<Rightarrow> string \<Rightarrow> sdk_member list \<Rightarrow> resolver" where
  "Build fires service ms =
     resolver_start fires ms \<lparr>rs_service = service, rs_state = None, rs_subscribed = False\<rparr>"

text \<open>What happens to a resolver: the SDK reports new members, gRPC asks it to resolve or closes it.\<close>

datatype resolver_event = Members_changed "sdk_member list" | Resolve_now | Close_resolver

fun resolver_step :: "resolver_event \<Rightarrow> sdk_member list \<times> resolver \<Rightarrow> sdk_member list \<times> resolver" where
  "resolver_step (Members_changed ms') (ms, r) = (ms', if rs_subscribed r then resolve ms' r else r)"
| "resolver_step Resolve_now (ms, r) = (ms, ResolveNow ms r)"
| "resolver_step Close_resolver (ms, r) = (ms, resolver_Close r)"

subsection \<open>The services\<close>

record sdk_client =
  cl_member :: sdk_member
  cl_addrs :: "string list"
  cl_open :: bool

definition sdk_Close :: "sdk_client \<Rightarrow> sdk_client" where
  "sdk_Close cl = cl\<lparr>cl_open := False\<rparr>"

record clock_service =
  clock_ID :: string
  clock_Addr :: string
  clock_client :: sdk_client

record frontend_service =
  fe_ID :: string
  fe_Addr :: string
  fe_client :: sdk_client
  fe_resolver :: resolver

definition service_member :: "string \<Rightarrow> string \<Rightarrow> string \<Rightarrow> int \<Rightarrow> sdk_member" where
  "service_member i service addr started = \<lparr>sdk_ID = i, sdk_Service = service, sdk_Started = started,
     sdk_Revision = ''v0.1.0'', sdk_Metadata = Some [''rpc-addr'' \<mapsto> addr]\<rparr>"

text \<open>
  The environment of a service: the time, whether Connect succeeds, the members the client knows at
  first, whether it reports them at once, and whether the connection of the frontend is set up.
\<close>

record service_env =
  se_now :: int
  se_connects :: "sdk_member \<Rightarrow> string list \<Rightarrow> bool"
  se_members :: "sdk_member list"
  se_fires :: bool
  se_dials :: bool

definition Connect :: "service_env \<Rightarrow> sdk_member \<Rightarrow> string list \<Rightarrow> sdk_client option" where
  "Connect e m addrs = (if se_connects e m addrs then Some \<lparr>cl_member = m, cl_addrs = addrs, cl_open = True\<rparr> else None)"

definition clock_NewService :: "service_env \<Rightarrow> string \<Rightarrow> string \<Rightarrow> string list \<Rightarrow> clock_service option" where
  "clock_NewService e i addr fuddleAddrs =
     (case Connect e (service_member i ''clock'' addr (se_now e)) fuddleAddrs of
        None \<Rightarrow> None
      | Some cl \<Rightarrow> Some \<lparr>clock_ID = i, clock_Addr = addr, clock_client = cl\<rparr>)"

definition clock_NewClient :: "service_env \<Rightarrow> resolver option" where
  "clock_NewClient e = (if se_dials e then Some (Build (se_fires e) ''clock'' (se_members e)) else None)"

definition frontend_NewService :: "service_env \<Rightarrow> string \<Rightarrow> string \<Rightarrow> string list \<Rightarrow> frontend_service option" where
  "frontend_NewService e i addr fuddleAddrs =
     (case Connect e (service_member i ''frontend'' addr (se_now e)) fuddleAddrs of
        None \<Rightarrow> None
      | Some cl \<Rightarrow>
          (case clock_NewClient e of
             None \<Rightarrow> None
           | Some cc \<Rightarrow> Some \<lparr>fe_ID = i, fe_Addr = addr, fe_client = cl, fe_resolver = cc\<rparr>))"

definition clock_Shutdown :: "clock_service \<Rightarrow> clock_service" where
  "clock_Shutdown s = s\<lparr>clock_client := sdk_Close (clock_client s)\<rparr>"

definition frontend_Shutdown :: "frontend_service \<Rightarrow> frontend_service" where
  "frontend_Shutdown s = s\<lparr>fe_resolver := resolver_Close (fe_resolver s), fe_client := sdk_Close (fe_client s)\<rparr>"

text \<open>A request for the time: the clock server answers with its clock, the frontend prints it.\<close>

definition clock_Time :: "int \<Rightarrow> int" where
  "clock_Time now = now"

definition client_Time :: "int option \<Rightarrow> int option" where
  "client_Time resp = (case resp of None \<Rightarrow> None | Some t \<Rightarrow> Some t)"

definition timeRoute :: "int option \<Rightarrow> int \<times> string" where
  "timeRoute resp =
     (case client_Time resp of
        None \<Rightarrow> (500, ''internal server error'' @ [CHR 0x0A])
      | Some ts \<Rightarrow> (200, int_to_string ts))"

subsection \<open>The cluster\<close>

record demo_cluster =
  dc_fuddle :: "nat \<rightharpoonup> node"
  dc_clock :: "nat \<rightharpoonup> clock_service"
  dc_frontend :: "nat \<rightharpoonup> frontend_service"
  dc_seeds :: "string list"
  dc_logDir :: string

datatype demo_error = Demo_listen | Demo_addr | Demo_node node_error | Demo_service | Demo_log

definition demo_LogPath :: "demo_cluster \<Rightarrow> string \<Rightarrow> string" where
  "demo_LogPath c i = dc_logDir c @ ''/'' @ i @ ''.log''"

definition demo_FuddleNodes :: "nat list \<Rightarrow> demo_cluster \<Rightarrow> node list" where
  "demo_FuddleNodes ks c = List.map_filter (dc_fuddle c) ks"

definition demo_ClockNodes :: "nat list \<Rightarrow> demo_cluster \<Rightarrow> clock_service list" where
  "demo_ClockNodes ks c = List.map_filter (dc_clock c) ks"

definition demo_FrontendNodes :: "nat list \<Rightarrow> demo_cluster \<Rightarrow> frontend_service list" where
  "demo_FrontendNodes ks c = List.map_filter (dc_frontend c) ks"

text \<open>
  What the environment answers while a fuddle node is added: each listener or its failure, the
  texts of their addresses, the uuid of the node and the world it starts in.
\<close>

record demo_node_env =
  dn_gossipTCP :: "listener option"
  dn_gossipUDP :: "int \<Rightarrow> listener option"
  dn_rpc :: "listener option"
  dn_admin :: "listener option"
  dn_uuid :: string
  dn_live :: "liveness \<Rightarrow> string"
  dn_now :: int
  dn_clock :: int
  dn_world :: node_world

definition demo_listen :: "listener option \<Rightarrow> demo_error + listener" where
  "demo_listen ln = (case ln of None \<Rightarrow> Inl Demo_listen | Some l \<Rightarrow> Inr l)"

definition demo_port :: "demo_node_env \<Rightarrow> listener \<Rightarrow> demo_error + int" where
  "demo_port e l = (case parseAddrPort (addr_text (net (dn_world e)) l) of None \<Rightarrow> Inl Demo_addr | Some p \<Rightarrow> Inr p)"

definition demo_node_config :: "string \<Rightarrow> int \<Rightarrow> int \<Rightarrow> int \<Rightarrow> string list \<Rightarrow> config" where
  "demo_node_config uuid rpcPort adminPort gossipPort seeds =
     (let conf = DefaultConfig uuid
      in conf\<lparr>RPC := (RPC conf)\<lparr>rpc_BindAddr := ''127.0.0.1'', rpc_AdvAddr := ''127.0.0.1'',
                 rpc_BindPort := rpcPort, rpc_AdvPort := rpcPort\<rparr>,
              Admin := (Admin conf)\<lparr>admin_BindAddr := ''127.0.0.1'', admin_BindPort := adminPort,
                 admin_AdvAddr := ''127.0.0.1'', admin_AdvPort := adminPort\<rparr>,
              Gossip := (Gossip conf)\<lparr>gossip_BindAddr := ''127.0.0.1'', gossip_AdvAddr := ''127.0.0.1'',
                 gossip_BindPort := gossipPort, gossip_AdvPort := gossipPort, gossip_Seeds := seeds\<rparr>\<rparr>)"

text \<open>The process and the cluster, as in the cluster manager.\<close>

type_synonym demo_state = "machine \<times> demo_cluster"

definition addFuddleNode :: "demo_node_env \<Rightarrow> demo_state \<Rightarrow> demo_state \<times> demo_error option" where
  "addFuddleNode e s =
     (case s of (m, c) \<Rightarrow>
       (case and_then (demo_listen (dn_gossipTCP e)) (\<lambda>gossipTCPLn.
             and_then (demo_port e gossipTCPLn) (\<lambda>gossipPort.
             and_then (demo_listen (dn_gossipUDP e gossipPort)) (\<lambda>gossipUDPLn.
             and_then (demo_listen (dn_rpc e)) (\<lambda>rpcLn.
             and_then (demo_port e rpcLn) (\<lambda>rpcPort.
             and_then (demo_listen (dn_admin e)) (\<lambda>adminLn.
             and_then (demo_port e adminLn) (\<lambda>adminPort.
             let conf = demo_node_config (dn_uuid e) rpcPort adminPort gossipPort (dc_seeds c)
             in case NewNode (dn_live e) (dn_now e) (dn_clock e) (dn_world e)
                  [Node_WithRPCListener (Some rpcLn), Node_WithAdminListener (Some adminLn),
                   Node_WithGossipTCPListener (Some gossipTCPLn), Node_WithGossipUDPListener (Some gossipUDPLn),
                   Node_WithLogPath (demo_LogPath c (NodeID conf))] conf of
                  Inl (err, _) \<Rightarrow> Inl (Demo_node err)
                | Inr node \<Rightarrow> Inr (node, gossipPort)))))))) of
          Inl err \<Rightarrow> ((m, c), Some err)
        | Inr (node, gossipPort) \<Rightarrow>
            let h = next_ptr m
            in ((m\<lparr>next_ptr := Suc h, running := insert h (running m)\<rparr>,
                 c\<lparr>dc_fuddle := (dc_fuddle c)(h \<mapsto> node),
                   dc_seeds := dc_seeds c @ [host_port ''127.0.0.1'' gossipPort]\<rparr>), None)))"

text \<open>
  What the environment answers while a service is added: the order in which the nodes are visited,
  the address of its listener, its uuid, whether its log opens (zap.Must panics when it does not),
  and the environment of the service.
\<close>

record demo_service_env =
  ds_order :: "nat list"
  ds_listen :: "string option"
  ds_uuid :: string
  ds_log_opens :: "string \<Rightarrow> bool"
  ds_env :: service_env

definition fuddle_addrs :: "nat list \<Rightarrow> demo_cluster \<Rightarrow> string list" where
  "fuddle_addrs ks c = map (\<lambda>n. rpc_JoinAdvAddr (RPC (nodeConfig n))) (demo_FuddleNodes ks c)"

definition addClockNode :: "demo_service_env \<Rightarrow> demo_state \<Rightarrow> demo_state \<times> demo_error option" where
  "addClockNode e s =
     (case s of (m, c) \<Rightarrow>
       let fuddleAddrs = fuddle_addrs (ds_order e) c
       in case ds_listen e of
            None \<Rightarrow> ((m, c), Some Demo_listen)
          | Some addr \<Rightarrow>
              let i = ''clock-'' @ take 8 (ds_uuid e)
              in if \<not> ds_log_opens e (demo_LogPath c i) then ((m, c), Some Demo_log)
                 else (case clock_NewService (ds_env e) i addr fuddleAddrs of
                     None \<Rightarrow> ((m, c), Some Demo_service)
                   | Some node \<Rightarrow>
                       let h = next_ptr m
                       in ((m\<lparr>next_ptr := Suc h, running := insert h (running m)\<rparr>,
                            c\<lparr>dc_clock := (dc_clock c)(h \<mapsto> node)\<rparr>), None)))"

definition addFrontendNode :: "demo_service_env \<Rightarrow> demo_state \<Rightarrow> demo_state \<times> demo_error option" where
  "addFrontendNode e s =
     (case s of (m, c) \<Rightarrow>
       let fuddleAddrs = fuddle_addrs (ds_order e) c
       in case ds_listen e of
            None \<Rightarrow> ((m, c), Some Demo_listen)
          | Some addr \<Rightarrow>
              let i = ''frontend-'' @ take 8 (ds_uuid e)
              in if \<not> ds_log_opens e (demo_LogPath c i) then ((m, c), Some Demo_log)
                 else (case frontend_NewService (ds_env e) i addr fuddleAddrs of
                     None \<Rightarrow> ((m, c), Some Demo_service)
                   | Some node \<Rightarrow>
                       let h = next_ptr m
                       in ((m\<lparr>next_ptr := Suc h, running := insert h (running m)\<rparr>,
                            c\<lparr>dc_frontend := (dc_frontend c)(h \<mapsto> node)\<rparr>), None)))"

record demo_options =
  do_fuddleNodes :: int
  do_clockNodes :: int
  do_frontendNodes :: int

definition demo_defaultOptions :: demo_options where
  "demo_defaultOptions = \<lparr>do_fuddleNodes = 3, do_clockNodes = 3, do_frontendNodes = 3\<rparr>"

datatype demo_option = Demo_WithFuddleNodes int | Demo_WithClockNodes int | Demo_WithFrontendNodes int

fun apply_demo_option :: "demo_option \<Rightarrow> demo_options \<Rightarrow> demo_options" where
  "apply_demo_option (Demo_WithFuddleNodes n) o' = o'\<lparr>do_fuddleNodes := n\<rparr>"
| "apply_demo_option (Demo_WithClockNodes n) o' = o'\<lparr>do_clockNodes := n\<rparr>"
| "apply_demo_option (Demo_WithFrontendNodes n) o' = o'\<lparr>do_frontendNodes := n\<rparr>"

text \<open>MkdirTemp may fail; then there is no cluster.\<close>

record demo_env =
  de_tmpdir :: "string option"
  de_fuddle :: "demo_node_env list"
  de_clock :: "demo_service_env list"
  de_frontend :: "demo_service_env list"

definition demo_NewCluster ::
  "demo_option list \<Rightarrow> demo_env \<Rightarrow> machine \<Rightarrow> (demo_state \<times> demo_error loop_result) option"
where
  "demo_NewCluster opts e m =
     (let o' = fold apply_demo_option opts demo_defaultOptions
      in case de_tmpdir e of
           None \<Rightarrow> None
         | Some dir \<Rightarrow>
             let c = \<lparr>dc_fuddle = Map.empty, dc_clock = Map.empty, dc_frontend = Map.empty,
                   dc_seeds = [], dc_logDir = dir\<rparr>
             in Some (case count_loop (do_fuddleNodes o') addFuddleNode 0 (de_fuddle e) (m, c) of
                  (s1, LoopDone) \<Rightarrow>
                    (case count_loop (do_clockNodes o') addClockNode 0 (de_clock e) s1 of
                       (s2, LoopDone) \<Rightarrow> count_loop (do_frontendNodes o') addFrontendNode 0 (de_frontend e) s2
                     | (s2, r) \<Rightarrow> (s2, r))
                | (s1, r) \<Rightarrow> (s1, r)))"

text \<open>Shutdown visits the fuddle nodes, the clock nodes and the frontends, in some order each.\<close>

definition demo_Shutdown :: "nat list \<Rightarrow> nat list \<Rightarrow> nat list \<Rightarrow> machine \<Rightarrow> machine" where
  "demo_Shutdown fks cks feks m = m\<lparr>running := running m - set fks - set cks - set feks\<rparr>"

subsection \<open>The resolver keeps up\<close>

lemma resolve_addrs_set:
  "a \<in> set (resolve_addrs service ms) \<longleftrightarrow>
     (\<exists>m \<in> set ms. sdk_Service m = service \<and> (\<exists>md. sdk_Metadata m = Some md \<and> md ''rpc-addr'' = Some a))"
  by (force simp: resolve_addrs_def set_map_filter split: option.splits if_splits)

lemma resolver_run_current:
  assumes "Close_resolver \<notin> set evs" and "rs_subscribed r" and "rs_state r = Some (resolve_addrs (rs_service r) ms) \<or> evs \<noteq> []"
  shows "\<exists>ms' r'. fold resolver_step evs (ms, r) = (ms', r') \<and> rs_subscribed r' \<and> rs_service r' = rs_service r \<and>
    rs_state r' = Some (resolve_addrs (rs_service r) ms')"
  using assms
proof (induction evs arbitrary: ms r)
  case Nil
  then show ?case by simp
next
  case (Cons ev evs)
  obtain ms1 r1 where s: "resolver_step ev (ms, r) = (ms1, r1)" by fastforce
  have "rs_subscribed r1 \<and> rs_service r1 = rs_service r \<and> rs_state r1 = Some (resolve_addrs (rs_service r) ms1)"
    using s Cons.prems by (cases ev) (auto simp: ResolveNow_def resolve_def)
  then show ?case using Cons.IH [of r1 ms1] Cons.prems(1) s by simp
qed

lemma resolver_run_closed:
  "\<not> rs_subscribed r \<Longrightarrow> Resolve_now \<notin> set evs \<Longrightarrow> snd (fold resolver_step evs (ms, r)) = r"
proof (induction evs arbitrary: ms)
  case Nil
  then show ?case by simp
next
  case (Cons ev evs)
  obtain ms' where s: "resolver_step ev (ms, r) = (ms', r)"
    using Cons.prems by (cases ev; cases r) (auto simp: resolver_Close_def)
  then show ?case using Cons.IH [of ms'] Cons.prems by simp
qed

text \<open>
  The resolver of the demo. From the first time the SDK reports members or gRPC asks it to
  resolve, and until it is closed, the addresses last given to the connection are those of the
  members the SDK knows: an address is among them exactly when some member of the service carries
  it as rpc-addr, and none is when no member does. Nothing is known before that if the SDK does
  not report to a new subscriber at once, and reports after closing change nothing.
\<close>
theorem resolver_tracks:
  assumes "Close_resolver \<notin> set evs" and "fold resolver_step evs (ms, Build fires service ms) = (ms', r)"
  shows "(fires \<or> evs \<noteq> [] \<longrightarrow> (\<exists>addrs. rs_state r = Some addrs \<and> (\<forall>a. a \<in> set addrs \<longleftrightarrow>
      (\<exists>m \<in> set ms'. sdk_Service m = service \<and> (\<exists>md. sdk_Metadata m = Some md \<and> md ''rpc-addr'' = Some a))))) \<and>
    (\<not> fires \<and> evs = [] \<longrightarrow> rs_state r = None) \<and>
    (\<forall>later. Resolve_now \<notin> set later \<longrightarrow>
       rs_state (snd (fold resolver_step later (ms', resolver_Close r))) = rs_state r)"
proof -
  let ?b = "Build fires service ms"
  have b: "rs_subscribed ?b" "rs_service ?b = service"
    "fires \<Longrightarrow> rs_state ?b = Some (resolve_addrs service ms)" "\<not> fires \<Longrightarrow> rs_state ?b = None"
    by (simp_all add: Build_def resolver_start_def resolve_def Let_def)
  have "rs_state r = Some (resolve_addrs service ms')" if "fires \<or> evs \<noteq> []"
    using resolver_run_current [OF assms(1) b(1), of ms] assms(2) b(2,3) that by auto
  moreover have "snd (fold resolver_step later (ms', resolver_Close r)) = resolver_Close r"
    if "Resolve_now \<notin> set later" for later
    by (rule resolver_run_closed) (use that in \<open>simp_all add: resolver_Close_def\<close>)
  ultimately show ?thesis
    using assms(2) b(4) by (auto simp: resolve_addrs_set resolver_Close_def)
qed

theorem resolver_tracks_witness:
  "\<exists>r. fold resolver_step [Members_changed [service_member ''c'' ''clock'' ''h:1'' 0, service_member ''f'' ''frontend'' ''h:2'' 0]]
      ([], Build False ''clock'' []) =
        ([service_member ''c'' ''clock'' ''h:1'' 0, service_member ''f'' ''frontend'' ''h:2'' 0], r) \<and>
     (\<exists>addrs. rs_state r = Some addrs \<and> set addrs = {''h:1''})"
proof -
  let ?ms = "[service_member ''c'' ''clock'' ''h:1'' 0, service_member ''f'' ''frontend'' ''h:2'' 0]"
  obtain r where r: "fold resolver_step [Members_changed ?ms] ([], Build False ''clock'' []) = (?ms, r)"
    by (simp only: fold_simps resolver_step.simps id_apply prod.inject)
  have "Close_resolver \<notin> set [Members_changed ?ms]" by simp
  from resolver_tracks [OF this r]
  obtain addrs where a: "rs_state r = Some addrs" "\<forall>a. a \<in> set addrs \<longleftrightarrow> (\<exists>m \<in> set ?ms. sdk_Service m = ''clock'' \<and>
      (\<exists>md. sdk_Metadata m = Some md \<and> md ''rpc-addr'' = Some a))" by auto
  have "a \<in> set addrs \<longleftrightarrow> a = ''h:1''" for a
    using spec [OF a(2), of a] by (simp add: service_member_def) blast
  then have "set addrs = {''h:1''}" by blast
  then show ?thesis using r a(1) by blast
qed

subsection \<open>How the cluster is wired\<close>

lemma addFuddleNode_added:
  assumes "addFuddleNode e (m, c) = (s', None)"
  shows "\<exists>node port. s' = (m\<lparr>next_ptr := Suc (next_ptr m), running := insert (next_ptr m) (running m)\<rparr>,
      c\<lparr>dc_fuddle := (dc_fuddle c)(next_ptr m \<mapsto> node), dc_seeds := dc_seeds c @ [host_port ''127.0.0.1'' port]\<rparr>) \<and>
    gossip_Seeds (Gossip (nodeConfig node)) = dc_seeds c \<and>
    gossip_AdvAddr (Gossip (nodeConfig node)) = ''127.0.0.1'' \<and> gossip_AdvPort (Gossip (nodeConfig node)) = port"
proof -
  obtain rpcPort adminPort gossipPort node opts where n:
    "NewNode (dn_live e) (dn_now e) (dn_clock e) (dn_world e) opts
       (demo_node_config (dn_uuid e) rpcPort adminPort gossipPort (dc_seeds c)) = Inr node"
    "s' = (m\<lparr>next_ptr := Suc (next_ptr m), running := insert (next_ptr m) (running m)\<rparr>,
       c\<lparr>dc_fuddle := (dc_fuddle c)(next_ptr m \<mapsto> node), dc_seeds := dc_seeds c @ [host_port ''127.0.0.1'' gossipPort]\<rparr>)"
    using assms by (auto simp: addFuddleNode_def and_then_def demo_listen_def Let_def split: option.splits sum.splits prod.splits)
  then have "nodeConfig node = demo_node_config (dn_uuid e) rpcPort adminPort gossipPort (dc_seeds c)"
    using NewNode_parts by blast
  then show ?thesis
    using n(2) by (intro exI [of _ node] exI [of _ gossipPort]) (simp add: demo_node_config_def Let_def)
qed

definition fuddle_wired :: "nat \<Rightarrow> demo_state \<Rightarrow> bool" where
  "fuddle_wired b s \<longleftrightarrow> (case s of (m, c) \<Rightarrow>
     next_ptr m = b + length (dc_seeds c) \<and> dom (dc_fuddle c) = {b..<b + length (dc_seeds c)} \<and>
     (\<forall>i < length (dc_seeds c). \<exists>n. dc_fuddle c (b + i) = Some n \<and>
        gossip_Seeds (Gossip (nodeConfig n)) = take i (dc_seeds c) \<and>
        dc_seeds c ! i = host_port (gossip_AdvAddr (Gossip (nodeConfig n))) (gossip_AdvPort (Gossip (nodeConfig n)))) \<and>
     dc_clock c = Map.empty \<and> dc_frontend c = Map.empty)"

lemma addFuddleNode_wired:
  assumes "addFuddleNode e s = (s', None)" and "fuddle_wired b s"
  shows "fuddle_wired b s' \<and> length (dc_seeds (snd s')) = Suc (length (dc_seeds (snd s)))"
proof -
  obtain m c where s: "s = (m, c)" by (cases s)
  obtain node port where a: "s' = (m\<lparr>next_ptr := Suc (next_ptr m), running := insert (next_ptr m) (running m)\<rparr>,
      c\<lparr>dc_fuddle := (dc_fuddle c)(next_ptr m \<mapsto> node), dc_seeds := dc_seeds c @ [host_port ''127.0.0.1'' port]\<rparr>)"
    "gossip_Seeds (Gossip (nodeConfig node)) = dc_seeds c"
    "gossip_AdvAddr (Gossip (nodeConfig node)) = ''127.0.0.1''" "gossip_AdvPort (Gossip (nodeConfig node)) = port"
    using addFuddleNode_added assms(1) s by blast
  let ?k = "length (dc_seeds c)"
  have w: "next_ptr m = b + ?k" "dom (dc_fuddle c) = {b..<b + ?k}" "dc_clock c = Map.empty" "dc_frontend c = Map.empty"
    and i: "\<And>i. i < ?k \<Longrightarrow> \<exists>n. dc_fuddle c (b + i) = Some n \<and>
        gossip_Seeds (Gossip (nodeConfig n)) = take i (dc_seeds c) \<and>
        dc_seeds c ! i = host_port (gossip_AdvAddr (Gossip (nodeConfig n))) (gossip_AdvPort (Gossip (nodeConfig n)))"
    using assms(2) s by (auto simp: fuddle_wired_def)
  have "insert (b + ?k) {b..<b + ?k} = {b..<Suc (b + ?k)}" by auto
  moreover have "\<exists>n. ((dc_fuddle c)(b + ?k \<mapsto> node)) (b + j) = Some n \<and>
      gossip_Seeds (Gossip (nodeConfig n)) = take j (dc_seeds c @ [host_port ''127.0.0.1'' port]) \<and>
      (dc_seeds c @ [host_port ''127.0.0.1'' port]) ! j =
        host_port (gossip_AdvAddr (Gossip (nodeConfig n))) (gossip_AdvPort (Gossip (nodeConfig n)))"
    if "j < Suc ?k" for j
  proof (cases "j < ?k")
    case True
    then show ?thesis using i [OF True] by (simp add: nth_append)
  next
    case False
    then have "j = ?k" using that by simp
    then show ?thesis using a(2-4) by simp
  qed
  ultimately show ?thesis using w by (simp add: s a(1) fuddle_wired_def)
qed

text \<open>A service registers itself with its address, through a client that knows every fuddle node.\<close>

definition wired_client :: "(nat \<rightharpoonup> node) \<Rightarrow> string \<Rightarrow> string \<Rightarrow> string \<Rightarrow> sdk_client \<Rightarrow> bool" where
  "wired_client F service i addr cl \<longleftrightarrow> (\<exists>t. cl_member cl = service_member i service addr t) \<and>
     set (cl_addrs cl) = (\<lambda>n. rpc_JoinAdvAddr (RPC (nodeConfig n))) ` ran F"

definition services_wired :: "(nat \<rightharpoonup> node) \<Rightarrow> string list \<Rightarrow> demo_state \<Rightarrow> bool" where
  "services_wired F seeds s \<longleftrightarrow> (case s of (m, c) \<Rightarrow> dc_fuddle c = F \<and> dc_seeds c = seeds \<and>
     dom (dc_clock c) \<subseteq> {..<next_ptr m} \<and> dom (dc_frontend c) \<subseteq> {..<next_ptr m} \<and>
     (\<forall>h s. dc_clock c h = Some s \<longrightarrow> wired_client F ''clock'' (clock_ID s) (clock_Addr s) (clock_client s)) \<and>
     (\<forall>h s. dc_frontend c h = Some s \<longrightarrow> wired_client F ''frontend'' (fe_ID s) (fe_Addr s) (fe_client s)))"

lemma set_fuddle_addrs:
  assumes "iter_order ks (dc_fuddle c)"
  shows "set (fuddle_addrs ks c) = (\<lambda>n. rpc_JoinAdvAddr (RPC (nodeConfig n))) ` ran (dc_fuddle c)"
proof -
  have "set (demo_FuddleNodes ks c) = ran (dc_fuddle c)"
    using iter_order_mem [OF assms] by (auto simp: demo_FuddleNodes_def set_map_filter ran_def)
  then show ?thesis by (simp add: fuddle_addrs_def)
qed

lemma card_dom_upd: "finite (dom f) \<Longrightarrow> h \<notin> dom f \<Longrightarrow> card (dom (f(h \<mapsto> v))) = Suc (card (dom f))"
  by simp

lemma services_wired_fresh:
  assumes "services_wired F seeds (m, c)"
  shows "finite (dom (dc_clock c))" "next_ptr m \<notin> dom (dc_clock c)"
    "finite (dom (dc_frontend c))" "next_ptr m \<notin> dom (dc_frontend c)"
proof -
  have d: "dom (dc_clock c) \<subseteq> {..<next_ptr m}" "dom (dc_frontend c) \<subseteq> {..<next_ptr m}"
    using assms by (simp_all add: services_wired_def)
  then show "finite (dom (dc_clock c))" "finite (dom (dc_frontend c))"
    using finite_subset [OF _ finite_lessThan] by blast+
  show "next_ptr m \<notin> dom (dc_clock c)" "next_ptr m \<notin> dom (dc_frontend c)" using d by fast+
qed

lemma addClockNode_wired:
  assumes "addClockNode e s = (s', None)" and "services_wired F seeds s" and "iter_order (ds_order e) F"
  shows "services_wired F seeds s' \<and> card (dom (dc_clock (snd s'))) = Suc (card (dom (dc_clock (snd s)))) \<and>
    dc_frontend (snd s') = dc_frontend (snd s)"
proof -
  obtain m c where s: "s = (m, c)" by (cases s)
  have F: "dc_fuddle c = F" using assms(2) s by (simp add: services_wired_def)
  obtain i addr t cl where a: "s' = (m\<lparr>next_ptr := Suc (next_ptr m), running := insert (next_ptr m) (running m)\<rparr>,
      c\<lparr>dc_clock := (dc_clock c)(next_ptr m \<mapsto> \<lparr>clock_ID = i, clock_Addr = addr, clock_client = cl\<rparr>)\<rparr>)"
    "cl = \<lparr>cl_member = service_member i ''clock'' addr t, cl_addrs = fuddle_addrs (ds_order e) c, cl_open = True\<rparr>"
    using assms(1) s by (auto simp: addClockNode_def clock_NewService_def Connect_def Let_def
        split: option.splits if_splits)
  have w: "wired_client F ''clock'' i addr cl"
    using set_fuddle_addrs [of "ds_order e" c] assms(3) F a(2) by (auto simp: wired_client_def)
  note f = services_wired_fresh [OF assms(2) [unfolded s]]
  have "dom (dc_clock c) \<subseteq> {..<Suc (next_ptr m)}" "dom (dc_frontend c) \<subseteq> {..<Suc (next_ptr m)}"
    using assms(2) s by (auto simp: services_wired_def)
  then show ?thesis
    using assms(2) w card_dom_upd [OF f(1,2)] by (auto simp: services_wired_def s a(1))
qed

lemma addFrontendNode_wired:
  assumes "addFrontendNode e s = (s', None)" and "services_wired F seeds s" and "iter_order (ds_order e) F"
  shows "services_wired F seeds s' \<and> card (dom (dc_frontend (snd s'))) = Suc (card (dom (dc_frontend (snd s)))) \<and>
    dc_clock (snd s') = dc_clock (snd s)"
proof -
  obtain m c where s: "s = (m, c)" by (cases s)
  have F: "dc_fuddle c = F" using assms(2) s by (simp add: services_wired_def)
  obtain i addr t cl cc where a: "s' = (m\<lparr>next_ptr := Suc (next_ptr m), running := insert (next_ptr m) (running m)\<rparr>,
      c\<lparr>dc_frontend := (dc_frontend c)(next_ptr m \<mapsto> \<lparr>fe_ID = i, fe_Addr = addr, fe_client = cl, fe_resolver = cc\<rparr>)\<rparr>)"
    "cl = \<lparr>cl_member = service_member i ''frontend'' addr t, cl_addrs = fuddle_addrs (ds_order e) c, cl_open = True\<rparr>"
    using assms(1) s by (auto simp: addFrontendNode_def frontend_NewService_def Connect_def Let_def
        split: option.splits if_splits)
  have w: "wired_client F ''frontend'' i addr cl"
    using set_fuddle_addrs [of "ds_order e" c] assms(3) F a(2) by (auto simp: wired_client_def)
  note f = services_wired_fresh [OF assms(2) [unfolded s]]
  have "dom (dc_clock c) \<subseteq> {..<Suc (next_ptr m)}" "dom (dc_frontend c) \<subseteq> {..<Suc (next_ptr m)}"
    using assms(2) s by (auto simp: services_wired_def)
  then show ?thesis
    using assms(2) w card_dom_upd [OF f(3,4)] by (auto simp: services_wired_def s a(1))
qed

lemma demo_NewCluster_wired:
  assumes "demo_NewCluster opts e m = Some ((m', c), LoopDone)" and "o' = fold apply_demo_option opts demo_defaultOptions"
    and "0 \<le> do_fuddleNodes o'" "in_int64 (do_fuddleNodes o')" "0 \<le> do_clockNodes o'" "in_int64 (do_clockNodes o')"
      "0 \<le> do_frontendNodes o'" "in_int64 (do_frontendNodes o')"
    and "\<And>d. d \<in> set (de_clock e @ de_frontend e) \<Longrightarrow> distinct (ds_order d) \<and>
      set (ds_order d) = {next_ptr m..<next_ptr m + nat (do_fuddleNodes o')}"
  shows "\<exists>m1 c1. fuddle_wired (next_ptr m) (m1, c1) \<and> length (dc_seeds c1) = nat (do_fuddleNodes o') \<and>
    services_wired (dc_fuddle c1) (dc_seeds c1) (m', c) \<and>
    card (dom (dc_clock c)) = nat (do_clockNodes o') \<and> card (dom (dc_frontend c)) = nat (do_frontendNodes o')"
proof -
  obtain dir where dir: "de_tmpdir e = Some dir"
    using assms(1) by (auto simp: demo_NewCluster_def Let_def split: option.splits)
  let ?c = "\<lparr>dc_fuddle = Map.empty, dc_clock = Map.empty, dc_frontend = Map.empty, dc_seeds = [], dc_logDir = dir\<rparr>"
  obtain m1 c1 m2 c2 where
    l1: "count_loop (do_fuddleNodes o') addFuddleNode 0 (de_fuddle e) (m, ?c) = ((m1, c1), LoopDone)" and
    l2: "count_loop (do_clockNodes o') addClockNode 0 (de_clock e) (m1, c1) = ((m2, c2), LoopDone)" and
    l3: "count_loop (do_frontendNodes o') addFrontendNode 0 (de_frontend e) (m2, c2) = ((m', c), LoopDone)"
    using assms(1) dir unfolding demo_NewCluster_def assms(2) [symmetric]
    by (auto simp: Let_def split: prod.splits loop_result.splits)
  have z: "in_int64 0" by (simp add: in_int64_def)
  have "fuddle_wired (next_ptr m) (m, ?c)" by (simp add: fuddle_wired_def)
  then have w1: "fuddle_wired (next_ptr m) (m1, c1)" "length (dc_seeds c1) = nat (do_fuddleNodes o')"
    using count_loop_counts [where P = "fuddle_wired (next_ptr m)" and f = "\<lambda>s. length (dc_seeds (snd s))",
        OF assms(4) addFuddleNode_wired z _ l1] turns_left_start [OF assms(3,4)] by simp_all
  then have o: "iter_order (ds_order d) (dc_fuddle c1)" if "d \<in> set (de_clock e @ de_frontend e)" for d
    using assms(9) [OF that] by (simp add: fuddle_wired_def iter_order_def)
  have s1: "services_wired (dc_fuddle c1) (dc_seeds c1) (m1, c1)" "dc_clock c1 = Map.empty" "dc_frontend c1 = Map.empty"
    using w1 by (auto simp: fuddle_wired_def services_wired_def)
  let ?S = "services_wired (dc_fuddle c1) (dc_seeds c1)"
  have "?S (m2, c2) \<and> dc_frontend c2 = Map.empty \<and>
      card (dom (dc_clock (snd (m2, c2)))) = card (dom (dc_clock (snd (m1, c1)))) + turns_left (do_clockNodes o') 0"
    using count_loop_counts_in [OF assms(6) _ z _ l2, where P = "\<lambda>s. ?S s \<and> dc_frontend (snd s) = Map.empty"
        and f = "\<lambda>s. card (dom (dc_clock (snd s)))"] addClockNode_wired o s1 by force
  then have s2: "?S (m2, c2)" "dc_frontend c2 = Map.empty" "card (dom (dc_clock c2)) = nat (do_clockNodes o')"
    using s1(2) turns_left_start [OF assms(5,6)] by simp_all
  have "?S (m', c) \<and> dc_clock c = dc_clock c2 \<and>
      card (dom (dc_frontend (snd (m', c)))) = card (dom (dc_frontend (snd (m2, c2)))) + turns_left (do_frontendNodes o') 0"
    using count_loop_counts_in [OF assms(8) _ z _ l3, where P = "\<lambda>s. ?S s \<and> dc_clock (snd s) = dc_clock c2"
        and f = "\<lambda>s. card (dom (dc_frontend (snd s)))"] addFrontendNode_wired o s2(1) by force
  then show ?thesis using w1 s2 turns_left_start [OF assms(7,8)] by auto
qed

lemma wired_resolves:
  assumes "services_wired F seeds (m, c)"
    and "{x \<in> set ms. sdk_Service x = ''clock''} = (\<lambda>s. cl_member (clock_client s)) ` ran (dc_clock c)"
  shows "set (resolve_addrs ''clock'' ms) = clock_Addr ` ran (dc_clock c)"
proof -
  have w: "\<exists>t. cl_member (clock_client s) = service_member (clock_ID s) ''clock'' (clock_Addr s) t"
    if "s \<in> ran (dc_clock c)" for s
    using assms(1) that by (auto simp: services_wired_def wired_client_def ran_def)
  have "a \<in> set (resolve_addrs ''clock'' ms) \<longleftrightarrow>
      (\<exists>x \<in> {x \<in> set ms. sdk_Service x = ''clock''}. \<exists>md. sdk_Metadata x = Some md \<and> md ''rpc-addr'' = Some a)" for a
    by (auto simp: resolve_addrs_set)
  moreover have "(\<exists>md. sdk_Metadata (cl_member (clock_client s)) = Some md \<and> md ''rpc-addr'' = Some a) \<longleftrightarrow> a = clock_Addr s"
    if "s \<in> ran (dc_clock c)" for s a
    using w [OF that] by (auto simp: service_member_def)
  ultimately show ?thesis unfolding assms(2) by (auto simp: image_iff)
qed

text \<open>
  C38: the demo cluster. A cluster that comes up has the nodes and services asked for. The i-th fuddle
  node is seeded with the gossip addresses of exactly the nodes started before it, so all of them
  find each other through the first; every service was given the RPC addresses of all fuddle nodes;
  and a resolver that sees the clock services registered resolves exactly their addresses.
\<close>
theorem demo_cluster_wired:
  assumes "demo_NewCluster opts e m = Some ((m', c), LoopDone)" and "o' = fold apply_demo_option opts demo_defaultOptions"
    and "0 \<le> do_fuddleNodes o'" "in_int64 (do_fuddleNodes o')" "0 \<le> do_clockNodes o'" "in_int64 (do_clockNodes o')"
      "0 \<le> do_frontendNodes o'" "in_int64 (do_frontendNodes o')"
    and "\<And>d. d \<in> set (de_clock e @ de_frontend e) \<Longrightarrow> distinct (ds_order d) \<and>
      set (ds_order d) = {next_ptr m..<next_ptr m + nat (do_fuddleNodes o')}"
  shows "dom (dc_fuddle c) = {next_ptr m..<next_ptr m + nat (do_fuddleNodes o')} \<and>
    length (dc_seeds c) = nat (do_fuddleNodes o') \<and>
    (\<forall>i < nat (do_fuddleNodes o'). \<exists>n. dc_fuddle c (next_ptr m + i) = Some n \<and>
       gossip_Seeds (Gossip (nodeConfig n)) = take i (dc_seeds c) \<and>
       dc_seeds c ! i = host_port (gossip_AdvAddr (Gossip (nodeConfig n))) (gossip_AdvPort (Gossip (nodeConfig n)))) \<and>
    card (dom (dc_clock c)) = nat (do_clockNodes o') \<and> card (dom (dc_frontend c)) = nat (do_frontendNodes o') \<and>
    (\<forall>cl \<in> clock_client ` ran (dc_clock c) \<union> fe_client ` ran (dc_frontend c).
       set (cl_addrs cl) = (\<lambda>n. rpc_JoinAdvAddr (RPC (nodeConfig n))) ` ran (dc_fuddle c)) \<and>
    (\<forall>ms. {x \<in> set ms. sdk_Service x = ''clock''} = (\<lambda>s. cl_member (clock_client s)) ` ran (dc_clock c) \<longrightarrow>
       set (resolve_addrs ''clock'' ms) = clock_Addr ` ran (dc_clock c))"
proof -
  obtain m1 c1 where w: "fuddle_wired (next_ptr m) (m1, c1)" "length (dc_seeds c1) = nat (do_fuddleNodes o')"
    "services_wired (dc_fuddle c1) (dc_seeds c1) (m', c)"
    "card (dom (dc_clock c)) = nat (do_clockNodes o')" "card (dom (dc_frontend c)) = nat (do_frontendNodes o')"
    using demo_NewCluster_wired [OF assms] by blast
  have f: "dc_fuddle c = dc_fuddle c1" "dc_seeds c = dc_seeds c1" using w(3) by (simp_all add: services_wired_def)
  have "set (cl_addrs cl) = (\<lambda>n. rpc_JoinAdvAddr (RPC (nodeConfig n))) ` ran (dc_fuddle c)"
    if "cl \<in> clock_client ` ran (dc_clock c) \<union> fe_client ` ran (dc_frontend c)" for cl
  proof -
    have "\<exists>service i addr. wired_client (dc_fuddle c1) service i addr cl"
      using that w(3) unfolding services_wired_def ran_def by blast
    then show ?thesis by (auto simp only: wired_client_def f(1))
  qed
  then show ?thesis
    using w(1,2,4,5) wired_resolves [OF w(3)] unfolding f fuddle_wired_def by simp
qed

subsection \<open>A small demo\<close>

lemma listeners_given_start:
  assumes "o' = fold apply_node_option opts node_defaultOptions"
    and "nopt_rpc o' = Some l1" "nopt_admin o' = Some l2" "nopt_gossipTCP o' = Some l3" "nopt_gossipUDP o' = Some l4"
  shows "\<exists>n. NewNode ls a b sample_world opts conf = Inr n"
proof -
  have d: "set fuddle_names \<inter> set (go_names sample_world) = {}" by (simp add: fuddle_names_def sample_world_def)
  have l: "admin_ln_of sample_world o' conf = Some l2" "rpc_ln_of sample_world o' conf = Some l1"
    "\<And>paths. log_builds sample_world paths"
    using assms by (simp_all add: admin_ln_of_def rpc_ln_of_def sample_world_def)
  have "\<exists>mc lns. NewGossip conf (gossip_opts o') (gossip_world sample_world) (open_lns sample_world) = Some (Inr mc, True, lns)"
    by (rule NewGossip_starts [where l = "Listener 1" and u = "Listener 2"]) (simp_all add: sample_world_def)
  then obtain mc lns where g: "NewGossip conf (gossip_opts o') (gossip_world sample_world) (open_lns sample_world) = Some (Inr mc, True, lns)"
    by blast
  show ?thesis using NewNode_outcome [OF d assms(1), of ls a b conf] by (simp add: l g split: prod.split)
qed

definition sample_dn :: demo_node_env where
  "sample_dn = \<lparr>dn_gossipTCP = Some (Listener 1), dn_gossipUDP = (\<lambda>_. Some (Listener 2)), dn_rpc = Some (Listener 3),
     dn_admin = Some (Listener 4), dn_uuid = ''01234567'', dn_live = sample_text, dn_now = 0, dn_clock = 0,
     dn_world = sample_world\<rparr>"

definition sample_ds :: demo_service_env where
  "sample_ds = \<lparr>ds_order = [0], ds_listen = Some ''h:1'', ds_uuid = ''01234567'', ds_log_opens = (\<lambda>_. True),
     ds_env = \<lparr>se_now = 0, se_connects = (\<lambda>_ _. True), se_members = [], se_fires = True, se_dials = True\<rparr>\<rparr>"

lemma sample_add_node: "\<exists>s'. addFuddleNode sample_dn s = (s', None)"
proof -
  obtain m c where s: "s = (m, c)" by (cases s)
  have p: "parseAddrPort ''127.0.0.1:1'' = Some 1" by code_simp
  let ?opts = "\<lambda>conf. [Node_WithRPCListener (Some (Listener 3)), Node_WithAdminListener (Some (Listener 4)),
      Node_WithGossipTCPListener (Some (Listener 1)), Node_WithGossipUDPListener (Some (Listener 2)),
      Node_WithLogPath (demo_LogPath c (NodeID conf))]"
  obtain n where n: "NewNode sample_text 0 0 sample_world (?opts (demo_node_config ''01234567'' 1 1 1 (dc_seeds c)))
      (demo_node_config ''01234567'' 1 1 1 (dc_seeds c)) = Inr n"
    using listeners_given_start [OF refl, of "?opts (demo_node_config ''01234567'' 1 1 1 (dc_seeds c))"] by force
  have a: "demo_port sample_dn l = Inr 1" for l
    using p by (simp add: demo_port_def sample_dn_def sample_world_def)
  show ?thesis
    using n by (simp add: s addFuddleNode_def and_then_def a demo_listen_def Let_def) (simp add: sample_dn_def Let_def)
qed

lemma sample_add_services:
  "\<exists>s'. addClockNode sample_ds s = (s', None)" "\<exists>s'. addFrontendNode sample_ds s = (s', None)"
  by (cases s; simp add: addClockNode_def addFrontendNode_def clock_NewService_def frontend_NewService_def
      clock_NewClient_def Connect_def sample_ds_def Let_def)+

theorem demo_cluster_wired_witness:
  "\<exists>m' c. demo_NewCluster [Demo_WithFuddleNodes 1, Demo_WithClockNodes 1, Demo_WithFrontendNodes 1]
      \<lparr>de_tmpdir = Some ''/tmp'', de_fuddle = [sample_dn], de_clock = [sample_ds], de_frontend = [sample_ds]\<rparr>
      \<lparr>next_ptr = 0, running = {}\<rparr> = Some ((m', c), LoopDone) \<and>
    length (dc_seeds c) = 1 \<and> card (dom (dc_clock c)) = 1"
proof -
  let ?opts = "[Demo_WithFuddleNodes 1, Demo_WithClockNodes 1, Demo_WithFrontendNodes 1]"
  let ?e = "\<lparr>de_tmpdir = Some ''/tmp'', de_fuddle = [sample_dn], de_clock = [sample_ds], de_frontend = [sample_ds]\<rparr>"
  let ?o = "fold apply_demo_option ?opts demo_defaultOptions"
  have o: "do_fuddleNodes ?o = 1" "do_clockNodes ?o = 1" "do_frontendNodes ?o = 1" "in_int64 1"
    by (simp_all add: in_int64_def)
  have one: "\<exists>s'. count_loop 1 step 0 [e] s = (s', LoopDone)" if "\<exists>s'. step e s = (s', None)" for step e s
    using that by (auto simp: add64_def in_int64_def)
  have "\<exists>s. demo_NewCluster ?opts ?e \<lparr>next_ptr = 0, running = {}\<rparr> = Some (s, LoopDone)"
  proof -
    let ?c = "\<lparr>dc_fuddle = Map.empty, dc_clock = Map.empty, dc_frontend = Map.empty, dc_seeds = [], dc_logDir = ''/tmp''\<rparr>"
    obtain s1 where s1: "count_loop 1 addFuddleNode 0 [sample_dn] (\<lparr>next_ptr = 0, running = {}\<rparr>, ?c) = (s1, LoopDone)"
      using one [of addFuddleNode sample_dn, OF sample_add_node] by blast
    obtain s2 where s2: "count_loop 1 addClockNode 0 [sample_ds] s1 = (s2, LoopDone)"
      using one [of addClockNode sample_ds, OF sample_add_services(1)] by blast
    obtain s3 where s3: "count_loop 1 addFrontendNode 0 [sample_ds] s2 = (s3, LoopDone)"
      using one [of addFrontendNode sample_ds, OF sample_add_services(2)] by blast
    show ?thesis using s1 s2 s3 o(1-3) by (simp add: demo_NewCluster_def Let_def del: count_loop.simps)
  qed
  then obtain m' c where r: "demo_NewCluster ?opts ?e \<lparr>next_ptr = 0, running = {}\<rparr> = Some ((m', c), LoopDone)" by auto
  have d: "distinct (ds_order d) \<and> set (ds_order d) = {next_ptr \<lparr>next_ptr = 0, running = {}\<rparr>..<
      next_ptr \<lparr>next_ptr = 0, running = {}\<rparr> + nat (do_fuddleNodes ?o)}"
    if "d \<in> set (de_clock ?e @ de_frontend ?e)" for d using that o by (auto simp: sample_ds_def)
  from demo_cluster_wired [OF r refl _ _ _ _ _ _ d]
  have "length (dc_seeds c) = 1 \<and> card (dom (dc_clock c)) = 1" using o by simp
  then show ?thesis using r by blast
qed

end
