(* ===== verification/Commands.thy ===== *)
theory Commands
  imports FcmStart ClockDemo
begin

text \<open>
  The commands of pkg/cli/fcm and pkg/cli/demo: the flags with their defaults, the calls of the
  client and the lines printed. A command that fails prints the error, whose text is left out.
\<close>

datatype cli_output = Printed "string list" | Printed_error client_error

subsection \<open>Flags\<close>

text \<open>The commands on a cluster share their flags; the cluster id has no default but is required.\<close>

record fcm_cli_flags =
  cf_clusterID :: string
  cf_fuddleNodes :: int
  cf_clientNodes :: int
  cf_addr :: string

definition create_flags :: fcm_cli_flags where
  "create_flags = \<lparr>cf_clusterID = '''', cf_fuddleNodes = 3, cf_clientNodes = 10, cf_addr = ''localhost:8220''\<rparr>"

definition info_flags :: "string \<Rightarrow> fcm_cli_flags" where
  "info_flags i = \<lparr>cf_clusterID = i, cf_fuddleNodes = 0, cf_clientNodes = 0, cf_addr = ''localhost:8220''\<rparr>"

definition health_flags :: "string \<Rightarrow> fcm_cli_flags" where
  "health_flags i = \<lparr>cf_clusterID = i, cf_fuddleNodes = 0, cf_clientNodes = 0, cf_addr = ''localhost:8220''\<rparr>"

definition add_flags :: "string \<Rightarrow> fcm_cli_flags" where
  "add_flags i = \<lparr>cf_clusterID = i, cf_fuddleNodes = 1, cf_clientNodes = 1, cf_addr = ''localhost:8220''\<rparr>"

definition remove_flags :: "string \<Rightarrow> fcm_cli_flags" where
  "remove_flags i = \<lparr>cf_clusterID = i, cf_fuddleNodes = 1, cf_clientNodes = 1, cf_addr = ''localhost:8220''\<rparr>"

subsection \<open>What is printed\<close>

definition fuddle_node_lines :: "FuddleNodeInfo \<Rightarrow> string list" where
  "fuddle_node_lines n = [''      ID: '' @ fi_ID n, ''      RPC Addr: '' @ fi_RPCAddr n,
     ''      Admin Addr: '' @ fi_AdminAddr n, ''      Log Path: '' @ fi_LogPath n, '''']"

definition client_node_lines :: "ClientNodeInfo \<Rightarrow> string list" where
  "client_node_lines n = [''      ID: '' @ ci_ID n, ''      Log Path: '' @ ci_LogPath n, '''']"

definition node_lists :: "FuddleNodeInfo list \<Rightarrow> ClientNodeInfo list \<Rightarrow> string list" where
  "node_lists ns cs = [''  Fuddle Nodes:''] @ concat (map fuddle_node_lines ns) @
     [''  Client Nodes:''] @ concat (map client_node_lines cs)"

definition cluster_lines :: "ClusterInfo \<Rightarrow> string list" where
  "cluster_lines c = ['''', ''  ID: '' @ cl_ID c, ''''] @ node_lists (cl_FuddleNodes c) (cl_ClientNodes c)"

definition removed_lines :: "NodesInfo \<Rightarrow> string list" where
  "removed_lines r = [''  Fuddle Nodes:''] @ concat (map (\<lambda>n. [''      ID: '' @ fi_ID n, '''']) (ni_FuddleNodes r)) @
     [''  Client Nodes:''] @ concat (map (\<lambda>n. [''      ID: '' @ ci_ID n, '''']) (ni_ClientNodes r))"

definition print_result :: "('a \<Rightarrow> string list) \<Rightarrow> client_error + 'a \<Rightarrow> cli_output" where
  "print_result ls r = (case r of Inl e \<Rightarrow> Printed_error e | Inr a \<Rightarrow> Printed (ls a))"

subsection \<open>The commands\<close>

definition run_cluster_create :: "http_do \<Rightarrow> fcm_cli_flags \<Rightarrow> cli_output" where
  "run_cluster_create httpDo f =
     print_result cluster_lines (ClusterCreate httpDo (cf_addr f) (cf_fuddleNodes f) (cf_clientNodes f))"

definition run_cluster_info :: "http_do \<Rightarrow> fcm_cli_flags \<Rightarrow> cli_output" where
  "run_cluster_info httpDo f = print_result cluster_lines (client_ClusterInfo httpDo (cf_addr f) (cf_clusterID f))"

definition run_cluster_health :: "http_do \<Rightarrow> fcm_cli_flags \<Rightarrow> cli_output" where
  "run_cluster_health httpDo f = print_result (\<lambda>b. [''Healthy: '' @ (if b then ''true'' else ''false'')])
     (ClusterHealth httpDo (cf_addr f) (cf_clusterID f))"

definition run_nodes_add :: "http_do \<Rightarrow> fcm_cli_flags \<Rightarrow> cli_output" where
  "run_nodes_add httpDo f = print_result (\<lambda>r. node_lists (ni_FuddleNodes r) (ni_ClientNodes r))
     (client_AddNodes httpDo (cf_addr f) (cf_clusterID f) (cf_fuddleNodes f) (cf_clientNodes f))"

definition run_nodes_remove :: "http_do \<Rightarrow> fcm_cli_flags \<Rightarrow> cli_output" where
  "run_nodes_remove httpDo f = print_result removed_lines
     (client_RemoveNodes httpDo (cf_addr f) (cf_clusterID f) (cf_fuddleNodes f) (cf_clientNodes f))"

subsection \<open>The clock demo\<close>

definition demo_banner :: "string list" where
  "demo_banner =
     ['''', ''#'', ''# Welcome to the Fuddle clock service demo!'', ''#'',
      ''# The clock service is a demo cluster that shows how Fuddle can be used to'',
      ''# register members, lookup membets matching a filter, and subscribe to updates'',
      ''# when the registry membership changes.'', ''#'',
      ''# Inspect the cluster with '' @ [CHR 0x27] @ ''fuddle info'' @ [CHR 0x27] @
        '', specifying '' @ [CHR 0x27] @ ''--addr'' @ [CHR 0x27] @ '' as the address'',
      ''# of a Fuddle node.'', ''#'', '''']"

definition demo_fuddle_lines :: "demo_cluster \<Rightarrow> node \<Rightarrow> string list" where
  "demo_fuddle_lines c n =
     (let conf = nodeConfig n
      in [''Started fuddle node:'', ''    ID: '' @ NodeID conf, ''    RPC addr: '' @ rpc_JoinAdvAddr (RPC conf),
          ''    Admin addr: '' @ admin_JoinAdvAddr (Admin conf), ''    Log path: '' @ demo_LogPath c (NodeID conf),
          ''    Inspect: fuddle info cluster --addr '' @ rpc_JoinAdvAddr (RPC conf), ''''])"

definition demo_clock_lines :: "demo_cluster \<Rightarrow> clock_service \<Rightarrow> string list" where
  "demo_clock_lines c s = [''Started clock node:'', ''    ID: '' @ clock_ID s, ''    Log path: '' @ demo_LogPath c (clock_ID s), '''']"

definition demo_frontend_lines :: "demo_cluster \<Rightarrow> frontend_service \<Rightarrow> string list" where
  "demo_frontend_lines c s = [''Started frontend node:'', ''    ID: '' @ fe_ID s, ''    Addr: '' @ fe_Addr s,
     ''    Log path: '' @ demo_LogPath c (fe_ID s), ''    Request: curl http://'' @ fe_Addr s @ ''/time'', '''']"

text \<open>
  The demo command: None when it is still starting. An error is printed and the command returns
  without shutting anything down; otherwise the nodes are listed in the orders their maps are
  visited, and at the signal the cluster is shut down, visiting them in the orders given. The
  result is what was printed (an error or a panic has no lines) and what was not shut down.
\<close>

definition run_clock_demo ::
  "demo_env \<Rightarrow> nat list \<Rightarrow> nat list \<Rightarrow> nat list \<Rightarrow> nat list \<Rightarrow> nat list \<Rightarrow> nat list \<Rightarrow> machine \<Rightarrow>
     (string list option \<times> nat set) option"
where
  "run_clock_demo e fks cks feks fks' cks' feks' m =
     (case demo_NewCluster [] e m of
        None \<Rightarrow> Some (None, running m)
      | Some ((m', c), Running) \<Rightarrow> None
      | Some ((m', c), Failed _) \<Rightarrow> Some (None, running m')
      | Some ((m', c), LoopDone) \<Rightarrow> Some (Some (demo_banner @
            concat (map (demo_fuddle_lines c) (demo_FuddleNodes fks c)) @
            concat (map (demo_clock_lines c) (demo_ClockNodes cks c)) @
            concat (map (demo_frontend_lines c) (demo_FrontendNodes feks c))),
          running (demo_Shutdown fks' cks' feks' m')))"


subsection \<open>Reading the lines back\<close>

fun read_fuddle_nodes :: "string list \<Rightarrow> FuddleNodeInfo list \<times> string list" where
  "read_fuddle_nodes (l1 # l2 # l3 # l4 # l5 # ls) =
     (if take 10 l1 = ''      ID: '' then
        map_prod (Cons \<lparr>fi_ID = drop 10 l1, fi_RPCAddr = drop 16 l2, fi_AdminAddr = drop 18 l3,
          fi_LogPath = drop 16 l4\<rparr>) (\<lambda>r. r) (read_fuddle_nodes ls)
      else ([], l1 # l2 # l3 # l4 # l5 # ls))"
| "read_fuddle_nodes ls = ([], ls)"

fun read_client_nodes :: "string list \<Rightarrow> ClientNodeInfo list" where
  "read_client_nodes (l1 # l2 # l3 # ls) = \<lparr>ci_ID = drop 10 l1, ci_LogPath = drop 16 l2\<rparr> # read_client_nodes ls"
| "read_client_nodes ls = []"

fun read_cluster :: "string list \<Rightarrow> ClusterInfo option" where
  "read_cluster (l1 # l2 # l3 # l4 # ls) =
     (case read_fuddle_nodes ls of
        (ns, []) \<Rightarrow> None
      | (ns, l # ls') \<Rightarrow> Some \<lparr>cl_ID = drop 6 l2, cl_FuddleNodes = ns, cl_ClientNodes = read_client_nodes ls'\<rparr>)"
| "read_cluster _ = None"

lemma read_client_lines: "read_client_nodes (concat (map client_node_lines cs)) = cs"
  by (induction cs) (simp_all add: client_node_lines_def)

lemma read_fuddle_none: "take 10 l \<noteq> ''      ID: '' \<Longrightarrow> read_fuddle_nodes (l # ls) = ([], l # ls)"
  by (cases "(l # ls)" rule: read_fuddle_nodes.cases) auto

lemma read_fuddle_lines:
  "take 10 l \<noteq> ''      ID: '' \<Longrightarrow> read_fuddle_nodes (concat (map fuddle_node_lines ns) @ l # ls) = (ns, l # ls)"
  by (induction ns) (simp_all add: fuddle_node_lines_def read_fuddle_none)

lemma read_cluster_lines: "read_cluster (cluster_lines c) = Some c"
  by (cases c) (simp add: cluster_lines_def node_lists_def read_fuddle_lines read_client_lines)

subsection \<open>Creating a cluster and asking for it\<close>

lemma createCluster_registers:
  assumes "createCluster body e fks mks w = (w', HttpOK r)"
  shows "\<exists>c. snd w' (cr_ID r) = Some c \<and> r = cluster_info fks mks c"
  using assms
  by (auto simp: createCluster_def failure_reply_def manager_Add_def cluster_info_def
      split: option.splits prod.splits loop_result.splits if_splits)

lemma commands_through_router:
  assumes "mux_matches vars i"
  shows "in_int64 (cf_fuddleNodes f) \<Longrightarrow> in_int64 (cf_clientNodes f) \<Longrightarrow>
    run_cluster_create (\<lambda>req. snd (handle_http vars (cf_addr f) e w req)) f =
      print_result cluster_lines (served cluster_view (snd (createCluster
        (Some \<lparr>req_Nodes = cf_fuddleNodes f, req_Members = cf_clientNodes f\<rparr>)
        (he_create e) (he_fks e) (he_mks e) w)))"
    "cf_clusterID f = i \<Longrightarrow> run_cluster_info (\<lambda>req. snd (handle_http vars (cf_addr f) e w req)) f =
      print_result cluster_lines (served cluster_view (snd (describeCluster i (he_fks e) (he_mks e) w)))"
  using client_calls [OF assms] client_calls [OF assms, of 0 0]
  by (simp_all add: run_cluster_create_def run_cluster_info_def in_int64_def)

text \<open>The order in which a map is visited does not change what is listed, only its order.\<close>

lemma map_filter_mset: "mset (List.map_filter f xs) = image_mset (\<lambda>x. the (f x)) (filter_mset (\<lambda>x. f x \<noteq> None) (mset xs))"
  by (induction xs) (auto simp: List.map_filter_simps)

lemma iter_orders_mset:
  assumes "iter_order ks m" and "iter_order ks' m"
  shows "mset (List.map_filter m ks) = mset (List.map_filter m ks')"
proof -
  have "mset ks = mset ks'"
    using assms set_eq_iff_mset_eq_distinct [of ks ks'] by (simp add: iter_order_def)
  then show ?thesis by (simp add: map_filter_mset)
qed

lemma cluster_info_orders:
  assumes "iter_order fks (fuddleNodes c)" "iter_order fks' (fuddleNodes c)"
    and "iter_order mks (memberNodes c)" "iter_order mks' (memberNodes c)"
  shows "mset (cl_FuddleNodes (cluster_view (cluster_info fks mks c))) =
      mset (cl_FuddleNodes (cluster_view (cluster_info fks' mks' c)))"
    "mset (cl_ClientNodes (cluster_view (cluster_info fks mks c))) =
      mset (cl_ClientNodes (cluster_view (cluster_info fks' mks' c)))"
  using iter_orders_mset [OF assms(1,2)] iter_orders_mset [OF assms(3,4)]
  by (simp_all add: cluster_view_def cluster_info_def FuddleNodes_def MemberNodes_def)

text \<open>
  C30: what the commands print of a cluster. When a cluster is created through the command and has
  not changed since, asking for it by its id prints it again: the lines of either command, read
  back, give the id of the cluster and each of its nodes and members with its addresses and log
  path, and both give the same ones, in whatever orders the maps were visited.
\<close>
theorem create_then_info:
  assumes "mux_matches vars (cr_ID r)" and "in_int64 (cf_fuddleNodes f)" and "in_int64 (cf_clientNodes f)"
    and "createCluster (Some \<lparr>req_Nodes = cf_fuddleNodes f, req_Members = cf_clientNodes f\<rparr>)
      (he_create e) (he_fks e) (he_mks e) w = (w', HttpOK r)"
    and "snd w'' (cr_ID r) = snd w' (cr_ID r)"
    and "\<And>c h. snd w' (cr_ID r) = Some c \<Longrightarrow> h \<in> {e, e'} \<Longrightarrow>
      iter_order (he_fks h) (fuddleNodes c) \<and> iter_order (he_mks h) (memberNodes c)"
  shows "\<exists>ls ls' i. run_cluster_create (\<lambda>req. snd (handle_http vars (cf_addr f) e w req)) f = Printed ls \<and>
    run_cluster_info (\<lambda>req. snd (handle_http vars (cf_addr f') e' w'' req)) (f'\<lparr>cf_clusterID := cr_ID r\<rparr>) = Printed ls' \<and>
    read_cluster ls = Some (cluster_view r) \<and> read_cluster ls' = Some i \<and> cl_ID i = cr_ID r \<and>
    mset (cl_FuddleNodes i) = mset (cl_FuddleNodes (cluster_view r)) \<and>
    mset (cl_ClientNodes i) = mset (cl_ClientNodes (cluster_view r))"
proof -
  obtain c where c: "snd w' (cr_ID r) = Some c" "r = cluster_info (he_fks e) (he_mks e) c"
    using createCluster_registers [OF assms(4)] by blast
  let ?i = "cluster_view (cluster_info (he_fks e') (he_mks e') c)"
  have "run_cluster_create (\<lambda>req. snd (handle_http vars (cf_addr f) e w req)) f = Printed (cluster_lines (cluster_view r))"
    using commands_through_router(1) [OF assms(1-3)] assms(4) by (simp add: print_result_def served_def)
  moreover have "run_cluster_info (\<lambda>req. snd (handle_http vars (cf_addr f') e' w'' req)) (f'\<lparr>cf_clusterID := cr_ID r\<rparr>) =
      Printed (cluster_lines ?i)"
    using commands_through_router(2) [OF assms(1), of "f'\<lparr>cf_clusterID := cr_ID r\<rparr>" e' w''] assms(5) c
    by (simp add: describeCluster_def manager_Get_def print_result_def served_def)
  moreover have "cl_ID ?i = cr_ID r" using c(2) by (simp add: cluster_view_def cluster_info_def)
  moreover have "mset (cl_FuddleNodes ?i) = mset (cl_FuddleNodes (cluster_view r))"
    "mset (cl_ClientNodes ?i) = mset (cl_ClientNodes (cluster_view r))"
    using cluster_info_orders [of "he_fks e'" c "he_fks e" "he_mks e'" "he_mks e"] assms(6) [OF c(1)] c(2) by simp_all
  ultimately show ?thesis using read_cluster_lines by blast
qed


theorem create_then_info_witness:
  "\<exists>w' r ls. createCluster (Some \<lparr>req_Nodes = 1, req_Members = 0\<rparr>) sample_cluster_env [0] [] sample_start = (w', HttpOK r) \<and>
     run_cluster_info (\<lambda>req. snd (handle_http simple_vars ''localhost:8220''
       \<lparr>he_fks = [0], he_mks = [], he_polls = [], he_create = sample_cluster_env, he_nodes = [], he_members = [],
        he_fkss = [], he_mkss = [], he_ids = []\<rparr> w' req)) (info_flags ''89abcdef'') = Printed ls"
proof -
  let ?f = "create_flags\<lparr>cf_fuddleNodes := 1, cf_clientNodes := 0\<rparr>"
  let ?e = "\<lparr>he_fks = [0], he_mks = [], he_polls = [], he_create = sample_cluster_env, he_nodes = [], he_members = [],
        he_fkss = [], he_mkss = [], he_ids = []\<rparr>"
  obtain w' r c where s: "sample_create = (w', HttpOK r)" "cr_ID r = ''89abcdef''" "snd w' ''89abcdef'' = Some c"
    "dom (fuddleNodes c) = {0}" "memberNodes c = Map.empty" using sample_create_eq by blast
  have v: "mux_matches simple_vars (cr_ID r)" using simple_vars_mux s(2) by simp
  have n: "in_int64 (cf_fuddleNodes ?f)" "in_int64 (cf_clientNodes ?f)" by (simp_all add: in_int64_def)
  have c: "createCluster (Some \<lparr>req_Nodes = cf_fuddleNodes ?f, req_Members = cf_clientNodes ?f\<rparr>)
      (he_create ?e) (he_fks ?e) (he_mks ?e) sample_start = (w', HttpOK r)" using s(1) by simp
  have o: "iter_order (he_fks h) (fuddleNodes d) \<and> iter_order (he_mks h) (memberNodes d)"
    if "snd w' (cr_ID r) = Some d" "h \<in> {?e, ?e}" for d h
    using that s(2-5) by (auto simp: iter_order_def)
  show ?thesis
    using create_then_info [OF v n c refl o, where f' = "info_flags ''89abcdef''"] s(1,2) by (auto simp: info_flags_def)
qed

subsection \<open>What the demo prints\<close>

text \<open>The address of every node a service was given is printed.\<close>

lemma demo_prints_addresses:
  assumes "demo_NewCluster [] e m = Some ((m', c), LoopDone)"
    and "\<And>d. d \<in> set (de_clock e @ de_frontend e) \<Longrightarrow> distinct (ds_order d) \<and>
      set (ds_order d) = {next_ptr m..<next_ptr m + 3}"
    and "iter_order fks (dc_fuddle c)"
    and "run_clock_demo e fks cks feks fks' cks' feks' m = Some (Some ls, left)"
    and "cl \<in> clock_client ` ran (dc_clock c) \<union> fe_client ` ran (dc_frontend c)" and "a \<in> set (cl_addrs cl)"
  shows "''    RPC addr: '' @ a \<in> set ls"
proof -
  let ?o = "fold apply_demo_option [] demo_defaultOptions"
  have o: "do_fuddleNodes ?o = 3" "do_clockNodes ?o = 3" "do_frontendNodes ?o = 3" "in_int64 3"
    by (simp_all add: demo_defaultOptions_def in_int64_def)
  obtain c1 :: demo_cluster where w: "services_wired (dc_fuddle c1) (dc_seeds c1) (m', c)"
    using demo_NewCluster_wired [OF assms(1) refl] assms(2) o by auto
  have "\<exists>service i addr. wired_client (dc_fuddle c) service i addr cl"
    using w assms(5) unfolding services_wired_def ran_def by fastforce
  then obtain n where n: "n \<in> ran (dc_fuddle c)" "a = rpc_JoinAdvAddr (RPC (nodeConfig n))"
    using assms(6) by (auto simp: wired_client_def)
  have "n \<in> set (demo_FuddleNodes fks c)"
    using n(1) iter_order_mem [OF assms(3)] by (auto simp: demo_FuddleNodes_def set_map_filter ran_def)
  moreover have "''    RPC addr: '' @ a \<in> set (demo_fuddle_lines c n)"
    using n(2) by (simp add: demo_fuddle_lines_def Let_def)
  ultimately show ?thesis using assms(1,4) by (auto simp: run_clock_demo_def)
qed

end
