(* ===== verification/RegistryV2.thy ===== *)
theory RegistryV2
  imports Ownership
begin

text \<open>
  pkg/registryv2/registry: the rewrite of the registry that is being built beside the first one.
  Names are prefixed v2. The helper functions that are repeated word for word there (the copies,
  compareTimestamps, shuffleStrings and the loops of the digest) are the definitions of
  ReplicaRepair. \<open>None\<close> is a nil-pointer panic. SubscribeLocal, SubscribeFromDigest,
  OwnedMemberHeartbeat, OnNodeJoin, OnNodeLeave and the failure detector have empty bodies in the
  source and are left out.
\<close>

record registryv2 =
  v2_localID :: string
  v2_members :: "string \<rightharpoonup> member2"
  v2_priorityMembers :: "string set"
  v2_lastVersion :: "version2 option"
  v2_tombstoneTimeout :: int
  v2_metrics :: registry_metrics

record v2_options =
  v2_localMember :: "member_state option"
  v2_opt_tombstoneTimeout :: int

datatype v2_option = V2_WithLocalMember member_state | V2_WithTombstoneTimeout int

definition v2_defaultOptions :: v2_options where
  "v2_defaultOptions = \<lparr>v2_localMember = None, v2_opt_tombstoneTimeout = 30 * 60 * 1000\<rparr>"

fun v2_apply_option :: "v2_option \<Rightarrow> v2_options \<Rightarrow> v2_options" where
  "v2_apply_option (V2_WithLocalMember m) opts = opts\<lparr>v2_localMember := Some m\<rparr>"
| "v2_apply_option (V2_WithTombstoneTimeout t) opts = opts\<lparr>v2_opt_tombstoneTimeout := t\<rparr>"

subsection \<open>Versions and metrics\<close>

definition livenessToString :: "liveness \<Rightarrow> string" where
  "livenessToString l = (case l of
     Liveness_UP \<Rightarrow> ''up'' | Liveness_DOWN \<Rightarrow> ''down'' | Liveness_LEFT \<Rightarrow> ''left''
   | Liveness_other _ \<Rightarrow> ''unknown'')"

definition v2_count_labels :: "member2 \<Rightarrow> labels" where
  "v2_count_labels m = [(''liveness'', livenessToString (Liveness m)),
     (''service'', Service (State m)), (''owner'', OwnerId (Version m))]"

definition v2_owned_labels :: "member2 \<Rightarrow> labels" where
  "v2_owned_labels m = [(''liveness'', livenessToString (Liveness m)),
     (''service'', Service (State m))]"

definition incMembersCount :: "member2 \<Rightarrow> registryv2 \<Rightarrow> registryv2" where
  "incMembersCount m r =
     (let mt = v2_metrics r;
          mt1 = mt\<lparr>MembersCount := Gauge_Inc (v2_count_labels m) (MembersCount mt)\<rparr>
      in r\<lparr>v2_metrics := if OwnerId (Version m) = v2_localID r
           then mt1\<lparr>MembersOwned := Gauge_Inc (v2_owned_labels m) (MembersOwned mt1)\<rparr> else mt1\<rparr>)"

definition decMembersCount :: "member2 \<Rightarrow> registryv2 \<Rightarrow> registryv2" where
  "decMembersCount m r =
     (let mt = v2_metrics r;
          mt1 = mt\<lparr>MembersCount := Gauge_Dec (v2_count_labels m) (MembersCount mt)\<rparr>
      in r\<lparr>v2_metrics := if OwnerId (Version m) = v2_localID r
           then mt1\<lparr>MembersOwned := Gauge_Dec (v2_owned_labels m) (MembersOwned mt1)\<rparr> else mt1\<rparr>)"

definition v2_compareVersions :: "version2 \<Rightarrow> version2 \<Rightarrow> int" where
  "v2_compareVersions lhs rhs =
     (if OwnerId lhs \<noteq> OwnerId rhs then
        if Timestamp (VTimestamp lhs) < Timestamp (VTimestamp rhs) then 1
        else if Timestamp (VTimestamp lhs) > Timestamp (VTimestamp rhs) then - 1
        else 0
      else if Timestamp (VTimestamp lhs) < Timestamp (VTimestamp rhs) then 1
      else if Timestamp (VTimestamp lhs) > Timestamp (VTimestamp rhs) then - 1
      else if Counter (VTimestamp lhs) < Counter (VTimestamp rhs) then 1
      else if Counter (VTimestamp lhs) > Counter (VTimestamp rhs) then - 1
      else 0)"

definition v2_nextVersionLocked :: "int \<Rightarrow> registryv2 \<Rightarrow> version2 \<times> registryv2" where
  "v2_nextVersionLocked now r =
     (let counter = (case v2_lastVersion r of
              None \<Rightarrow> 0
            | Some lv \<Rightarrow> if Timestamp (VTimestamp lv) = now then Counter (VTimestamp lv) + 1 else 0);
          v = \<lparr>OwnerId = v2_localID r, VTimestamp = MonotonicTimestamp now counter\<rparr>
      in (v, r\<lparr>v2_lastVersion := Some v\<rparr>))"

subsection \<open>Operations\<close>

definition v2_NewRegistry :: "string \<Rightarrow> int \<Rightarrow> v2_option list \<Rightarrow> registryv2" where
  "v2_NewRegistry lid timestamp opts =
     (let options = fold v2_apply_option opts v2_defaultOptions;
          r = \<lparr>v2_localID = lid, v2_members = Map.empty, v2_priorityMembers = {},
               v2_lastVersion = None, v2_tombstoneTimeout = v2_opt_tombstoneTimeout options,
               v2_metrics = NewMetrics\<rparr>
      in case v2_localMember options of
           None \<Rightarrow> r
         | Some st \<Rightarrow>
             let (v, r1) = v2_nextVersionLocked timestamp r;
                 member = \<lparr>State = copyMemberState st, Liveness = Liveness_UP, Version = v, Expiry = 0\<rparr>
             in incMembersCount member (r1\<lparr>v2_members := (v2_members r1)(lid \<mapsto> member)\<rparr>))"

definition v2_Member :: "string \<Rightarrow> registryv2 \<Rightarrow> member_state option" where
  "v2_Member i r = (case v2_members r i of
     None \<Rightarrow> None
   | Some m \<Rightarrow> if Liveness m \<noteq> Liveness_UP then None else Some (copyMemberState (State m)))"

definition OwnedMemberUpsert :: "member_state \<Rightarrow> int \<Rightarrow> registryv2 \<Rightarrow> registryv2" where
  "OwnedMemberUpsert st timestamp r =
     (if MemberId st = v2_localID r then r
      else
        let (version, r1) = v2_nextVersionLocked timestamp r;
            member = \<lparr>State = copyMemberState st, Liveness = Liveness_UP, Version = version, Expiry = 0\<rparr>
        in case v2_members r1 (MemberId st) of
             Some existing \<Rightarrow>
               if v2_compareVersions (Version existing) version \<le> 0 then r1
               else
                 let r2 = decMembersCount existing r1
                 in incMembersCount member (r2\<lparr>v2_members := (v2_members r2)(MemberId st \<mapsto> member)\<rparr>)
           | None \<Rightarrow> incMembersCount member (r1\<lparr>v2_members := (v2_members r1)(MemberId st \<mapsto> member)\<rparr>))"

definition OwnedMemberLeave :: "string \<Rightarrow> int \<Rightarrow> registryv2 \<Rightarrow> registryv2 option" where
  "OwnedMemberLeave i timestamp r =
     (if i = v2_localID r then Some r
      else
        let (version, r1) = v2_nextVersionLocked timestamp r
        in case v2_members r1 i of
             Some existing \<Rightarrow>
               if v2_compareVersions (Version existing) version \<le> 0 then Some r1
               else
                 let r2 = decMembersCount existing r1;
                     member = \<lparr>State = State existing, Liveness = Liveness_LEFT, Version = version,
                       Expiry = add64 timestamp (v2_tombstoneTimeout r2)\<rparr>
                 in Some (incMembersCount member (r2\<lparr>v2_members := (v2_members r2)(i \<mapsto> member)\<rparr>))
           | None \<Rightarrow> None)"

definition RemoteUpsertMember :: "member2 \<Rightarrow> registryv2 \<Rightarrow> registryv2" where
  "RemoteUpsertMember member r =
     (let i = MemberId (State member)
      in case v2_members r i of
           Some existing \<Rightarrow>
             if v2_compareVersions (Version existing) (Version member) \<le> 0 then r
             else
               let r1 = decMembersCount existing r
               in incMembersCount member (r1\<lparr>v2_members := (v2_members r1)(i \<mapsto> copyMember member)\<rparr>)
         | None \<Rightarrow> incMembersCount member (r\<lparr>v2_members := (v2_members r)(i \<mapsto> copyMember member)\<rparr>))"

definition MembersDigest ::
  "string list \<Rightarrow> string list \<Rightarrow> nat list \<Rightarrow> int \<Rightarrow> registryv2 \<Rightarrow> digest \<times> registryv2"
where
  "MembersDigest ps ms perm maxMembers r =
     (let (digest, prio) = digest_of (v2_members r) ps ms perm maxMembers (v2_priorityMembers r)
      in (digest, r\<lparr>v2_priorityMembers := prio\<rparr>))"

definition MembersDelta :: "digest \<Rightarrow> registryv2 \<Rightarrow> member2 list \<times> registryv2" where
  "MembersDelta digest r =
     (let (ms, prio) = delta_loop (v2_members r) digest [] (v2_priorityMembers r)
      in (ms, r\<lparr>v2_priorityMembers := prio\<rparr>))"

subsection \<open>Fields\<close>

lemma count_fields [simp]:
  "v2_localID (incMembersCount m r) = v2_localID r" "v2_members (incMembersCount m r) = v2_members r"
  "v2_localID (decMembersCount m r) = v2_localID r" "v2_members (decMembersCount m r) = v2_members r"
  "v2_tombstoneTimeout (decMembersCount m r) = v2_tombstoneTimeout r"
  by (simp_all add: incMembersCount_def decMembersCount_def Let_def)

lemma v2_nextVersion_fields [simp]:
  "v2_localID (snd (v2_nextVersionLocked n r)) = v2_localID r"
  "v2_members (snd (v2_nextVersionLocked n r)) = v2_members r"
  "v2_metrics (snd (v2_nextVersionLocked n r)) = v2_metrics r"
  "v2_tombstoneTimeout (snd (v2_nextVersionLocked n r)) = v2_tombstoneTimeout r"
  "OwnerId (fst (v2_nextVersionLocked n r)) = v2_localID r"
  "Timestamp (VTimestamp (fst (v2_nextVersionLocked n r))) = n"
  by (simp_all add: v2_nextVersionLocked_def Let_def)

lemma v2_newer: "0 < v2_compareVersions a b \<longleftrightarrow> newer a b"
  by (auto simp: v2_compareVersions_def newer_iff)

text \<open>One entry replaced or added, with the gauges adjusted: the common part of the updates.\<close>

definition v2_put :: "string \<Rightarrow> member2 \<Rightarrow> member2 \<Rightarrow> registryv2 \<Rightarrow> registryv2" where
  "v2_put i counted m r =
     (let r1 = (case v2_members r i of None \<Rightarrow> r | Some e \<Rightarrow> decMembersCount e r)
      in incMembersCount counted (r1\<lparr>v2_members := (v2_members r1)(i \<mapsto> m)\<rparr>))"

lemma v2_put_fields [simp]:
  "v2_members (v2_put i counted m r) = (v2_members r)(i \<mapsto> m)"
  "v2_localID (v2_put i counted m r) = v2_localID r"
  by (simp_all add: v2_put_def Let_def split: option.split)

lemma OwnedMemberUpsert_eq:
  "OwnedMemberUpsert st ts r =
     (if MemberId st = v2_localID r then r
      else let (v, r1) = v2_nextVersionLocked ts r;
               m = \<lparr>State = st, Liveness = Liveness_UP, Version = v, Expiry = 0\<rparr>
           in if \<exists>e. v2_members r (MemberId st) = Some e \<and> \<not> newer (Version e) v then r1
              else v2_put (MemberId st) m m r1)"
  by (auto simp: OwnedMemberUpsert_def v2_put_def Let_def case_prod_beta v2_newer not_le
      split: option.split simp flip: v2_newer)

lemma OwnedMemberLeave_eq:
  "OwnedMemberLeave i ts r =
     (if i = v2_localID r then Some r
      else let (v, r1) = v2_nextVersionLocked ts r
           in case v2_members r i of
                None \<Rightarrow> None
              | Some e \<Rightarrow>
                  if newer (Version e) v
                  then let m = \<lparr>State = State e, Liveness = Liveness_LEFT, Version = v,
                         Expiry = add64 ts (v2_tombstoneTimeout r)\<rparr> in Some (v2_put i m m r1)
                  else Some r1)"
  by (auto simp: OwnedMemberLeave_def v2_put_def Let_def case_prod_beta not_le
      split: option.split simp flip: v2_newer)

lemma RemoteUpsertMember_eq:
  "RemoteUpsertMember m r =
     (if \<forall>e. v2_members r (MemberId (State m)) = Some e \<longrightarrow> newer (Version e) (Version m)
      then v2_put (MemberId (State m)) m (copyMember m) r else r)"
  by (auto simp: RemoteUpsertMember_def v2_put_def Let_def not_le split: option.split
      simp flip: v2_newer)

subsection \<open>The invariant\<close>

definition v2_inv :: "registryv2 \<Rightarrow> bool" where
  "v2_inv r \<longleftrightarrow> finite (dom (v2_members r)) \<and>
     (\<forall>k. gauge_cell (MembersCount (v2_metrics r)) k =
        int (population (v2_members r) (\<lambda>_. True) (\<lambda>m. metric_key (v2_count_labels m)) k)) \<and>
     (\<forall>k. gauge_cell (MembersOwned (v2_metrics r)) k =
        int (population (v2_members r) (\<lambda>m. OwnerId (Version m) = v2_localID r)
          (\<lambda>m. metric_key (v2_owned_labels m)) k))"

lemma v2_metrics_put:
  assumes "v2_count_labels counted = v2_count_labels m" and "v2_owned_labels counted = v2_owned_labels m"
    and "Version counted = Version m"
  shows "MembersCount (v2_metrics (v2_put i counted m r)) =
      Gauge_Inc (v2_count_labels m) (case v2_members r i of None \<Rightarrow> MembersCount (v2_metrics r)
        | Some e \<Rightarrow> Gauge_Dec (v2_count_labels e) (MembersCount (v2_metrics r)))"
    and "MembersOwned (v2_metrics (v2_put i counted m r)) =
      (let g = (case v2_members r i of None \<Rightarrow> MembersOwned (v2_metrics r)
         | Some e \<Rightarrow> if OwnerId (Version e) = v2_localID r
             then Gauge_Dec (v2_owned_labels e) (MembersOwned (v2_metrics r))
             else MembersOwned (v2_metrics r))
       in if OwnerId (Version m) = v2_localID r then Gauge_Inc (v2_owned_labels m) g else g)"
  using assms
  by (simp_all add: v2_put_def incMembersCount_def decMembersCount_def Let_def split: option.split)

lemma v2_inv_put:
  assumes inv: "v2_inv r" and same: "v2_count_labels counted = v2_count_labels m"
    "v2_owned_labels counted = v2_owned_labels m" "Version counted = Version m"
  shows "v2_inv (v2_put i counted m r)"
proof -
  let ?r = "v2_put i counted m r" and ?own = "\<lambda>m. OwnerId (Version m) = v2_localID r"
  have fin: "finite (dom (v2_members r))" using inv by (simp add: v2_inv_def)
  have count: "gauge_cell (MembersCount (v2_metrics r)) k =
      int (population (v2_members r) (\<lambda>_. True) (\<lambda>m. metric_key (v2_count_labels m)) k)"
    and owned: "gauge_cell (MembersOwned (v2_metrics r)) k =
      int (population (v2_members r) ?own (\<lambda>m. metric_key (v2_owned_labels m)) k)" for k
    using inv by (simp_all add: v2_inv_def)
  have "gauge_cell (MembersCount (v2_metrics ?r)) k =
      int (population (v2_members ?r) (\<lambda>_. True) (\<lambda>m. metric_key (v2_count_labels m)) k)" for k
  proof (cases "v2_members r i")
    case None
    then show ?thesis
      using gauge.counts_insert [OF fin None, where P = "\<lambda>_. True" and v = m
          and lab = v2_count_labels, OF count] by (simp add: v2_metrics_put(1) [OF same])
  next
    case (Some e)
    then show ?thesis
      using gauge.counts_replace [OF fin Some, where P = "\<lambda>_. True" and v = m
          and lab = v2_count_labels, OF count] by (simp add: v2_metrics_put(1) [OF same])
  qed
  moreover have "gauge_cell (MembersOwned (v2_metrics ?r)) k =
      int (population (v2_members ?r) ?own (\<lambda>m. metric_key (v2_owned_labels m)) k)" for k
  proof (cases "v2_members r i")
    case None
    then show ?thesis
      using gauge.counts_insert [OF fin None, where P = ?own and v = m and lab = v2_owned_labels,
          OF owned] by (simp add: v2_metrics_put(2) [OF same] Let_def)
  next
    case (Some e)
    then show ?thesis
      using gauge.counts_replace [OF fin Some, where P = ?own and v = m and lab = v2_owned_labels,
          OF owned] by (simp add: v2_metrics_put(2) [OF same] Let_def)
  qed
  ultimately show ?thesis using fin by (simp add: v2_inv_def)
qed

lemma v2_inv_frame [simp]:
  "v2_inv (r\<lparr>v2_priorityMembers := ps\<rparr>) = v2_inv r"
  "v2_inv (snd (v2_nextVersionLocked n r)) = v2_inv r"
  by (simp_all add: v2_inv_def)

lemma copyMember_labels [simp]:
  "v2_count_labels (copyMember m) = v2_count_labels m" "v2_owned_labels (copyMember m) = v2_owned_labels m"
  by (simp_all add: v2_count_labels_def v2_owned_labels_def)

lemma v2_inv_ops:
  assumes "v2_inv r"
  shows "v2_inv (OwnedMemberUpsert st ts r)" "OwnedMemberLeave i ts r = Some r' \<Longrightarrow> v2_inv r'"
    "v2_inv (RemoteUpsertMember m r)" "v2_inv (snd (MembersDigest ps ms perm lim r))"
    "v2_inv (snd (MembersDelta d r))"
  using assms
  by (auto simp: OwnedMemberUpsert_eq OwnedMemberLeave_eq RemoteUpsertMember_eq Let_def case_prod_beta
      MembersDigest_def MembersDelta_def intro!: v2_inv_put split: option.splits if_splits)

lemma v2_inv_new: "v2_inv (v2_NewRegistry lid ts opts)"
proof -
  have empty: "v2_inv \<lparr>v2_localID = lid, v2_members = Map.empty, v2_priorityMembers = {},
      v2_lastVersion = None, v2_tombstoneTimeout = t, v2_metrics = NewMetrics\<rparr>" (is "v2_inv (?r t)") for t
    by (simp add: v2_inv_def NewMetrics_def)
  have "v2_NewRegistry lid ts opts = (let options = fold v2_apply_option opts v2_defaultOptions;
      t = v2_opt_tombstoneTimeout options in
      case v2_localMember options of None \<Rightarrow> ?r t
      | Some st \<Rightarrow> let m = \<lparr>State = st, Liveness = Liveness_UP,
          Version = fst (v2_nextVersionLocked ts (?r t)), Expiry = 0\<rparr>
        in v2_put lid m m (snd (v2_nextVersionLocked ts (?r t))))"
    by (simp add: v2_NewRegistry_def v2_put_def Let_def case_prod_beta v2_nextVersionLocked_def
        split: option.split)
  then show ?thesis
    by (auto simp: Let_def empty intro!: v2_inv_put split: option.split)
qed

inductive v2_reachable :: "registryv2 \<Rightarrow> bool" where
  v2_new: "v2_reachable (v2_NewRegistry lid ts opts)"
| v2_upsert: "v2_reachable r \<Longrightarrow> v2_reachable (OwnedMemberUpsert st ts r)"
| v2_leave: "v2_reachable r \<Longrightarrow> OwnedMemberLeave i ts r = Some r' \<Longrightarrow> v2_reachable r'"
| v2_remote: "v2_reachable r \<Longrightarrow> v2_reachable (RemoteUpsertMember m r)"
| v2_digest: "v2_reachable r \<Longrightarrow> v2_reachable (snd (MembersDigest ps ms perm lim r))"
| v2_delta: "v2_reachable r \<Longrightarrow> v2_reachable (snd (MembersDelta d r))"

lemma v2_reachable_inv: "v2_reachable r \<Longrightarrow> v2_inv r"
  by (induction rule: v2_reachable.induct) (auto intro: v2_inv_new v2_inv_ops)

text \<open>
  C23: the gauges of registryv2 are exact in every reachable state: for the labels of any member,
  members.count reads the number of stored members with these labels and members.owned the number
  of those this node owns.
\<close>
theorem v2_gauges_exact:
  assumes "v2_reachable r"
  shows "Gauge_Value (labelsToLowercase (v2_count_labels x)) (MembersCount (v2_metrics r)) =
      int (card {i. \<exists>m. v2_members r i = Some m \<and>
        metric_key (v2_count_labels m) = metric_key (v2_count_labels x)}) \<and>
    Gauge_Value (labelsToLowercase (v2_owned_labels x)) (MembersOwned (v2_metrics r)) =
      int (card {i. \<exists>m. v2_members r i = Some m \<and> OwnerId (Version m) = v2_localID r \<and>
        metric_key (v2_owned_labels m) = metric_key (v2_owned_labels x)})"
  using v2_reachable_inv [OF assms]
  by (simp add: v2_inv_def Gauge_Value_cell metric_key_def population_def)

theorem v2_gauges_exact_witness:
  "let r = OwnedMemberUpsert (zero_state ''m'') 9 (v2_NewRegistry ''n1'' 5 []);
       m = \<lparr>State = zero_state ''m'', Liveness = Liveness_UP,
         Version = \<lparr>OwnerId = ''n1'', VTimestamp = MonotonicTimestamp 9 0\<rparr>, Expiry = 0\<rparr>
   in Gauge_Value (labelsToLowercase (v2_count_labels m)) (MembersCount (v2_metrics r)) = 1 \<and>
     Gauge_Value (labelsToLowercase (v2_owned_labels m)) (MembersOwned (v2_metrics r)) = 1"
proof -
  let ?r = "OwnedMemberUpsert (zero_state ''m'') 9 (v2_NewRegistry ''n1'' 5 [])"
  let ?m = "\<lparr>State = zero_state ''m'', Liveness = Liveness_UP,
    Version = \<lparr>OwnerId = ''n1'', VTimestamp = MonotonicTimestamp 9 0\<rparr>, Expiry = 0\<rparr>"
  have m: "v2_members ?r = [''m'' \<mapsto> ?m]" "v2_localID ?r = ''n1''"
    by (simp_all add: OwnedMemberUpsert_eq v2_NewRegistry_def v2_defaultOptions_def Let_def case_prod_beta
        v2_nextVersionLocked_def)
  note exact = v2_gauges_exact [OF v2_upsert [OF v2_new], of ?m]
  have "{i. \<exists>x. v2_members ?r i = Some x \<and> P x} = (if P ?m then {''m''} else {})" for P
    unfolding m by auto
  note sets = this
  show ?thesis
    unfolding Let_def using exact [of "zero_state ''m''" 9 "''n1''" 5 "[]"] unfolding sets m(2) by simp
qed

subsection \<open>Behaviour\<close>

interpretation v2_store: member_store newer member_id Version copyMember v2_members
  "\<lambda>_ _. True" RemoteUpsertMember
proof
  show "v2_members (RemoteUpsertMember u r) =
      put_fresher newer member_id Version copyMember True u (v2_members r)" for u r
    by (auto simp: RemoteUpsertMember_eq put_fresher_def member_id_def)
qed simp_all

text \<open>
  A registered member is found until it leaves. OwnedMemberUpsert with a timestamp later than
  the stored version makes Member return the state, owned by this node and up; a later
  OwnedMemberLeave keeps a tombstone with the deadline but makes Member return nothing. Nothing
  happens for the node's own id.
\<close>
theorem v2_register_leave:
  assumes "MemberId st \<noteq> v2_localID r" and "t1 < t2"
    and "\<forall>e. v2_members r (MemberId st) = Some e \<longrightarrow> Timestamp (VTimestamp (Version e)) < t1"
  shows "v2_Member (MemberId st) (OwnedMemberUpsert st t1 r) = Some st \<and>
    (\<exists>r' m. OwnedMemberLeave (MemberId st) t2 (OwnedMemberUpsert st t1 r) = Some r' \<and>
       v2_Member (MemberId st) r' = None \<and> v2_members r' (MemberId st) = Some m \<and> State m = st \<and>
       Liveness m = Liveness_LEFT \<and> OwnerId (Version m) = v2_localID r \<and>
       Expiry m = add64 t2 (v2_tombstoneTimeout r)) \<and>
    OwnedMemberUpsert (st\<lparr>MemberId := v2_localID r\<rparr>) t1 r = r \<and>
    OwnedMemberLeave (v2_localID r) t1 r = Some r"
proof -
  let ?v = "fst (v2_nextVersionLocked t1 r)"
  let ?m = "\<lparr>State = st, Liveness = Liveness_UP, Version = ?v, Expiry = 0\<rparr>"
  have r1: "OwnedMemberUpsert st t1 r =
      v2_put (MemberId st) ?m ?m (snd (v2_nextVersionLocked t1 r))" (is "_ = ?r1")
    using assms(1,3) by (auto simp: OwnedMemberUpsert_eq Let_def case_prod_beta newer_iff)
  have t: "v2_tombstoneTimeout ?r1 = v2_tombstoneTimeout r"
    by (simp add: v2_put_def Let_def incMembersCount_def split: option.split)
  have "newer ?v (fst (v2_nextVersionLocked t2 ?r1))"
    using assms(2) by (simp add: newer_iff)
  then have leave: "OwnedMemberLeave (MemberId st) t2 ?r1 = Some (v2_put (MemberId st)
      \<lparr>State = st, Liveness = Liveness_LEFT, Version = fst (v2_nextVersionLocked t2 ?r1),
       Expiry = add64 t2 (v2_tombstoneTimeout r)\<rparr>
      \<lparr>State = st, Liveness = Liveness_LEFT, Version = fst (v2_nextVersionLocked t2 ?r1),
       Expiry = add64 t2 (v2_tombstoneTimeout r)\<rparr> (snd (v2_nextVersionLocked t2 ?r1)))"
    using assms(1) by (simp add: OwnedMemberLeave_eq Let_def case_prod_beta t)
  moreover have "OwnedMemberUpsert (st\<lparr>MemberId := v2_localID r\<rparr>) t1 r = r"
    "OwnedMemberLeave (v2_localID r) t1 r = Some r"
    by (simp_all add: OwnedMemberUpsert_eq OwnedMemberLeave_eq)
  moreover have "v2_Member (MemberId st) ?r1 = Some st" by (simp add: v2_Member_def)
  ultimately show ?thesis by (simp add: r1 v2_Member_def)
qed

theorem v2_register_leave_witness:
  "v2_Member ''m'' (OwnedMemberUpsert (zero_state ''m'') 5 (v2_NewRegistry ''n1'' 1 [])) =
     Some (zero_state ''m'')"
  using v2_register_leave [of "zero_state ''m''" "v2_NewRegistry ''n1'' 1 []" 5 9]
  by (simp add: v2_NewRegistry_def v2_defaultOptions_def)

text \<open>
  A client that leaves without being known crashes the node: OwnedMemberLeave guards the look-up
  of the stored member but not its use, so for an id that is neither the node's own nor stored it
  dereferences nil; in every other case it returns.
\<close>
theorem v2_leave_unknown_panics:
  "OwnedMemberLeave i t r = None \<longleftrightarrow> i \<noteq> v2_localID r \<and> v2_members r i = None"
  by (auto simp: OwnedMemberLeave_eq Let_def case_prod_beta split: option.split)

text \<open>
  Registryv2 replicas converge: two registries with the same members that apply the same
  remote updates in any orders end with the same members, if no two different updates to one
  member are unordered. Here neither the node's own member nor updates under its own name are
  protected, so the condition on the node ids of the first registry is gone.
\<close>
theorem v2_replicas_converge:
  assumes "mset us = mset ws" and "v2_members r = v2_members r'"
    and "\<forall>u \<in> set us. \<forall>v \<in> set us. MemberId (State u) = MemberId (State v) \<longrightarrow>
      u = v \<or> newer (Version u) (Version v) \<or> newer (Version v) (Version u)"
  shows "v2_members (fold RemoteUpsertMember us r) = v2_members (fold RemoteUpsertMember ws r')"
proof (rule v2_store.converge [OF assms(1,2) refl])
  show "u = v \<or> newer (Version u) (Version v) \<or> newer (Version v) (Version u)"
    if "u \<in> set us" "v \<in> set us" "member_id u = member_id v" for u v
    using assms(3) that by (auto simp: member_id_def)
qed

theorem v2_replicas_converge_witness:
  "v2_members (fold RemoteUpsertMember
     [sample_member ''x'' Liveness_UP ''n2'' 5 0, sample_member ''x'' Liveness_DOWN ''n3'' 9 0]
     (v2_NewRegistry ''n1'' 1 [])) =
   v2_members (fold RemoteUpsertMember
     [sample_member ''x'' Liveness_DOWN ''n3'' 9 0, sample_member ''x'' Liveness_UP ''n2'' 5 0]
     (v2_NewRegistry ''n1'' 2 []))"
  by (rule v2_replicas_converge)
    (simp_all add: sample_member_def newer_iff v2_NewRegistry_def v2_defaultOptions_def)

text \<open>
  The rewrite dropped two protections. A remote update for the node's own id, newer than its
  entry, replaces the node's own member, which OwnedMemberUpsert and OwnedMemberLeave refuse to
  touch; and every stored remote update loses its expiry, so a tombstone that is forwarded has
  no deadline at the receiver.
\<close>
theorem v2_remote_unprotected:
  assumes "newer (Version e) (Version u)" and "v2_members r (MemberId (State u)) = Some e"
  shows "v2_members (RemoteUpsertMember u r) (MemberId (State u)) = Some (u\<lparr>Expiry := 0\<rparr>)"
  using assms by (simp add: RemoteUpsertMember_eq copyMember_def)

theorem v2_remote_unprotected_witness:
  "v2_members (RemoteUpsertMember (sample_member ''n1'' Liveness_LEFT ''n2'' 50 900)
     (v2_NewRegistry ''n1'' 1 [V2_WithLocalMember (zero_state ''n1'')])) ''n1'' =
   Some (sample_member ''n1'' Liveness_LEFT ''n2'' 50 0)"
proof -
  let ?r = "v2_NewRegistry ''n1'' 1 [V2_WithLocalMember (zero_state ''n1'')]"
  have "v2_members ?r ''n1'' = Some (sample_member ''n1'' Liveness_UP ''n1'' 1 0)"
    by (simp add: v2_NewRegistry_def v2_defaultOptions_def v2_nextVersionLocked_def sample_member_def
        Let_def)
  then show ?thesis
    using v2_remote_unprotected [of "sample_member ''n1'' Liveness_UP ''n1'' 1 0"
        "sample_member ''n1'' Liveness_LEFT ''n2'' 50 900" ?r]
    by (simp add: newer_iff sample_member_def)
qed

end
