(* ===== verification/V2Services.thy ===== *)
theory V2Services
  imports RegistryV2
begin

text \<open>
  pkg/registryv2/server and pkg/registryv2/client: the handlers and the replica client of the
  rewrite. They hold pointers to a registry (and to a gRPC client) that their constructors leave
  nil; None as a result is the panic of a nil pointer. The methods of the registry that are empty
  in the source (heartbeats, subscriptions) do not read their receiver and do not panic.
\<close>

subsection \<open>Servers\<close>

record v2_server =
  srv_registry :: "registryv2 option"

definition v2_NewClientReadServer :: v2_server where
  "v2_NewClientReadServer = \<lparr>srv_registry = None\<rparr>"

definition v2_NewClientWriteServer :: v2_server where
  "v2_NewClientWriteServer = \<lparr>srv_registry = None\<rparr>"

definition v2_NewReplicaServer :: v2_server where
  "v2_NewReplicaServer = \<lparr>srv_registry = None\<rparr>"

definition v2_MemberJoin :: "member_state \<Rightarrow> int \<Rightarrow> v2_server \<Rightarrow> v2_server option" where
  "v2_MemberJoin m now s =
     (case srv_registry s of None \<Rightarrow> None
      | Some r \<Rightarrow> Some (s\<lparr>srv_registry := Some (OwnedMemberUpsert m now r)\<rparr>))"

definition v2_MemberLeave :: "string \<Rightarrow> int \<Rightarrow> v2_server \<Rightarrow> v2_server option" where
  "v2_MemberLeave i now s =
     (case srv_registry s of None \<Rightarrow> None
      | Some r \<Rightarrow> map_option (\<lambda>r'. s\<lparr>srv_registry := Some r'\<rparr>) (OwnedMemberLeave i now r))"

text \<open>A heartbeat answers with a nil response and no error.\<close>

definition v2_MemberHeartbeat :: "string \<Rightarrow> int \<Rightarrow> v2_server \<Rightarrow> (unit option \<times> v2_server) option" where
  "v2_MemberHeartbeat i now s = Some (None, s)"

definition v2_read_Sync :: "v2_server \<Rightarrow> v2_server option" where
  "v2_read_Sync s = Some s"

definition v2_Update :: "member2 \<Rightarrow> v2_server \<Rightarrow> v2_server option" where
  "v2_Update m s =
     (case srv_registry s of None \<Rightarrow> None
      | Some r \<Rightarrow> Some (s\<lparr>srv_registry := Some (RemoteUpsertMember m r)\<rparr>))"

definition v2_replica_Sync :: "digest \<Rightarrow> v2_server \<Rightarrow> (member2 list \<times> v2_server) option" where
  "v2_replica_Sync d s =
     (case srv_registry s of None \<Rightarrow> None
      | Some r \<Rightarrow> (case MembersDelta d r of (ms, r') \<Rightarrow> Some (ms, s\<lparr>srv_registry := Some r'\<rparr>)))"

subsection \<open>The replica client\<close>

record v2_client =
  rc_registry :: "registryv2 option"
  rc_client :: bool

definition maxDigestSize :: int where
  "maxDigestSize = 10000"

definition v2_ConnectReplica :: "string \<Rightarrow> v2_client" where
  "v2_ConnectReplica addr = \<lparr>rc_registry = None, rc_client = False\<rparr>"

definition v2_client_Update :: "member2 \<Rightarrow> v2_client \<Rightarrow> v2_client" where
  "v2_client_Update m c = c"

text \<open>\<open>call\<close> is the remote call: the members it returns, or None when it fails.\<close>

definition v2_client_Sync ::
  "string list \<Rightarrow> string list \<Rightarrow> nat list \<Rightarrow> (digest \<Rightarrow> member2 list option) \<Rightarrow> v2_client \<Rightarrow>
     (bool \<times> v2_client) option"
where
  "v2_client_Sync ps ms perm call c =
     (case rc_registry c of
        None \<Rightarrow> None
      | Some r \<Rightarrow>
          (case MembersDigest ps ms perm maxDigestSize r of (d, r1) \<Rightarrow>
            if \<not> rc_client c then None
            else (case call d of
                None \<Rightarrow> Some (False, c\<lparr>rc_registry := Some r1\<rparr>)
              | Some us \<Rightarrow> Some (True, c\<lparr>rc_registry := Some (fold RemoteUpsertMember us r1)\<rparr>))))"

subsection \<open>A round of repair\<close>

lemma MembersDigest_complete:
  assumes "MembersDigest ps ms perm maxDigestSize r = (d, r1)" and "set ps = v2_priorityMembers r"
    and "iter_order ms (v2_members r)" and "valid_perm perm ms"
    and "int (card (v2_priorityMembers r \<union> dom (v2_members r))) < maxDigestSize"
  shows "good_digest (v2_members r) d \<and> digest_ids d = v2_priorityMembers r \<union> dom (v2_members r) \<and>
    v2_members r1 = v2_members r"
proof -
  obtain prio' where run: "digest_of (v2_members r) ps ms perm maxDigestSize (v2_priorityMembers r) = (d, prio')"
    and r1: "r1 = r\<lparr>v2_priorityMembers := prio'\<rparr>"
    using assms(1) by (auto simp: MembersDigest_def split: prod.splits)
  have perm: "mset perm = mset [0..<length ms]" using assms(4) by (simp add: valid_perm_def)
  note spec = digest_of_spec [OF run assms(2) perm, unfolded iter_order_set [OF assms(3)]]
  have fin: "finite (v2_priorityMembers r \<union> dom (v2_members r))"
    using iter_order_finite [OF assms(3)] finite_set [of ps] assms(2) by simp
  have "card (digest_ids d) \<le> card (v2_priorityMembers r \<union> dom (v2_members r))"
    using spec by (intro card_mono [OF fin]) blast
  then have "int (length d) < maxDigestSize"
    using assms(5) digest_ids_card [OF conjunct1 [OF spec]] by linarith
  then show ?thesis using spec r1 by simp
qed

lemma MembersDelta_eq:
  "fst (MembersDelta d r) = List.map_filter (delta_answer (v2_members r)) d"
  by (simp add: MembersDelta_def delta_loop_eq)

lemma sync_not_behind:
  assumes "good_digest (v2_members r) d" and "i \<in> digest_ids d"
    and "v2_members far i = Some m" and "MemberId (State m) = i" and "v2_members r1 = v2_members r"
    and "MonotonicTimestamp 0 0 < VTimestamp (Version m)"
  shows "\<exists>e. v2_members (fold RemoteUpsertMember (fst (MembersDelta d far)) r1) i = Some e \<and>
    \<not> newer (Version e) (Version m)"
proof (cases "digest_entry (v2_members r) i < VTimestamp (Version m)")
  case True
  then have "copyMember m \<in> set (fst (MembersDelta d far))"
    using digest_entry_at [OF assms(1,2)] assms(3)
    by (force simp: MembersDelta_eq set_map_filter delta_answer_Some)
  then show ?thesis
    using v2_store.fold_delivers [of "copyMember m"] assms(4) by (simp add: member_id_def)
next
  case False
  then obtain e where e: "v2_members r i = Some e"
    using assms(6) by (cases "v2_members r i") (auto simp: digest_entry_def)
  then have "\<not> newer (Version e) (Version m)"
    using False by (auto simp: digest_entry_def newer_iff_timestamp)
  then show ?thesis using e assms(5) v2_store.fold_not_older by metis
qed

text \<open>
  C35: a round of repair in registry v2. While a registry and the ids it wants first are fewer than ten
  thousand, its digest names all of them, and after a Sync with a replica no version the replica
  holds of one of them is newer than the one the registry holds; the members the replica does
  not have stay as they were. When the call fails no member changes. The client that ConnectReplica
  returns, and the replica server of its constructor, panic instead.
\<close>
theorem v2_sync_catches_up:
  assumes "rc_registry c = Some r" and "rc_client c" and "set ps = v2_priorityMembers r"
    and "iter_order ms (v2_members r)" and "valid_perm perm ms"
    and "int (card (v2_priorityMembers r \<union> dom (v2_members r))) < maxDigestSize"
    and "srv_registry s = Some far" and "\<forall>i m. v2_members far i = Some m \<longrightarrow>
      MemberId (State m) = i \<and> MonotonicTimestamp 0 0 < VTimestamp (Version m)"
  shows "(\<exists>c' r'. v2_client_Sync ps ms perm (\<lambda>d. map_option fst (v2_replica_Sync d s)) c = Some (True, c') \<and>
      rc_registry c' = Some r' \<and>
      (\<forall>i m. i \<in> v2_priorityMembers r \<union> dom (v2_members r) \<and> v2_members far i = Some m \<longrightarrow>
        (\<exists>e. v2_members r' i = Some e \<and> \<not> newer (Version e) (Version m))) \<and>
      (\<forall>i. v2_members far i = None \<longrightarrow> v2_members r' i = v2_members r i)) \<and>
    (\<exists>c' r'. v2_client_Sync ps ms perm (\<lambda>d. None) c = Some (False, c') \<and> rc_registry c' = Some r' \<and>
      v2_members r' = v2_members r) \<and>
    v2_client_Sync ps ms perm call (v2_ConnectReplica addr) = None \<and> v2_replica_Sync d v2_NewReplicaServer = None"
proof -
  obtain dg r1 where d: "MembersDigest ps ms perm maxDigestSize r = (dg, r1)" by fastforce
  note g = MembersDigest_complete [OF d assms(3-6)]
  let ?us = "fst (MembersDelta dg far)"
  let ?r' = "fold RemoteUpsertMember ?us r1"
  have "\<exists>e. v2_members ?r' i = Some e \<and> \<not> newer (Version e) (Version m)"
    if "i \<in> v2_priorityMembers r \<union> dom (v2_members r)" "v2_members far i = Some m" for i m
    by (rule sync_not_behind [of r]) (use g that assms(8) in auto)
  moreover have "v2_members ?r' i = v2_members r i" if "v2_members far i = None" for i
  proof -
    have "i \<noteq> member_id u" if u: "u \<in> set ?us" for u
    proof -
      obtain j t m where "v2_members far j = Some m" "u = copyMember m"
        using u by (force simp: MembersDelta_eq set_map_filter delta_answer_Some)
      then show ?thesis using assms(8) \<open>v2_members far i = None\<close> by (auto simp: member_id_def)
    qed
    then have "v2_members ?r' i = v2_members r1 i" by (intro v2_store.fold_frame) auto
    then show ?thesis using g by simp
  qed
  moreover obtain us far' where "MembersDelta dg far = (us, far')" by fastforce
  ultimately show ?thesis
    using assms(1,2,7) d g
    by (simp add: v2_client_Sync_def v2_replica_Sync_def v2_ConnectReplica_def v2_NewReplicaServer_def split: prod.split)
qed

theorem v2_sync_catches_up_witness:
  "\<exists>c' r' e. v2_client_Sync [''x''] [] [] (\<lambda>d. map_option fst (v2_replica_Sync d
      \<lparr>srv_registry = Some (OwnedMemberUpsert (zero_state ''x'') 5 (v2_NewRegistry ''n2'' 1 []))\<rparr>))
      \<lparr>rc_registry = Some ((v2_NewRegistry ''n1'' 1 [])\<lparr>v2_priorityMembers := {''x''}\<rparr>), rc_client = True\<rparr> = Some (True, c') \<and>
    rc_registry c' = Some r' \<and> v2_members r' ''x'' = Some e"
proof -
  let ?r = "(v2_NewRegistry ''n1'' 1 [])\<lparr>v2_priorityMembers := {''x''}\<rparr>"
  let ?far = "OwnedMemberUpsert (zero_state ''x'') 5 (v2_NewRegistry ''n2'' 1 [])"
  have far: "v2_members ?far = [''x'' \<mapsto> \<lparr>State = zero_state ''x'', Liveness = Liveness_UP,
      Version = \<lparr>OwnerId = ''n2'', VTimestamp = MonotonicTimestamp 5 0\<rparr>, Expiry = 0\<rparr>]"
    by (simp add: OwnedMemberUpsert_eq v2_NewRegistry_def v2_defaultOptions_def v2_nextVersionLocked_def Let_def)
  have e: "v2_members ?r = Map.empty" by (simp add: v2_NewRegistry_def v2_defaultOptions_def)
  have p: "set [''x''] = v2_priorityMembers ?r" "iter_order [] (v2_members ?r)" "valid_perm [] ([] :: string list)"
    "int (card (v2_priorityMembers ?r \<union> dom (v2_members ?r))) < maxDigestSize"
    "\<forall>i m. v2_members ?far i = Some m \<longrightarrow> MemberId (State m) = i \<and> MonotonicTimestamp 0 0 < VTimestamp (Version m)"
    unfolding far e by (simp_all add: iter_order_def valid_perm_def maxDigestSize_def less_monotonic_timestamp_def)
  have c: "rc_registry \<lparr>rc_registry = Some ?r, rc_client = True\<rparr> = Some ?r" "rc_client \<lparr>rc_registry = Some ?r, rc_client = True\<rparr>"
    "srv_registry \<lparr>srv_registry = Some ?far\<rparr> = Some ?far" by simp_all
  obtain c' r' where r': "v2_client_Sync [''x''] [] [] (\<lambda>d. map_option fst (v2_replica_Sync d \<lparr>srv_registry = Some ?far\<rparr>))
      \<lparr>rc_registry = Some ?r, rc_client = True\<rparr> = Some (True, c')" "rc_registry c' = Some r'"
    "\<forall>i m. i \<in> v2_priorityMembers ?r \<union> dom (v2_members ?r) \<and> v2_members ?far i = Some m \<longrightarrow>
        (\<exists>e. v2_members r' i = Some e \<and> \<not> newer (Version e) (Version m))"
    using conjunct1 [OF v2_sync_catches_up [OF c(1,2) p(1-4) c(3) p(5)]] by blast
  have "\<exists>m. v2_members ?far ''x'' = Some m" "''x'' \<in> v2_priorityMembers ?r \<union> dom (v2_members ?r)"
    unfolding far by simp_all
  then have "\<exists>e. v2_members r' ''x'' = Some e" using r'(3) by blast
  then show ?thesis using r'(1,2) by blast
qed

end
