(* ===== verification/V2Cluster.thy ===== *)
theory V2Cluster
  imports V2Services
begin

text \<open>
  The rest of the rewrite. pkg/registryv2/registry has its own copies of the helpers of the registry;
  they are written out here and shown to be the ones of Versions and ReplicaRepair, which the
  other theories use. The methods whose bodies are still comments (subscriptions, heartbeats, node
  events, the failure detector) do nothing, and so does pkg/clusterv2, which is made of them.
\<close>

subsection \<open>The copies\<close>

text \<open>Each copy field by field; the metadata by the loop over its keys \<open>ks\<close>.\<close>

definition v2_copyMetadata :: "string list \<Rightarrow> (string \<rightharpoonup> string) \<Rightarrow> (string \<rightharpoonup> string)" where
  "v2_copyMetadata ks src = fold (\<lambda>k dst. dst(k := src k)) ks Map.empty"

definition v2_copyMemberState :: "string list \<Rightarrow> member_state \<Rightarrow> member_state" where
  "v2_copyMemberState ks m = \<lparr>MemberId = MemberId m, Status = Status m, Service = Service m,
     Locality = Locality m, Started = Started m, Revision = Revision m,
     Metadata = v2_copyMetadata ks (Metadata m)\<rparr>"

definition v2_copyVersion :: "version2 \<Rightarrow> version2" where
  "v2_copyVersion v = \<lparr>OwnerId = OwnerId v,
     VTimestamp = MonotonicTimestamp (Timestamp (VTimestamp v)) (Counter (VTimestamp v))\<rparr>"

definition v2_copyMember :: "string list \<Rightarrow> member2 \<Rightarrow> member2" where
  "v2_copyMember ks m = \<lparr>State = v2_copyMemberState ks (State m), Liveness = Liveness m,
     Version = v2_copyVersion (Version m), Expiry = 0\<rparr>"

definition v2_compareTimestamps :: "monotonic_timestamp \<Rightarrow> monotonic_timestamp \<Rightarrow> int" where
  "v2_compareTimestamps lhs rhs =
     (if Timestamp lhs < Timestamp rhs then 1
      else if Timestamp lhs > Timestamp rhs then - 1
      else if Counter lhs < Counter rhs then 1
      else if Counter lhs > Counter rhs then - 1
      else 0)"

definition v2_shuffleStrings :: "nat list \<Rightarrow> string list \<Rightarrow> string list" where
  "v2_shuffleStrings perm src =
     fold (\<lambda>(i, v) res. res[v := src ! i]) (enumerate 0 perm) (replicate (length src) '''')"

lemma v2_copyMetadata_eq:
  assumes "iter_order ks md"
  shows "v2_copyMetadata ks md = md"
proof
  have "fold (\<lambda>k dst. dst(k := md k)) ks acc k = (if k \<in> set ks then md k else acc k)" for acc k
    by (induction ks arbitrary: acc) auto
  then show "v2_copyMetadata ks md k = md k" for k
    using iter_order_set [OF assms] by (auto simp: v2_copyMetadata_def domIff)
qed

text \<open>
  The copies of the rewrite are those of the registry: whatever the order in which the metadata is
  visited, a copied member has the same state, version and liveness, and it too loses its expiry;
  the timestamps compare alike and a permutation shuffles alike. The one helper that differs is the
  comparison of versions, and only in what it returns for two owners in the same millisecond, which
  neither side counts as newer.
\<close>
theorem v2_copies:
  assumes "iter_order ks (Metadata (State m))"
  shows "v2_copyMember ks m = copyMember m \<and> v2_copyMember ks m = m\<lparr>Expiry := 0\<rparr> \<and>
    v2_compareTimestamps = compareTimestamps \<and> v2_shuffleStrings = shuffleStrings \<and>
    (0 < v2_compareVersions a b \<longleftrightarrow> newer a b) \<and>
    (v2_compareVersions a b \<noteq> compareVersions a b \<longleftrightarrow>
       OwnerId a \<noteq> OwnerId b \<and> Timestamp (VTimestamp a) = Timestamp (VTimestamp b))"
proof -
  have s: "v2_copyMemberState ks (State m) = State m"
    by (cases "State m") (use v2_copyMetadata_eq [OF assms] in \<open>simp add: v2_copyMemberState_def\<close>)
  have v: "v2_copyVersion (Version m) = Version m" by (cases "Version m") (simp add: v2_copyVersion_def)
  have "v2_copyMember ks m = m\<lparr>Expiry := 0\<rparr>"
    by (cases m) (use s v in \<open>simp add: v2_copyMember_def\<close>)
  moreover have "copyMember m = m\<lparr>Expiry := 0\<rparr>" by (cases m) (simp add: copyMember_def)
  moreover have "v2_compareTimestamps = compareTimestamps"
    by (rule ext)+ (simp add: v2_compareTimestamps_def compareTimestamps_def)
  moreover have "v2_shuffleStrings = shuffleStrings"
    by (rule ext)+ (simp add: v2_shuffleStrings_def shuffleStrings_def)
  ultimately show ?thesis by (simp add: v2_compareVersions_def compareVersions_def)
qed

subsection \<open>The empty methods\<close>

definition v2_SubscribeLocal :: "(member2 \<Rightarrow> v2_client \<Rightarrow> v2_client) \<Rightarrow> registryv2 \<Rightarrow> registryv2" where
  "v2_SubscribeLocal onUpdate r = r"

definition v2_SubscribeFromDigest ::
  "digest \<Rightarrow> (member2 \<Rightarrow> v2_client \<Rightarrow> v2_client) \<Rightarrow> registryv2 \<Rightarrow> registryv2"
where
  "v2_SubscribeFromDigest d onUpdate r = r"

definition OwnedMemberHeartbeat :: "string \<Rightarrow> int \<Rightarrow> registryv2 \<Rightarrow> registryv2" where
  "OwnedMemberHeartbeat i timestamp r = r"

definition v2_OnNodeJoin :: "string \<Rightarrow> registryv2 \<Rightarrow> registryv2" where
  "v2_OnNodeJoin i r = r"

definition v2_OnNodeLeave :: "string \<Rightarrow> registryv2 \<Rightarrow> registryv2" where
  "v2_OnNodeLeave i r = r"

definition v2_Check :: "registryv2 \<Rightarrow> registryv2" where
  "v2_Check r = r"

subsection \<open>The cluster\<close>

record v2_cluster =
  vc_registry :: registryv2

definition v2_NewCluster :: "registryv2 \<Rightarrow> v2_cluster" where
  "v2_NewCluster r = \<lparr>vc_registry = r\<rparr>"

text \<open>The client made for the peer is kept by the callback only.\<close>

definition v2_cluster_OnJoin :: "string \<Rightarrow> string \<Rightarrow> v2_cluster \<Rightarrow> v2_cluster" where
  "v2_cluster_OnJoin i addr c =
     (let r1 = v2_OnNodeJoin i (vc_registry c);
          conn = v2_ConnectReplica addr
      in c\<lparr>vc_registry := v2_SubscribeLocal (\<lambda>m _. v2_client_Update m conn) r1\<rparr>)"

definition v2_cluster_OnLeave :: "string \<Rightarrow> v2_cluster \<Rightarrow> v2_cluster" where
  "v2_cluster_OnLeave i c = c\<lparr>vc_registry := v2_OnNodeLeave i (vc_registry c)\<rparr>"

definition v2_cluster_ReplicaRepair :: "v2_cluster \<Rightarrow> v2_cluster" where
  "v2_cluster_ReplicaRepair c = c"

datatype v2_cluster_event = V2_join string string | V2_leave string | V2_repair

fun v2_cluster_step :: "v2_cluster_event \<Rightarrow> v2_cluster \<Rightarrow> v2_cluster" where
  "v2_cluster_step (V2_join i addr) c = v2_cluster_OnJoin i addr c"
| "v2_cluster_step (V2_leave i) c = v2_cluster_OnLeave i c"
| "v2_cluster_step V2_repair c = v2_cluster_ReplicaRepair c"

text \<open>
  The cluster of the rewrite replicates nothing yet: whatever nodes join and leave, its registry has
  the state it was given, with no callback kept, and a member that the registry takes in later
  changes the same way as without any peer. The client it would send to ignores updates.
\<close>
theorem v2_cluster_inert:
  "vc_registry (fold v2_cluster_step es (v2_NewCluster r)) = r \<and>
   OwnedMemberUpsert st now (vc_registry (fold v2_cluster_step es (v2_NewCluster r))) = OwnedMemberUpsert st now r \<and>
   v2_client_Update m (v2_ConnectReplica addr) = v2_ConnectReplica addr"
proof -
  have "v2_cluster_step e c = c" for e c
    by (cases e) (simp_all add: v2_cluster_OnJoin_def v2_cluster_OnLeave_def v2_cluster_ReplicaRepair_def
        v2_SubscribeLocal_def v2_OnNodeJoin_def v2_OnNodeLeave_def)
  then have "fold v2_cluster_step es c = c" for c by (induction es arbitrary: c) simp_all
  then show ?thesis by (simp add: v2_NewCluster_def v2_client_Update_def)
qed

end
