(* ===== verification/StartCommand.thy ===== *)
theory StartCommand
  imports Node
begin

text \<open>
  The start command of pkg/cli/start after its flags are read, and the log encoders of pkg/config
  whose output NewNode logs first. An object encoder is the list of the fields added to it, nested
  objects included.
\<close>

subsection \<open>The logged configuration\<close>

datatype log_value = LogString string | LogInt int | LogDuration int | LogArray "string list"

datatype config_field = LogField string log_value | LogObject string "(string \<times> log_value) list"

definition stringArray_MarshalLogArray :: "string list \<Rightarrow> string list" where
  "stringArray_MarshalLogArray ss = fold (\<lambda>s arr. arr @ [s]) ss []"

definition rpc_MarshalLogObject :: "rpc_config \<Rightarrow> (string \<times> log_value) list" where
  "rpc_MarshalLogObject c =
     [(''bind-addr'', LogString (rpc_BindAddr c)), (''bind-port'', LogInt (rpc_BindPort c)),
      (''adv-addr'', LogString (rpc_AdvAddr c)), (''adv-port'', LogInt (rpc_AdvPort c))]"

definition gossip_MarshalLogObject :: "gossip_config \<Rightarrow> (string \<times> log_value) list" where
  "gossip_MarshalLogObject c =
     [(''bind-addr'', LogString (gossip_BindAddr c)), (''bind-port'', LogInt (gossip_BindPort c)),
      (''adv-addr'', LogString (gossip_AdvAddr c)), (''adv-port'', LogInt (gossip_AdvPort c)),
      (''seeds'', LogArray (stringArray_MarshalLogArray (gossip_Seeds c)))]"

definition admin_MarshalLogObject :: "admin_config \<Rightarrow> (string \<times> log_value) list" where
  "admin_MarshalLogObject c =
     [(''bind-addr'', LogString (admin_BindAddr c)), (''bind-port'', LogInt (admin_BindPort c)),
      (''adv-addr'', LogString (admin_AdvAddr c)), (''adv-port'', LogInt (admin_AdvPort c))]"

definition registry_MarshalLogObject :: "registry_config \<Rightarrow> (string \<times> log_value) list" where
  "registry_MarshalLogObject c =
     [(''heartbeat-timeout'', LogDuration (HeartbeatTimeout c)),
      (''reconnect-timeout'', LogDuration (ReconnectTimeout c)),
      (''tombstone-timeout'', LogDuration (TombstoneTimeout c))]"

definition config_MarshalLogObject :: "config \<Rightarrow> config_field list" where
  "config_MarshalLogObject c =
     [LogField ''node-id'' (LogString (NodeID c)),
      LogObject ''rpc'' (rpc_MarshalLogObject (RPC c)),
      LogObject ''gossip'' (gossip_MarshalLogObject (Gossip c)),
      LogObject ''admin'' (admin_MarshalLogObject (Admin c)),
      LogObject ''registry'' (registry_MarshalLogObject (RegistryConf c))]"

text \<open>
  The logged configuration is all of it: two configurations that are logged alike are equal, seeds
  and timeouts included.
\<close>
theorem config_log_complete:
  "config_MarshalLogObject c = config_MarshalLogObject c' \<longleftrightarrow> c = c'"
proof
  have arr: "stringArray_MarshalLogArray ss = ss" for ss
  proof -
    have "fold (\<lambda>s arr. arr @ [s]) ss as = as @ ss" for as by (induction ss arbitrary: as) simp_all
    then show ?thesis by (simp add: stringArray_MarshalLogArray_def)
  qed
  assume eq: "config_MarshalLogObject c = config_MarshalLogObject c'"
  have "RPC c = RPC c'" using eq by (intro rpc_config.equality)
    (simp_all add: config_MarshalLogObject_def rpc_MarshalLogObject_def)
  moreover have "Gossip c = Gossip c'" using eq by (intro gossip_config.equality)
    (simp_all add: config_MarshalLogObject_def gossip_MarshalLogObject_def arr)
  moreover have "Admin c = Admin c'" using eq by (intro admin_config.equality)
    (simp_all add: config_MarshalLogObject_def admin_MarshalLogObject_def)
  moreover have "RegistryConf c = RegistryConf c'" using eq by (intro registry_config.equality)
    (simp_all add: config_MarshalLogObject_def registry_MarshalLogObject_def)
  moreover have "NodeID c = NodeID c'" using eq by (simp add: config_MarshalLogObject_def)
  ultimately show "c = c'" by (intro config.equality) simp_all
qed simp

subsection \<open>The run of the command\<close>

text \<open>
  The process waits for an interrupt, prints and waits, has ended, or has panicked; what was printed
  before is kept. The log level is that of the flag. An error of NewNode is printed and the command
  goes on: it waits for the signal and then calls Shutdown on the nil node, which panics.
  \<open>err_text\<close> is how an error prints.
\<close>

datatype start_end = Waiting node | WaitingFailed left_running | Exited node | Crashed

definition start_run ::
  "(liveness \<Rightarrow> string) \<Rightarrow> (node_error \<Rightarrow> string) \<Rightarrow> int \<Rightarrow> int \<Rightarrow> node_world \<Rightarrow> string \<Rightarrow> start_flags \<Rightarrow> bool \<Rightarrow>
     string list \<times> start_end"
where
  "start_run ls err_text started clk w uuid flags interrupted =
     (case NewNode ls started clk w [Node_WithLogLevel (StringToLevel (logLevel flags))]
         (start_config uuid flags) of
        Inr n \<Rightarrow> ([], if interrupted then Exited (node_Shutdown n) else Waiting n)
      | Inl (Panicked, left) \<Rightarrow> ([], Crashed)
      | Inl (err, left) \<Rightarrow> ([''failed to start node: '' @ err_text err],
          if interrupted then Crashed else WaitingFailed left))"

text \<open>
  How the command ends. Interrupting it ends it cleanly exactly when the node had started: then its
  RPC server, its gossip and its admin server are stopped. When starting failed with an error the
  error is printed, the process lives on without a node until the interrupt, with the admin server
  running when it was gossip that failed, and then panics.
\<close>
theorem start_command_ends:
  assumes "\<forall>name \<in> set (go_names w). take 3 name = ''go_''"
    and "start_run ls err_text started clk w uuid flags False = (printed, wait)"
    and "start_run ls err_text started clk w uuid flags True = (printed', end')"
  shows "printed' = printed \<and>
    (case end' of
       Exited n' \<Rightarrow> (\<exists>n. wait = Waiting n \<and> nodeConfig n = start_config uuid flags \<and> n' = node_Shutdown n) \<and>
         printed = [] \<and> \<not> nodeGossip n' \<and> rpc_serving (nodeRPC n') = None \<and> admin_serving (nodeAdmin n') = None
     | Crashed \<Rightarrow> wait = Crashed \<and> printed = [] \<or>
         (\<exists>left err. wait = WaitingFailed left \<and> printed = [''failed to start node: '' @ err_text err] \<and>
            (err = LoggerFailed \<and> left_admin left = None \<or> (\<exists>g. err = GossipFailed g) \<and> left_admin left \<noteq> None))
     | _ \<Rightarrow> False)"
proof -
  let ?o = "fold apply_node_option [Node_WithLogLevel (StringToLevel (logLevel flags))] node_defaultOptions"
  let ?N = "NewNode ls started clk w [Node_WithLogLevel (StringToLevel (logLevel flags))] (start_config uuid flags)"
  note out = NewNode_outcome [OF go_names_apart [OF assms(1)] refl,
      of ls started clk "[Node_WithLogLevel (StringToLevel (logLevel flags))]" "start_config uuid flags"]
  show ?thesis
  proof (cases ?N)
    case (Inr n)
    then show ?thesis
      using assms(2,3) NewNode_parts [OF Inr]
      by (auto simp: start_run_def node_Shutdown_def rpc_Shutdown_def admin_Shutdown_def)
  next
    case (Inl e)
    obtain err left where e: "e = (err, left)" by fastforce
    have "err = Panicked \<or> (err = LoggerFailed \<and> left_admin left = None) \<or>
        ((\<exists>g. err = GossipFailed g) \<and> left_admin left \<noteq> None)"
      using Inl e unfolding out by (auto split: if_splits option.splits prod.splits sum.splits)
    then consider "err = Panicked" | "err = LoggerFailed" "left_admin left = None"
      | g where "err = GossipFailed g" "left_admin left \<noteq> None" by (elim disjE conjE exE)
    then show ?thesis
    proof cases
      case (3 g)
      then have "end' = Crashed" "wait = WaitingFailed left" "printed' = printed"
        "printed = [''failed to start node: '' @ err_text err]"
        using assms(2,3) Inl e by (simp_all add: start_run_def)
      then show ?thesis using 3 by (auto intro!: exI [of _ err])
    qed (use assms(2,3) Inl e in \<open>auto simp: start_run_def\<close>)
  qed
qed

end
