(* ===== verification/PartOptions.thy ===== *)
theory PartOptions
  imports Node
begin

text \<open>
  The options and constructors of the parts NewNode creates: registry (pkg/registry/registry),
  cluster (pkg/cluster) and the three servers of pkg/registry/server. A constructor registers the
  metrics of its part with the collector it was given, if any, and keeps the logger. A collector is
  the Prometheus registry or nil (\<open>False\<close>), a logger is one or the no-op default (\<open>False\<close>). None as a
  result is the panic of registering a metric twice.
\<close>

subsection \<open>Options\<close>

record part_options =
  po_collector :: bool
  po_logger :: bool

definition server_defaultOptions :: part_options where
  "server_defaultOptions = \<lparr>po_collector = False, po_logger = False\<rparr>"

datatype server_option = Server_WithCollector bool | Server_WithLogger bool

fun apply_server_option :: "server_option \<Rightarrow> part_options \<Rightarrow> part_options" where
  "apply_server_option (Server_WithCollector c) opts = opts\<lparr>po_collector := c\<rparr>"
| "apply_server_option (Server_WithLogger l) opts = opts\<lparr>po_logger := l\<rparr>"

definition cluster_defaultOptions :: part_options where
  "cluster_defaultOptions = \<lparr>po_collector = False, po_logger = False\<rparr>"

datatype cluster_option = Cluster_WithCollector bool | Cluster_WithLogger bool

fun apply_cluster_option :: "cluster_option \<Rightarrow> part_options \<Rightarrow> part_options" where
  "apply_cluster_option (Cluster_WithCollector c) opts = opts\<lparr>po_collector := c\<rparr>"
| "apply_cluster_option (Cluster_WithLogger l) opts = opts\<lparr>po_logger := l\<rparr>"

text \<open>The option of a registry that only its construction sees.\<close>

datatype registry_part_option = Registry_WithCollector bool

fun apply_registry_part_option :: "registry_part_option \<Rightarrow> part_options \<Rightarrow> part_options" where
  "apply_registry_part_option (Registry_WithCollector c) opts = opts\<lparr>po_collector := c\<rparr>"

definition register_if ::
  "bool \<Rightarrow> (prom_registry \<Rightarrow> prom_registry option) \<Rightarrow> prom_registry \<Rightarrow> prom_registry option"
where
  "register_if collector f reg = (if collector then f reg else Some reg)"

subsection \<open>Constructors\<close>

definition NewRegistry_part ::
  "(liveness \<Rightarrow> string) \<Rightarrow> int \<Rightarrow> string \<Rightarrow> option_arg list \<Rightarrow> registry_part_option list \<Rightarrow> prom_registry \<Rightarrow>
     (registry \<times> prom_registry) option"
where
  "NewRegistry_part ls clk lid opts popts reg =
     (let o' = fold apply_registry_part_option popts \<lparr>po_collector = False, po_logger = False\<rparr>
      in case register_if (po_collector o') registry_Register reg of
           None \<Rightarrow> None
         | Some reg' \<Rightarrow> Some (NewRegistry ls clk lid opts, reg'))"

definition NewCluster_part :: "cluster_option list \<Rightarrow> prom_registry \<Rightarrow> (cluster \<times> bool \<times> prom_registry) option" where
  "NewCluster_part opts reg =
     (let o' = fold apply_cluster_option opts cluster_defaultOptions
      in case register_if (po_collector o') cluster_Register reg of
           None \<Rightarrow> None
         | Some reg1 \<Rightarrow>
             (case register_if (po_collector o') replica_client_Register reg1 of
                None \<Rightarrow> None
              | Some reg2 \<Rightarrow> Some (NewCluster, po_logger o', reg2)))"

record client_read_server =
  crs_outboundUpdates :: counter
  crs_logger :: bool

definition NewClientReadServer :: "server_option list \<Rightarrow> prom_registry \<Rightarrow> (client_read_server \<times> prom_registry) option" where
  "NewClientReadServer opts reg =
     (let o' = fold apply_server_option opts server_defaultOptions;
          outboundUpdates = NewCounter
      in case register_if (po_collector o') client_read_Register reg of
           None \<Rightarrow> None
         | Some reg' \<Rightarrow> Some (\<lparr>crs_outboundUpdates = outboundUpdates, crs_logger = po_logger o'\<rparr>, reg'))"

record client_write_server =
  cws_inboundUpdates :: counter
  cws_logger :: bool

definition NewClientWriteServer :: "server_option list \<Rightarrow> prom_registry \<Rightarrow> (client_write_server \<times> prom_registry) option" where
  "NewClientWriteServer opts reg =
     (let o' = fold apply_server_option opts server_defaultOptions;
          inboundUpdates = NewCounter
      in case register_if (po_collector o') client_write_Register reg of
           None \<Rightarrow> None
         | Some reg' \<Rightarrow> Some (\<lparr>cws_inboundUpdates = inboundUpdates, cws_logger = po_logger o'\<rparr>, reg'))"

record replica_server =
  rsv_metrics :: replica_server_metrics
  rsv_logger :: bool

definition NewReplicaServer :: "server_option list \<Rightarrow> prom_registry \<Rightarrow> (replica_server \<times> prom_registry) option" where
  "NewReplicaServer opts reg =
     (let o' = fold apply_server_option opts server_defaultOptions;
          metrics = NewReplicaServerMetrics
      in case register_if (po_collector o') replica_server_Register reg of
           None \<Rightarrow> None
         | Some reg' \<Rightarrow> Some (\<lparr>rsv_metrics = metrics, rsv_logger = po_logger o'\<rparr>, reg'))"

subsection \<open>What a node registers\<close>

text \<open>The parts as NewNode makes them, with the options it passes.\<close>

definition node_constructs ::
  "(liveness \<Rightarrow> string) \<Rightarrow> int \<Rightarrow> int \<Rightarrow> config \<Rightarrow> prom_registry \<Rightarrow>
     (registry \<times> cluster \<times> client_read_server \<times> client_write_server \<times> replica_server \<times> prom_registry) option"
where
  "node_constructs ls started clk conf reg =
     (case NewRegistry_part ls clk (NodeID conf)
           [WithLocalMember (node_member conf started),
            WithHeartbeatTimeout (Milliseconds (HeartbeatTimeout (RegistryConf conf))),
            WithReconnectTimeout (Milliseconds (ReconnectTimeout (RegistryConf conf))),
            WithTombstoneTimeout (Milliseconds (TombstoneTimeout (RegistryConf conf))), WithLogger True]
           [Registry_WithCollector True] reg of
        None \<Rightarrow> None
      | Some (r, reg1) \<Rightarrow>
     (case NewCluster_part [Cluster_WithLogger True, Cluster_WithCollector True] reg1 of
        None \<Rightarrow> None
      | Some (c, _, reg2) \<Rightarrow>
     (case NewClientReadServer [Server_WithLogger True, Server_WithCollector True] reg2 of
        None \<Rightarrow> None
      | Some (rs, reg3) \<Rightarrow>
     (case NewClientWriteServer [Server_WithLogger True, Server_WithCollector True] reg3 of
        None \<Rightarrow> None
      | Some (ws, reg4) \<Rightarrow>
     (case NewReplicaServer [Server_WithLogger True, Server_WithCollector True] reg4 of
        None \<Rightarrow> None
      | Some (sv, reg5) \<Rightarrow> Some (r, c, rs, ws, sv, reg5))))))"

text \<open>
  Every part of a node counts in the collector of the node and logs through its logger: with the
  metrics of the Go runtime named apart, constructing the parts succeeds, the metrics of all of them
  are registered, once each, after those of the logger, and the counters start at zero. A part
  constructed without a collector registers nothing; constructing a second server of a kind on the
  same collector panics.
\<close>
theorem node_parts_registered:
  assumes "\<forall>name \<in> set names. take 3 name = ''go_''" and "logger_Register names = Some reg0"
  shows "(\<exists>rs ws sv. node_constructs ls started clk conf reg0 =
        Some (node_registry ls started clk conf, NewCluster, rs, ws, sv, names @ fuddle_names) \<and>
        crs_logger rs \<and> cws_logger ws \<and> rsv_logger sv) \<and>
    distinct fuddle_names \<and>
    NewClientReadServer [Server_WithLogger l] reg = Some (\<lparr>crs_outboundUpdates = NewCounter, crs_logger = l\<rparr>, reg) \<and>
    (NewClientReadServer [Server_WithCollector True] reg = Some (rs, reg') \<longrightarrow>
      NewClientReadServer [Server_WithCollector True] reg' = None)"
proof -
  have apart: "set fuddle_names \<inter> set names = {}" by (rule go_names_apart [OF assms(1)])
  obtain reg2 where r: "foldM (\<lambda>part. part) [registry_Register, cluster_Register, replica_client_Register] reg0 = Some reg2"
    "foldM (\<lambda>part. part) [client_read_Register, client_write_Register, replica_server_Register] reg2 =
       Some (names @ fuddle_names)"
    using parts_register [OF apart] assms(2) by auto
  obtain a b where 1: "registry_Register reg0 = Some a" "cluster_Register a = Some b" "replica_client_Register b = Some reg2"
    using r(1) by (auto split: option.splits)
  obtain c d where 2: "client_read_Register reg2 = Some c" "client_write_Register c = Some d"
    "replica_server_Register d = Some (names @ fuddle_names)"
    using r(2) by (auto split: option.splits)
  have "\<exists>rs ws sv. node_constructs ls started clk conf reg0 =
        Some (node_registry ls started clk conf, NewCluster, rs, ws, sv, names @ fuddle_names) \<and>
        crs_logger rs \<and> cws_logger ws \<and> rsv_logger sv"
    by (simp add: node_constructs_def NewRegistry_part_def NewCluster_part_def NewClientReadServer_def
        NewClientWriteServer_def NewReplicaServer_def register_if_def 1 2 node_registry_def Let_def)
  moreover have "NewClientReadServer [Server_WithCollector True] reg' = None"
    if "NewClientReadServer [Server_WithCollector True] reg = Some (rs, reg')"
    using that by (auto simp: NewClientReadServer_def register_if_def client_read_Register_def collector_defs
        MustRegister_def Let_def split: if_splits option.splits)
  ultimately show ?thesis
    by (simp add: fuddle_names_distinct NewClientReadServer_def register_if_def server_defaultOptions_def Let_def)
qed

end
