(* ===== verification/MemberNode.thy ===== *)
theory MemberNode
  imports ClockDemo
begin

text \<open>
  pkg/fcm/cluster/member.go: a member node of the cluster manager is a random member that registers
  through the SDK. The uuids drawn are \<open>uuid 0\<close>, \<open>uuid 1\<close>, ..., in the order in which Go evaluates the
  fields of the literal; \<open>sdk\<close> says whether the SDK connects a member to the given addresses.
\<close>

record random_member = sdk_member +
  sdk_Region :: string
  sdk_AvailabilityZone :: string

text \<open>A later key of the literal replaces an equal earlier one.\<close>

definition randomMetadata :: "(nat \<Rightarrow> string) \<Rightarrow> nat list \<Rightarrow> (string \<rightharpoonup> string)" where
  "randomMetadata uuid ks = fold (\<lambda>k md. md(uuid k \<mapsto> uuid (k + 1))) ks Map.empty"

definition randomMember :: "(nat \<Rightarrow> string) \<Rightarrow> int \<Rightarrow> string \<Rightarrow> random_member" where
  "randomMember uuid int63 i = \<lparr>sdk_ID = i, sdk_Service = uuid 0, sdk_Started = int63, sdk_Revision = uuid 3,
     sdk_Metadata = Some (randomMetadata uuid [4, 6, 8, 10, 12]),
     sdk_Region = uuid 1, sdk_AvailabilityZone = uuid 2\<rparr>"

record member_node =
  mn_ID :: string
  mn_member :: random_member
  mn_addrs :: "string list"
  mn_open :: bool

definition NewMemberNode ::
  "(random_member \<Rightarrow> string list \<Rightarrow> bool) \<Rightarrow> (nat \<Rightarrow> string) \<Rightarrow> int \<Rightarrow> string \<Rightarrow> string list \<Rightarrow> member_node option"
where
  "NewMemberNode sdk uuid int63 i fuddleAddrs =
     (let member = randomMember uuid int63 i
      in if sdk member fuddleAddrs
         then Some \<lparr>mn_ID = sdk_ID member, mn_member = member, mn_addrs = fuddleAddrs, mn_open = True\<rparr>
         else None)"

definition MemberNode_Shutdown :: "member_node \<Rightarrow> member_node" where
  "MemberNode_Shutdown n = n\<lparr>mn_open := False\<rparr>"

text \<open>The environment that AddMemberNode of the cluster sees when it creates its member so.\<close>

definition member_env_of ::
  "(random_member \<Rightarrow> string list \<Rightarrow> bool) \<Rightarrow> (nat \<Rightarrow> string) \<Rightarrow> int \<Rightarrow> member_env \<Rightarrow> member_env"
where
  "member_env_of sdk uuid int63 e = e\<lparr>connects := (\<lambda>addrs.
     NewMemberNode sdk uuid int63 (''member-'' @ take 8 (member_uuid e)) addrs \<noteq> None)\<rparr>"

lemma randomMetadata_dom: "dom (randomMetadata uuid ks) = uuid ` set ks"
proof -
  have "dom (fold (\<lambda>k md. md(uuid k \<mapsto> uuid (k + 1))) ks md0) = dom md0 \<union> uuid ` set ks" for md0
    by (induction ks arbitrary: md0) auto
  then show ?thesis by (simp add: randomMetadata_def)
qed

text \<open>
  The members the manager adds. When AddMemberNode adds a member, the SDK has registered one with the
  id the cluster lists it under, with the RPC addresses of the cluster's nodes to register with; its
  other attributes are random, with five metadata entries if the uuids are different. When it does not connect the cluster stays as it was.
\<close>
theorem member_node_added:
  assumes "AddMemberNode (member_env_of sdk uuid int63 e) (m, c) = (s', res)"
  shows "case res of
      Inr i \<Rightarrow> i = ''member-'' @ take 8 (member_uuid e) \<and> memberNodes (snd s') (next_ptr m) = Some i \<and>
        (\<exists>n. NewMemberNode sdk uuid int63 i (RPCAddrs (rpc_order e) c) = Some n \<and> mn_ID n = i \<and> mn_open n \<and>
          sdk (mn_member n) (mn_addrs n) \<and> length (mn_addrs n) \<le> length (rpc_order e) \<and>
          (inj_on uuid {0..13} \<longrightarrow> (\<exists>md. sdk_Metadata (mn_member n) = Some md \<and> card (dom md) = 5)))
    | Inl err \<Rightarrow> s' = (m, c)"
proof (cases res)
  case (Inl err)
  then show ?thesis using assms by (auto simp: AddMemberNode_def Let_def split: if_splits)
next
  case (Inr i)
  let ?addrs = "RPCAddrs (rpc_order e) c"
  have i: "i = ''member-'' @ take 8 (member_uuid e)" "memberNodes (snd s') (next_ptr m) = Some i"
    and conn: "NewMemberNode sdk uuid int63 i ?addrs \<noteq> None"
    using assms Inr by (auto simp: AddMemberNode_def member_env_of_def Let_def split: if_splits)
  have len: "length ?addrs \<le> length (rpc_order e)"
    by (induction "rpc_order e") (simp_all add: RPCAddrs_def List.map_filter_def)
  have "card (uuid ` {4, 6, 8, 10, 12}) = 5" if "inj_on uuid {0..13}"
    using card_image [OF inj_on_subset [OF that, of "{4, 6, 8, 10, 12}"]] by simp
  then have md: "inj_on uuid {0..13} \<longrightarrow> card (dom (randomMetadata uuid [4, 6, 8, 10, 12])) = 5"
    by (simp add: randomMetadata_dom)
  have s: "sdk (randomMember uuid int63 i) ?addrs"
    using conn by (simp add: NewMemberNode_def Let_def split: if_splits)
  then have "NewMemberNode sdk uuid int63 i ?addrs = Some \<lparr>mn_ID = i, mn_member = randomMember uuid int63 i,
      mn_addrs = ?addrs, mn_open = True\<rparr>"
    by (simp add: NewMemberNode_def randomMember_def Let_def)
  then show ?thesis using Inr i len md s by (simp add: randomMember_def)
qed

end
