(* ===== verification/FcmNode.thy ===== *)
theory FcmNode
  imports Node FcmServer
begin

text \<open>
  pkg/fcm/cluster/cluster.go, FuddleNode and AddFuddleNode on the node of pkg/node: the nodes of the
  cluster manager are started by NewNode, on the listeners the manager opened, behind a proxy. The
  answer AddFuddleNode gets from NewNode, an argument of the cluster's operations, is here NewNode's.
\<close>

text \<open>The listeners opened for a node.\<close>

record fcm_listeners =
  ln_gossipTCP :: listener
  ln_gossipUDP :: listener
  ln_rpc :: listener
  ln_admin :: listener

definition fuddle_options :: "fcm_listeners \<Rightarrow> string \<Rightarrow> node_option list" where
  "fuddle_options lns path =
     [Node_WithRPCListener (Some (ln_rpc lns)), Node_WithAdminListener (Some (ln_admin lns)),
      Node_WithGossipTCPListener (Some (ln_gossipTCP lns)), Node_WithGossipUDPListener (Some (ln_gossipUDP lns)),
      Node_WithLogPath path]"

definition fuddle_start ::
  "(liveness \<Rightarrow> string) \<Rightarrow> int \<Rightarrow> int \<Rightarrow> node_world \<Rightarrow> fcm_listeners \<Rightarrow> fcm_cluster \<Rightarrow> config \<Rightarrow>
     (node_error \<times> left_running) + node"
where
  "fuddle_start ls started clk w lns c conf =
     NewNode ls started clk w (fuddle_options lns (LogPath c (NodeID conf))) conf"

definition node_env_of :: "(config \<Rightarrow> 'x + 'n) \<Rightarrow> node_env \<Rightarrow> node_env" where
  "node_env_of start e = e\<lparr>node_starts := (\<lambda>conf. case start conf of Inl _ \<Rightarrow> False | Inr _ \<Rightarrow> True)\<rparr>"

text \<open>A FuddleNode: the node and its proxy. Shutdown closes the proxy, then stops the node.\<close>

record fuddle_run =
  Fuddle :: node
  run_proxy :: proxy

definition FuddleNode_Shutdown :: "fuddle_run \<Rightarrow> fuddle_run" where
  "FuddleNode_Shutdown f = (let f1 = f\<lparr>run_proxy := proxy_Close (run_proxy f)\<rparr>
     in f1\<lparr>Fuddle := node_Shutdown (Fuddle f1)\<rparr>)"

lemma listen_all_config:
  assumes "listen_all e c = Inr (conf, rpcAddr)"
  shows "\<exists>gp rp pp ap. conf = fcm_node_config (node_uuid e) gp rp pp ap (GossipAddrs (gossip_order e) c) \<and>
    rpcLn e = Some rpcAddr \<and> parseAddrPort rpcAddr = Some rp \<and> Option.bind (proxyLn e) parseAddrPort = Some pp"
  using assms by (auto simp: listen_all_def and_then_def listen_addr_def addr_port_def
      split: sum.splits option.splits if_splits)

text \<open>
  C24: a node the manager adds is a running node reached through its proxy. When AddFuddleNode succeeds,
  NewNode has started a node with the configuration the cluster lists; it serves on the listeners the
  manager opened; the proxy in front of it dials its RPC listener; and the address it gossips, at
  which the other nodes dial it, is the proxy's, the one RPCAddrs gives to members. It is seeded with
  the gossip addresses of the nodes that were there.
\<close>
theorem fuddle_node_added:
  assumes "AddFuddleNode (node_env_of (fuddle_start ls started clk w lns c) e) (m, c) = (s', Inr fn)"
    and "set fuddle_names \<inter> set (go_names w) = {}"
  shows "\<exists>n p rpcAddr. fuddle_start ls started clk w lns c (NodeConfig fn) = Inr n \<and> node_inv ls n \<and>
    nodeConfig n = NodeConfig fn \<and> rpc_serving (nodeRPC n) = Some (ln_rpc lns) \<and>
    admin_serving (nodeAdmin n) = Some (ln_admin lns) \<and> fuddleNodes (snd s') (next_ptr m) = Some fn \<and>
    rpcLn e = Some rpcAddr \<and> target (RPCProxy fn) = rpcAddr \<and>
    Option.bind (proxyLn e) parseAddrPort = Some p \<and> gossip_meta (nodeConfig n) = host_port ''127.0.0.1'' p \<and>
    gossip_meta (nodeConfig n) \<in> set (RPCAddrs [next_ptr m] (snd s')) \<and>
    gossip_Seeds (Gossip (nodeConfig n)) = GossipAddrs (gossip_order e) c"
proof -
  let ?start = "fuddle_start ls started clk w lns c"
  have ends: "listen_all (node_env_of ?start e) c = listen_all e c"
    by (simp add: listen_all_def node_env_of_def)
  obtain rpcAddr where l: "listen_all e c = Inr (NodeConfig fn, rpcAddr)"
    and st: "node_starts (node_env_of ?start e) (NodeConfig fn)" and t: "RPCProxy fn = NewProxy rpcAddr"
    and h: "fuddleNodes (snd s') (next_ptr m) = Some fn"
    using assms(1) by (auto simp: AddFuddleNode_def ends Let_def split: sum.splits prod.splits if_splits)
  obtain n where n: "?start (NodeConfig fn) = Inr n"
    using st by (auto simp: node_env_of_def split: sum.splits)
  have "node_inv ls n" and conf: "nodeConfig n = NodeConfig fn"
    using NewNode_inv n unfolding fuddle_start_def by blast+
  moreover have "rpc_serving (nodeRPC n) = Some (ln_rpc lns) \<and> admin_serving (nodeAdmin n) = Some (ln_admin lns)"
    using n unfolding fuddle_start_def NewNode_outcome [OF assms(2) refl]
    by (auto simp: fuddle_options_def node_defaultOptions_def admin_ln_of_def rpc_ln_of_def started_admin_def
        split: if_splits option.splits sum.splits prod.splits)
  moreover obtain gp rp pp ap where
    "NodeConfig fn = fcm_node_config (node_uuid e) gp rp pp ap (GossipAddrs (gossip_order e) c)"
    "rpcLn e = Some rpcAddr" "Option.bind (proxyLn e) parseAddrPort = Some pp"
    using listen_all_config [OF l] by blast
  ultimately show ?thesis
    using n h t by (auto simp: fcm_node_config_def DefaultConfig_def gossip_meta_def RPCAddrs_def List.map_filter_def
        NewProxy_def Let_def)
qed

definition sample_lns :: fcm_listeners where
  "sample_lns = \<lparr>ln_gossipTCP = Listener 7, ln_gossipUDP = Listener 17, ln_rpc = Listener 8, ln_admin = Listener 6\<rparr>"

lemma sample_fuddle_start:
  "\<exists>n. fuddle_start sample_text 5 5 sample_world sample_lns c conf = Inr n"
proof -
  let ?opts = "fuddle_options sample_lns (LogPath c (NodeID conf))"
  have d: "set fuddle_names \<inter> set (go_names sample_world) = {}" by (simp add: fuddle_names_def sample_world_def)
  show ?thesis
    unfolding fuddle_start_def NewNode_outcome [OF d refl]
    by (auto simp: fuddle_options_def node_defaultOptions_def sample_lns_def sample_world_def admin_ln_of_def
        rpc_ln_of_def NewGossip_def server_opts_apply newTransport_def Let_def split: prod.split)
qed

theorem fuddle_node_added_witness:
  "\<exists>s' fn n. AddFuddleNode (node_env_of (fuddle_start sample_text 5 5 sample_world sample_lns (new_cluster ''c'' ''t''))
       sample_node_env) (idle_machine, new_cluster ''c'' ''t'') = (s', Inr fn) \<and>
     fuddle_start sample_text 5 5 sample_world sample_lns (new_cluster ''c'' ''t'') (NodeConfig fn) = Inr n \<and>
     rpc_serving (nodeRPC n) = Some (Listener 8) \<and> gossip_meta (nodeConfig n) = ''127.0.0.1:9''"
proof -
  let ?c = "new_cluster ''c'' ''t''" and ?start = "fuddle_start sample_text 5 5 sample_world sample_lns"
  have ends: "listen_all (node_env_of f sample_node_env) c = listen_all sample_node_env c" for f c
    by (simp add: listen_all_def node_env_of_def)
  obtain conf where l: "listen_all sample_node_env ?c = Inr (conf, ''0.0.0.0:8'')" using sample_listen by blast
  obtain n where "?start ?c conf = Inr n" using sample_fuddle_start by blast
  then have st: "node_starts (node_env_of (?start ?c) sample_node_env) conf" by (simp add: node_env_of_def)
  obtain s' fn where a: "AddFuddleNode (node_env_of (?start ?c) sample_node_env) (idle_machine, ?c) = (s', Inr fn)"
    by (simp add: AddFuddleNode_def ends l st Let_def)
  have d: "set fuddle_names \<inter> set (go_names sample_world) = {}" by (simp add: fuddle_names_def sample_world_def)
  have "host_port ''127.0.0.1'' 9 = ''127.0.0.1:9''" by code_simp
  then show ?thesis
    using a fuddle_node_added [OF a d] by (auto simp: sample_node_env_def sample_ports sample_lns_def)
qed

text \<open>
  Stopping a FuddleNode stops everything it serves with: no connection the proxy lists stays open and
  the proxy no longer listens, the two servers stop and the node leaves the gossip. The clients
  through which it forwards to its peers are not closed.
\<close>
lemma FuddleNode_Shutdown_stops:
  assumes "distinct (conns (run_proxy f))"
  shows "let f' = FuddleNode_Shutdown f
   in \<not> listening (run_proxy f') \<and> (\<forall>i \<in> set (conns (run_proxy f)). conn_at (run_proxy f') i = conn_Close (conn_at (run_proxy f) i)) \<and>
     rpc_serving (nodeRPC (Fuddle f')) = None \<and> admin_serving (nodeAdmin (Fuddle f')) = None \<and>
     \<not> nodeGossip (Fuddle f') \<and> nodeCluster (Fuddle f') = nodeCluster (Fuddle f)"
  using assms by (simp add: FuddleNode_Shutdown_def proxy_Close_def node_Shutdown_def rpc_Shutdown_def admin_Shutdown_def
      conn_at_update_conns Let_def)

end
