(* ===== verification/Spec2Isabelle.thy ===== *)
theory Spec2Isabelle
  imports RegistryLog FcmClient GossipLog CliInfo Fleet Commands V2Cluster StartCommand PartOptions MemberNode FcmNode
begin

text \<open>
  Fuddle is a service registry replicated by gossip and repair over a cluster of nodes. This
  development models the Go code of the registry, of what replicates it between nodes and of the
  tools around it, and states what makes it correct.

  The program. A node holds a registry: a map of members, each with a liveness, a version (the
  owning node and a timestamp with a counter) and an expiry. Clients register members with their
  node through a stream (pkg/registry/server/clientwriteserver.go); the node owns them, stamps a
  version on every change and tells its subscribers. The cluster (pkg/cluster) subscribes to the
  local changes and queues them for a replica client per peer (pkg/registry/client), whose send
  loop hands them to the replica server of the peer, which applies them with RemoteUpdate. A
  periodic repair exchanges digests for what got lost. The failure detector marks members of silent
  clients down, later left, takes over members of departed nodes, and removes tombstones.

  Theories, in the order of the code:
  Prelude: int64 with wrap-around, map iteration orders, folds that stop at a panic, counting.
  Messages: the fuddle-rpc messages the code reads and writes (the package is not in the repository).
  Metrics: pkg/metrics/metrics.go, counters and gauges by label.
  Versions: compareVersions, compareTimestamps and copyVersion.
  Registry: the state and operations of pkg/registry/registry/registry.go and options.go;
  RegistryFacts: the invariant and what each operation does to a member.
  FailureDetector: failuredetector.go against a decision table.
  Subscriptions: Updates, Subscribe and the catch-up updates a subscriber is sent.
  RegistrySteps: the registry as a state machine whose steps are its operations, and what a
  subscriber knows. Ownership: what holds of every reachable registry.
  MemberStore: replicated application of remote updates. ReplicaRepair: replicarepair.go.
  RegistryLog: logger.go, which Registry uses for its error logs.
  PendingUpdates, ReplicaClient: pkg/registry/client. RegistryServers: pkg/registry/server.
  Cluster: pkg/cluster/cluster.go. Replication: a client's registration on its way to a peer and
  the rounds of repair, through all of the above. Network: repair among any number of nodes, as a
  rumour. Agreement: the registries of all nodes and the messages between them, with the invariant
  that a version stands for one update. Fleet: all nodes as NewNode wires them, which refine it.
  Gossip: pkg/gossip, the transport, the delegates and NewGossip. GossipLog: logger.go, which turns
  the lines of memberlist into log entries. Collector: the Prometheus collector and what every
  component registers with it. Servers: pkg/server, pkg/admin/server and NewLogger.
  Node: pkg/node/node.go, the start of a node with every way it fails, and the registry, the cluster
  and the gossip callbacks wired together as one state machine.
  PartOptions: the options and constructors of the parts of a node, and what they register.
  RegistryV2: pkg/registryv2/registry. V2Services: its servers and replica client. V2Cluster: its
  helpers, its empty methods and pkg/clusterv2. LoggerMetrics: pkg/logger. Config: pkg/config, the
  flags of the start command and the addresses nodes exchange. StartCommand: how that command runs
  and what is logged of the configuration. CliInfo: the info command and the admin client.
  Proxy, FcmCluster, FcmServer, FcmClient: the cluster manager of pkg/fcm, from the proxy in front of
  a node to the HTTP handlers and the client that calls them. ClockDemo: demos/clock, a cluster of
  nodes and services and the gRPC resolver that finds a service in the registry. MemberNode: the
  random members that the cluster manager registers. FcmNode: its nodes, as NewNode starts them behind
  a proxy, and their shutdown. FcmStart: the start and the shutdown of the cluster manager and what a
  run leaves behind. Commands: pkg/cli/fcm and pkg/cli/demo, what the commands print.

  Conventions. An operation is a function on the state record of its component, an event of a state
  machine is a constructor of a datatype. The clock, the order in which Go visits a map, random
  choices, and the answers of the network are arguments; theorems hold for every value the code
  can see (iter_order for map orders). A panic is None, or a value of a result type. A loop that
  may run forever consumes a list of its environment's answers, and a result that says it is still
  running when the list is used up; theorems that it returns say how many answers are enough.
  A lock makes an operation one step; where the code calls out while not holding a lock (the send
  loop, the proxy) the steps are separate. Two things are one step without being one critical
  section: Cluster.OnJoin and OnLeave, which lock their maps but not the calls of the registry that
  follow, and a handler of the cluster manager, which holds no lock on its cluster
  (add_racing_delete shows what becomes of a node that is added while its cluster is deleted).

  Panics of the registry. An operation on the members a node owns may have to log an error, and
  encoding the member for it dereferences the locality: AddMember, MemberHeartbeat, RemoveMember and
  UpdateLiveness return None when the registry has a logger, the member has no locality, and it is
  the node's own or the store has a later version than the clock gives. Steps and runs go on from
  operations that return; the theorems on the operations themselves say when they do not.

  Interfaces. Locales state what one component relies on in another: freshness (the order of
  versions that an update must win), gauge laws (what a metric reads back), member store (a map of
  members that keeps the fresher of two), feed (what a subscription is promised), lossy queue (what
  the pending queue promises the send loop). Each is interpreted on the code's definitions.

  What the groups of lemmas show. Registry: the invariant of every reachable registry, exact gauges,
  who owns a member and who may change it, versions that grow, subscribers that stay up to date,
  the failure detector as a decision table. Replication: queues that keep the newest updates in
  order, updates sent to every peer, digests and deltas that name what is missing, two rounds of
  repair that leave neither side behind, repair that spreads a member through a network, and nodes
  that agree on every version of a member they share, whatever is lost, delayed or repeated
  (Agreement proves it of the registries and the messages between them, Fleet refines the running
  nodes to that) and that converge to the owner's entry once it repairs with each of them. Node:
  what gossip does to the peers; that a peer which stays joined is queued, and sent as its send loop
  takes it, what it needs to hold the members the node owns; when a start fails, what it leaves
  running. Cluster manager: clusters that never share a node, from creation to deletion, errors of
  every handler, and the client as a caller of the handlers. Transport: bounded back-off, a
  terminating search for a buffer size, and the panic of a start that gets no listener.

  Bounds and fuel. A loop over Go's int counts up to its bound with wrap-around (count_loop); with a
  negative bound it needs 2^64 + n turns, and the theorems say what holds of every shorter run. The
  health check consumes one poll per test; it has returned once the deadline was seen more often
  than there are nodes. The pending queue of a peer holds 129 updates.

  Not modelled: logging calls, except those that may panic and those of pkg/logger; mutexes beyond
  atomicity; gRPC and HTTP transport, the timeouts of the HTTP servers included (the reply of a
  handler of the cluster manager that takes longer than a second is lost); the memberlist and
  Prometheus libraries behind what is modelled; the fuddle SDK of the demo; generated code; and
  the tree of commands given to the cobra library.
\<close>

end
